(* ===== verification/Prelude.thy ===== *)
theory Prelude
  imports Complex_Main "HOL-Library.State_Monad" "HOL-Library.List_Lexorder" "HOL-Library.Char_ord"
begin

text \<open>
  Shared vocabulary of the development: tables as lists of rows with the SQL verbs the
  queries use, the weakest-precondition calculus for the state monad in which handlers are
  written, and the two properties of a monadic program that most component lemmas are about:
  \<open>preserves f m\<close> (the observation \<open>f\<close> of the state is the same before and after \<open>m\<close>)
  and \<open>never_less\<close> (it only grows).
\<close>

named_theorems wp_rules
named_theorems frame
named_theorems sql

section \<open>Tables\<close>

text \<open>
  A table is the list of its rows. \<open>UPDATE .. SET .. WHERE\<close> is \<open>update_where\<close>,
  \<open>SELECT .. WHERE\<close> is \<open>filter\<close>, a single-row lookup (\<open>QueryRow\<close>) is \<open>find\<close>.
\<close>

definition update_where :: "('r \<Rightarrow> bool) \<Rightarrow> ('r \<Rightarrow> 'r) \<Rightarrow> 'r list \<Rightarrow> 'r list" where
  "update_where P f t = map (\<lambda>r. if P r then f r else r) t"

definition affected :: "('r \<Rightarrow> bool) \<Rightarrow> 'r list \<Rightarrow> nat" where
  "affected P t = length (filter P t)"

lemma update_where_simps [simp]:
  "update_where P f [] = []"
  "update_where P f (r # t) = (if P r then f r else r) # update_where P f t"
  by (simp_all add: update_where_def)

lemma length_update_where [simp, sql]: "length (update_where P f t) = length t"
  by (simp add: update_where_def)

lemma in_update_where [sql]:
  "r' \<in> set (update_where P f t) \<longleftrightarrow> (\<exists>r \<in> set t. r' = (if P r then f r else r))"
  by (auto simp: update_where_def)

lemma map_update_where:
  "(\<And>r. P r \<Longrightarrow> k (f r) = k r) \<Longrightarrow> map k (update_where P f t) = map k t"
  by (induction t) auto

lemma find_update_where:
  assumes "\<And>r. P r \<Longrightarrow> Q (f r) = Q r"
  shows "find Q (update_where P f t) = map_option (\<lambda>r. if P r then f r else r) (find Q t)"
  using assms by (induction t) auto

lemma find_update_sub:
  assumes "\<And>r. Q (f r) = Q r"
  shows "find Q (update_where (\<lambda>r. Q r \<and> P r) f t) = map_option (\<lambda>r. if P r then f r else r) (find Q t)"
  using assms by (induction t) auto

lemma find_update_where_other:
  assumes "\<And>r. P r \<Longrightarrow> \<not> Q r" and "\<And>r. P r \<Longrightarrow> \<not> Q (f r)"
  shows "find Q (update_where P f t) = find Q t"
  using assms by (induction t) auto

lemma update_where_none: "\<forall>r \<in> set t. \<not> P r \<Longrightarrow> update_where P f t = t"
  by (induction t) auto

lemma list_all2_update_where:
  "(\<And>r. r \<in> set t \<Longrightarrow> \<not> P r \<Longrightarrow> R r r) \<Longrightarrow> (\<And>r. P r \<Longrightarrow> R r (f r)) \<Longrightarrow> list_all2 R t (update_where P f t)"
  by (induction t) auto

lemma update_where_cong:
  "(\<And>r. r \<in> set t \<Longrightarrow> P r = P' r) \<Longrightarrow> (\<And>r. r \<in> set t \<Longrightarrow> P r \<Longrightarrow> f r = f' r) \<Longrightarrow>
   update_where P f t = update_where P' f' t"
  by (simp add: update_where_def)

lemma find_Some_iff_distinct:
  assumes "distinct (map k t)" and "r \<in> set t"
  shows "find (\<lambda>x. k x = k r) t = Some r"
  using assms by (induction t) (auto simp: image_iff)

lemma find_SomeD: "find P t = Some r \<Longrightarrow> r \<in> set t \<and> P r"
  by (induction t) (auto split: if_splits)

section \<open>The state monad: weakest preconditions\<close>

text \<open>
  \<open>wp m Q s\<close> says that running \<open>m\<close> from \<open>s\<close> ends in a value and a state that satisfy \<open>Q\<close>.
  Every program of the model returns, so there is no termination side condition.
\<close>

definition wp :: "('s, 'a) state \<Rightarrow> ('a \<Rightarrow> 's \<Rightarrow> bool) \<Rightarrow> 's \<Rightarrow> bool" where
  "wp m Q s \<longleftrightarrow> Q (fst (run_state m s)) (snd (run_state m s))"

lemma wp_return [wp_rules]: "wp (State_Monad.return x) Q s = Q x s"
  by (simp add: wp_def)

lemma wp_bind [wp_rules]: "wp (State_Monad.bind m f) Q s = wp m (\<lambda>x. wp (f x) Q) s"
  by (simp add: wp_def split: prod.splits)

lemma wp_get [wp_rules]: "wp State_Monad.get Q s = Q s s"
  by (simp add: wp_def)

lemma wp_State [wp_rules]: "wp (State f) Q s = Q (fst (f s)) (snd (f s))"
  by (simp add: wp_def)

lemma wp_if [wp_rules]: "wp (if b then m else n) Q s = (if b then wp m Q s else wp n Q s)"
  by simp

lemma wp_mono: "wp m P s \<Longrightarrow> (\<And>x t. P x t \<Longrightarrow> Q x t) \<Longrightarrow> wp m Q s"
  by (auto simp: wp_def)

lemma wp_conj: "wp m P s \<Longrightarrow> wp m Q s \<Longrightarrow> wp m (\<lambda>x t. P x t \<and> Q x t) s"
  by (auto simp: wp_def)

lemma wpD: "wp m Q s \<Longrightarrow> run_state m s = (x, t) \<Longrightarrow> Q x t"
  by (simp add: wp_def)

lemma wpI: "(\<And>x t. run_state m s = (x, t) \<Longrightarrow> Q x t) \<Longrightarrow> wp m Q s"
  by (simp add: wp_def split: prod.splits)

definition modify :: "('s \<Rightarrow> 's) \<Rightarrow> ('s, unit) state" where
  "modify f = State (\<lambda>s. ((), f s))"

lemma run_modify [simp]: "run_state (modify f) s = ((), f s)"
  by (simp add: modify_def)

lemma wp_modify [wp_rules]: "wp (modify f) Q s = Q () (f s)"
  by (simp add: wp_def)

section \<open>Frame properties\<close>

definition preserves :: "('s \<Rightarrow> 'b) \<Rightarrow> ('s, 'a) state \<Rightarrow> bool" where
  "preserves f m \<longleftrightarrow> (\<forall>s. f (snd (run_state m s)) = f s)"

lemma preservesD [dest]: "preserves f m \<Longrightarrow> f (snd (run_state m s)) = f s"
  by (simp add: preserves_def)

lemma preserves_wp: "preserves f m \<Longrightarrow> wp m (\<lambda>_ t. f t = f s) s"
  by (simp add: preserves_def wp_def)

lemma preserves_return [frame]: "preserves f (State_Monad.return x)"
  by (simp add: preserves_def)

lemma preserves_bind [frame]:
  "preserves f m \<Longrightarrow> (\<And>x. preserves f (g x)) \<Longrightarrow> preserves f (State_Monad.bind m g)"
  by (simp add: preserves_def split: prod.splits) (metis snd_conv)

lemma preserves_if [frame]:
  "(b \<Longrightarrow> preserves f m) \<Longrightarrow> (\<not> b \<Longrightarrow> preserves f n) \<Longrightarrow> preserves f (if b then m else n)"
  by simp

lemma preserves_case_option [frame]:
  "(preserves f m) \<Longrightarrow> (\<And>x. preserves f (g x)) \<Longrightarrow>
   preserves f (case v of None \<Rightarrow> m | Some x \<Rightarrow> g x)"
  by (cases v) auto

lemma preserves_case_sum [frame]:
  "(\<And>e. preserves f (m e)) \<Longrightarrow> (\<And>x. preserves f (g x)) \<Longrightarrow>
   preserves f (case v of Inl e \<Rightarrow> m e | Inr x \<Rightarrow> g x)"
  by (cases v) auto

lemma preserves_case_prod [frame]:
  "(\<And>x y. preserves f (g x y)) \<Longrightarrow> preserves f (case p of (x, y) \<Rightarrow> g x y)"
  by (cases p) auto

lemma preserves_modify [frame]: "(\<And>s. f (h s) = f s) \<Longrightarrow> preserves f (modify h)"
  by (simp add: preserves_def)

lemma preserves_State: "(\<And>s. f (snd (h s)) = f s) \<Longrightarrow> preserves f (State h)"
  by (simp add: preserves_def)

section \<open>Two-state guarantees\<close>

text \<open>
  \<open>state_io_rel R m\<close> of the library says that \<open>R\<close> relates the state before \<open>m\<close> to the state
  after it. For a reflexive and transitive \<open>R\<close> it composes along a program; the locale holds
  that calculus once for every such relation.
\<close>

locale guarantee =
  fixes R :: "'s \<Rightarrow> 's \<Rightarrow> bool"
  assumes R_refl: "R s s"
    and R_trans: "R s t \<Longrightarrow> R t u \<Longrightarrow> R s u"
begin

lemma guar_return: "state_io_rel R (State_Monad.return x)"
  by (simp add: state_io_rel_def R_refl)

lemma guar_bind:
  assumes "state_io_rel R m" and "\<And>x. state_io_rel R (g x)"
  shows "state_io_rel R (State_Monad.bind m g)"
  using assms by (auto simp: state_io_rel_def split: prod.splits) (metis R_trans snd_conv)

lemma guar_bind_wp:
  assumes "state_io_rel R m" and "\<And>s. wp m (\<lambda>x _. P x) s" and "\<And>x. P x \<Longrightarrow> state_io_rel R (g x)"
  shows "state_io_rel R (State_Monad.bind m g)"
  unfolding state_io_rel_def
proof
  fix s
  obtain x t where m: "run_state m s = (x, t)" by (cases "run_state m s")
  have "P x" using assms(2) [of s] m by (simp add: wp_def)
  then have "R t (snd (run_state (g x) t))" using assms(3) by (simp add: state_io_rel_def)
  moreover have "R s t" using assms(1) m by (simp add: state_io_rel_def) (metis snd_conv)
  ultimately show "R s (snd (run_state (State_Monad.bind m g) s))" using m R_trans by simp
qed

lemma guar_if:
  "(b \<Longrightarrow> state_io_rel R m) \<Longrightarrow> (\<not> b \<Longrightarrow> state_io_rel R n) \<Longrightarrow> state_io_rel R (if b then m else n)"
  by simp

lemma guar_case_option:
  "state_io_rel R m \<Longrightarrow> (\<And>x. state_io_rel R (g x)) \<Longrightarrow>
   state_io_rel R (case v of None \<Rightarrow> m | Some x \<Rightarrow> g x)"
  by (cases v) auto

lemma guar_case_sum:
  "(\<And>e. state_io_rel R (m e)) \<Longrightarrow> (\<And>x. state_io_rel R (g x)) \<Longrightarrow>
   state_io_rel R (case v of Inl e \<Rightarrow> m e | Inr x \<Rightarrow> g x)"
  by (cases v) auto

lemma guar_case_prod:
  "(\<And>x y. state_io_rel R (g x y)) \<Longrightarrow> state_io_rel R (case p of (x, y) \<Rightarrow> g x y)"
  by (cases p) auto

lemma guar_modify: "(\<And>s. R s (h s)) \<Longrightarrow> state_io_rel R (modify h)"
  by (simp add: state_io_rel_def)

lemma guar_State: "(\<And>s. R s (snd (h s))) \<Longrightarrow> state_io_rel R (State h)"
  by (simp add: state_io_rel_def)

lemmas guar_rules = guar_return guar_bind guar_if guar_case_option guar_case_sum guar_case_prod

end

end
