(* ===== verification/Payloads.thy ===== *)
theory Payloads
  imports Prelude
begin

text \<open>
  The message contracts of \<^verbatim>\<open>pkg/types/nats_payloads.go\<close>. Field names carry a prefix per
  struct, since record selectors are global. A Go string is a \<open>string\<close> of bytes, and an absent optional field is the
  empty string, as \<^verbatim>\<open>encoding/json\<close> leaves it.
\<close>

section \<open>JSON values\<close>

text \<open>
  \<open>JNum m e\<close> is the decimal \<open>m * 10 ^ e\<close>, with \<open>e\<close> an integer; objects are association lists
  with distinct keys (the later duplicate wins, as in a Go map).
\<close>

datatype json =
    JNull
  | JBool bool
  | JNum int int
  | JStr string
  | JArr "json list"
  | JObj "(string \<times> json) list"

text \<open>
  A Go \<^verbatim>\<open>map[string]interface{}\<close>: its entries, in no particular order, or \<open>None\<close> for the nil map;
  and what \<^verbatim>\<open>json.Marshal\<close> makes of it.
\<close>

type_synonym gomap = "(string \<times> json) list option"

fun marshal :: "gomap \<Rightarrow> json" where
  "marshal None = JNull"
| "marshal (Some kvs) = JObj kvs"

section \<open>Payload records\<close>

record DomainVerifyPayload =
  dv_DomainID :: string
  dv_WorkspaceID :: string
  dv_Domain :: string

record EmailAddress =
  addr_Email :: string
  addr_Name :: string

record TransactionalEmailPayload =
  tx_JobID :: string
  tx_WorkspaceID :: string
  tx_SendID :: string
  tx_To :: "EmailAddress list"
  tx_From :: EmailAddress
  tx_ReplyTo :: string
  tx_Subject :: string
  tx_HTML :: string
  tx_Text :: string
  tx_Tags :: "(string \<times> string) list"
  tx_Provider :: string

record CampaignStartPayload =
  cs_JobID :: string
  cs_WorkspaceID :: string
  cs_CampaignID :: string
  cs_SegmentID :: string
  cs_Sender :: EmailAddress
  cs_ReplyTo :: string
  cs_Subject :: string
  cs_HTML :: string
  cs_Text :: string

record CampaignChunkRecipient =
  ccr_RecipientID :: string
  ccr_Email :: string
  ccr_Name :: string

record CampaignChunkPayload =
  cc_CampaignID :: string
  cc_WorkspaceID :: string
  cc_ChunkID :: string
  cc_Sender :: EmailAddress
  cc_ReplyTo :: string
  cc_Subject :: string
  cc_HTML :: string
  cc_Text :: string
  cc_Recipients :: "CampaignChunkRecipient list"

record EmailDeliveryEvent =
  ev_WorkspaceID :: string
  ev_SendID :: string
  ev_CampaignID :: string
  ev_RecipientEmail :: string
  ev_ProviderMessageID :: string
  ev_Status :: string
  ev_Reason :: string
  ev_Timestamp :: int

record CampaignDLQMessage =
  dlq_Payload :: CampaignChunkPayload
  dlq_Reason :: string
  dlq_Attempts :: nat
  dlq_Timestamp :: int

text \<open>The local type \<open>dlqMessage\<close> of the transactional handler's \<open>publishDLQ\<close>.\<close>

record dlqMessage =
  txdlq_Payload :: TransactionalEmailPayload
  txdlq_Reason :: string
  txdlq_Attempts :: nat
  txdlq_Timestamp :: int

record RawEventPayload =
  re_EventID :: string
  re_WorkspaceID :: string
  re_APIKeyID :: string
  re_EventType :: string
  re_EventName :: string
  re_UserID :: string
  re_AnonymousID :: string
  re_GroupID :: string
  re_Traits :: gomap
  re_Properties :: gomap
  re_Context :: gomap
  re_ReceivedAt :: int

record WorkflowTriggerPayload =
  wt_WorkspaceID :: string
  wt_WorkflowID :: string
  wt_ContactID :: string
  wt_EventName :: string
  wt_EventID :: string

record WorkflowRegisterPayload =
  wr_WorkspaceID :: string
  wr_WorkflowID :: string

record SegmentRefreshPayload =
  sr_WorkspaceID :: string
  sr_SegmentID :: string

text \<open>
  What a \<^verbatim>\<open>Publish\<close> call can carry (its Go parameter is \<^verbatim>\<open>any\<close>): one constructor per payload
  type the program publishes. \<open>PMap\<close> is an ad hoc \<^verbatim>\<open>map[string]any\<close> literal.
\<close>

datatype payload =
    PTransactional TransactionalEmailPayload
  | PCampaignStart CampaignStartPayload
  | PCampaignChunk CampaignChunkPayload
  | PDelivery EmailDeliveryEvent
  | PCampaignDLQ CampaignDLQMessage
  | PTransactionalDLQ dlqMessage
  | PWorkflowTrigger WorkflowTriggerPayload
  | PMap "(string \<times> json) list"

end
