(* ===== verification/Tables.thy ===== *)
theory Tables
  imports Payloads
begin

text \<open>
  The database as the queries of \<^verbatim>\<open>internal/infra/postgres/client.go\<close> see it: one record per
  table with the columns the SQL names, and \<open>pg\<close>, the record of all tables. The DDL is not in
  the repository; a nullable column (one the SQL wraps in \<^verbatim>\<open>COALESCE\<close>, tests with \<^verbatim>\<open>IS NULL\<close> or
  writes \<^verbatim>\<open>NULL\<close> to) is an \<open>option\<close>. Times are nanoseconds since the epoch, as \<^verbatim>\<open>time.Time\<close>
  counts them. A JSONB column holds the JSON value itself.
\<close>

text \<open>
  The contact id, which keyset pagination compares and sends back, is a \<^verbatim>\<open>uuid\<close> column: its text
  has at least one character.
\<close>

datatype uuid = Uuid char string

fun uuid_text :: "uuid \<Rightarrow> string" where
  "uuid_text (Uuid c s) = c # s"

lemma uuid_text_nonempty [simp]: "uuid_text u \<noteq> ''''" "'''' \<noteq> uuid_text u"
  by (cases u; simp)+

lemma uuid_text_inject [simp]: "uuid_text u = uuid_text v \<longleftrightarrow> u = v"
  by (cases u; cases v) simp

record domain_row =
  dom_id :: string
  dom_workspace_id :: string
  dom_domain :: string
  dom_status :: string
  dom_verified_at :: "int option"
  dom_verification_attempts :: int
  dom_last_check_at :: "int option"
  dom_started_at :: "int option"
  dom_deleted_at :: "int option"
  dom_updated_at :: int

record workspace_row =
  ws_id :: string
  ws_owner_user_id :: string

record user_row =
  usr_id :: string
  usr_email :: string
  usr_first_name :: "string option"

record email_send_row =
  es_send_id :: string
  es_workspace_id :: string
  es_status :: string
  es_provider_message_id :: "string option"
  es_failure_reason :: "string option"
  es_updated_at :: int

record contact_row =
  ct_id :: uuid
  ct_workspace_id :: string
  ct_user_id :: "string option"
  ct_anonymous_id :: "string option"
  ct_email :: "string option"
  ct_first_name :: "string option"
  ct_last_name :: "string option"
  ct_phone :: "string option"
  ct_status :: string
  ct_is_suppressed :: "bool option"
  ct_is_email_valid :: "bool option"
  ct_lifecycle_stage :: "string option"
  ct_lead_score :: "int option"
  ct_properties :: "json option"
  ct_traits :: "json option"
  ct_created_at :: int
  ct_updated_at :: int
  ct_deleted_at :: "int option"

record membership_row =
  sm_segment_id :: string
  sm_workspace_id :: string
  sm_contact_id :: string
  sm_created_at :: int

record campaign_row =
  cp_id :: string
  cp_workspace_id :: string
  cp_status :: string
  cp_total_recipients :: int
  cp_sent_count :: int
  cp_failed_count :: int
  cp_started_at :: "int option"
  cp_completed_at :: "int option"
  cp_failure_reason :: "string option"
  cp_scheduled_at :: "int option"
  cp_deleted_at :: "int option"
  cp_segment_id :: "string option"
  cp_sender_email :: "string option"
  cp_sender_name :: "string option"
  cp_reply_to :: "string option"
  cp_subject :: "string option"
  cp_html_body :: "string option"
  cp_text_body :: "string option"
  cp_updated_at :: int

record recipient_row =
  cr_id :: string
  cr_campaign_id :: string
  cr_workspace_id :: string
  cr_contact_id :: string
  cr_email :: string
  cr_name :: "string option"
  cr_status :: string
  cr_provider_message_id :: "string option"
  cr_failure_reason :: "string option"
  cr_sent_at :: "int option"
  cr_created_at :: int
  cr_updated_at :: int

record audit_log_row =
  al_id :: string
  al_created_at :: int

record raw_event_row =
  rw_id :: string
  rw_workspace_id :: string
  rw_status :: string
  rw_failure_reason :: "string option"
  rw_attempts :: "int option"
  rw_processed_at :: "int option"
  rw_created_at :: int
  rw_updated_at :: int

record enriched_row =
  en_id :: string
  en_workspace_id :: string
  en_raw_event_id :: string
  en_contact_id :: "string option"
  en_user_id :: "string option"
  en_anonymous_id :: "string option"
  en_event_type :: string
  en_event_name :: string
  en_properties :: json
  en_traits :: json
  en_context :: json
  en_enriched_data :: json
  en_processed_at :: int

record trigger_rule_row =
  tr_workflow_id :: string
  tr_workspace_id :: string
  tr_event_name :: "string option"
  tr_event_type :: "string option"
  tr_active :: bool

record segment_row =
  sg_id :: string
  sg_workspace_id :: string
  sg_name :: string
  sg_filter_tree :: "json option"
  sg_status :: "string option"
  sg_contact_count :: int
  sg_last_computed :: "int option"
  sg_updated_at :: int

record workflow_row =
  wf_id :: string
  wf_workspace_id :: string
  wf_status :: "string option"
  wf_nodes :: "json option"

record execution_row =
  ex_id :: string
  ex_workflow_id :: string
  ex_workspace_id :: string
  ex_contact_id :: string
  ex_trigger_event_id :: string
  ex_status :: "string option"
  ex_current_node_id :: "string option"
  ex_next_run_at :: "int option"
  ex_retry_count :: "int option"
  ex_failure_reason :: "string option"
  ex_completed_at :: "int option"
  ex_updated_at :: int

record pg =
  domains :: "domain_row list"
  workspaces :: "workspace_row list"
  users :: "user_row list"
  email_sends :: "email_send_row list"
  contacts :: "contact_row list"
  segment_memberships :: "membership_row list"
  campaigns :: "campaign_row list"
  campaign_recipients :: "recipient_row list"
  audit_logs :: "audit_log_row list"
  events_raw :: "raw_event_row list"
  events_enriched :: "enriched_row list"
  workflow_triggers :: "trigger_rule_row list"
  segments :: "segment_row list"
  workflows :: "workflow_row list"
  workflow_executions :: "execution_row list"

definition empty_pg :: pg where
  "empty_pg = \<lparr>domains = [], workspaces = [], users = [], email_sends = [], contacts = [],
     segment_memberships = [], campaigns = [], campaign_recipients = [], audit_logs = [],
     events_raw = [], events_enriched = [], workflow_triggers = [], segments = [],
     workflows = [], workflow_executions = []\<rparr>"

end
