(* ===== verification/World.thy ===== *)
theory World
  imports Tables
begin

text \<open>
  The world a handler runs in, and the combinator through which every external call goes.
  The environment decides, call by call, how long the call takes, whether it fails, and whether
  a failed call took effect before its error came back; so a theorem over all environments covers
  every placement of database, queue, cache and provider failures, including a commit whose
  acknowledgement is lost.
\<close>

section \<open>Go errors\<close>

text \<open>
  An error value is a plain error, one of the sentinel errors the code tests with
  \<^verbatim>\<open>errors.Is\<close>, an AWS \<^verbatim>\<open>smithy.APIError\<close> with its code, or a \<^verbatim>\<open>fmt.Errorf\<close> wrapping
  (\<open>Wrap p e\<close> for \<^verbatim>\<open>"p: %w"\<close>, \<open>WrapWait e d\<close> for \<^verbatim>\<open>"%w: would wait %v"\<close>, whose text only reaches the
  log and leaves the digits of the duration out).
\<close>

datatype goerr =
    Err string
  | ErrLockNotAcquired
  | ErrRateLimitExceeded
  | ContextError
  | APIError string string
  | Wrap string goerr
  | WrapWait goerr int

fun err_string :: "goerr \<Rightarrow> string" where
  "err_string (Err s) = s"
| "err_string ErrLockNotAcquired = ''lock not acquired''"
| "err_string ErrRateLimitExceeded = ''rate limit exceeded''"
| "err_string ContextError = ''context canceled''"
| "err_string (APIError c m) = ''api error '' @ c @ '': '' @ m"
| "err_string (Wrap p e) = p @ '': '' @ err_string e"
| "err_string (WrapWait e d) = err_string e @ '': would wait''"

fun err_root :: "goerr \<Rightarrow> goerr" where
  "err_root (Wrap p e) = err_root e"
| "err_root (WrapWait e d) = err_root e"
| "err_root e = e"

definition errors_is :: "goerr \<Rightarrow> goerr \<Rightarrow> bool" where
  "errors_is e target \<longleftrightarrow> err_root e = target"

section \<open>Environment and world\<close>

datatype fault = NoFault | FailBefore goerr | FailAfter goerr

record ses_message =
  msg_Source :: string
  msg_To :: "string list"
  msg_ReplyTo :: "string list"
  msg_Subject :: string
  msg_Html :: "string option"
  msg_Text :: "string option"
  msg_Tags :: "(string \<times> string) list"

record env =
  fault :: "nat \<Rightarrow> fault"
  elapse :: "nat \<Rightarrow> nat"
  cancelled :: "nat \<Rightarrow> bool"
  uuids :: "nat \<Rightarrow> string"
  ses_api :: "nat \<Rightarrow> ses_message \<Rightarrow> goerr + string option"
  identity_api :: "nat \<Rightarrow> string \<Rightarrow> goerr + string option"

datatype disposition = Ack | Nak | NakWithDelay int | Term

datatype rval = RHash rat rat | RStr string

record pubmsg =
  pm_Subject :: string
  pm_Payload :: payload
  pm_MsgID :: string

record world =
  env :: env
  tick :: nat
  now :: int
  uuid_next :: nat
  db :: pg
  redis :: "string \<Rightarrow> (rval \<times> int) option"
  published :: "pubmsg list"
  mail :: "ses_message list"
  settled :: "disposition list"
  metrics :: "string \<Rightarrow> nat"

text \<open>
  \<open>published\<close>, \<open>mail\<close> and \<open>settled\<close> are logs, oldest first: the messages JetStream stored,
  the messages SES accepted, and the calls made on the message being handled.
\<close>

definition step_clock :: "world \<Rightarrow> world" where
  "step_clock w = w\<lparr>tick := Suc (tick w), now := now w + int (elapse (env w) (tick w))\<rparr>"

definition call :: "(world \<Rightarrow> (goerr + 'a) \<times> world) \<Rightarrow> (world, goerr + 'a) state" where
  "call op = State (\<lambda>w. let w1 = step_clock w in
     case fault (env w) (tick w) of
       NoFault \<Rightarrow> op w1
     | FailBefore e \<Rightarrow> (Inl e, w1)
     | FailAfter e \<Rightarrow> (Inl e, snd (op w1)))"

definition query :: "(int \<Rightarrow> pg \<Rightarrow> 'a) \<Rightarrow> (world, goerr + 'a) state" where
  "query f = call (\<lambda>w. (Inr (f (now w) (db w)), w))"

definition exec :: "(int \<Rightarrow> pg \<Rightarrow> pg) \<Rightarrow> (world, goerr + unit) state" where
  "exec f = call (\<lambda>w. (Inr (), w\<lparr>db := f (now w) (db w)\<rparr>))"

text \<open>A statement with \<^verbatim>\<open>RETURNING\<close>: it changes the database and returns rows.\<close>

definition exec_returning :: "(int \<Rightarrow> pg \<Rightarrow> (goerr + 'a) \<times> pg) \<Rightarrow> (world, goerr + 'a) state" where
  "exec_returning f = call (\<lambda>w. case f (now w) (db w) of (r, d) \<Rightarrow> (r, w\<lparr>db := d\<rparr>))"

definition ctx_err :: "(world, bool) state" where
  "ctx_err = State (\<lambda>w. (cancelled (env w) (tick w), w\<lparr>tick := Suc (tick w)\<rparr>))"

definition time_now :: "(world, int) state" where
  "time_now = State (\<lambda>w. (now w, w))"

definition new_uuid :: "(world, string) state" where
  "new_uuid = State (\<lambda>w. (uuids (env w) (uuid_next w), w\<lparr>uuid_next := Suc (uuid_next w)\<rparr>))"

definition inc_by :: "string \<Rightarrow> nat \<Rightarrow> (world, unit) state" where
  "inc_by name n = modify (\<lambda>w. w\<lparr>metrics := (metrics w)(name := metrics w name + n)\<rparr>)"

abbreviation inc :: "string \<Rightarrow> (world, unit) state" where
  "inc name \<equiv> inc_by name 1"

definition settle :: "disposition \<Rightarrow> (world, unit) state" where
  "settle d = modify (\<lambda>w. w\<lparr>settled := settled w @ [d]\<rparr>)"

section \<open>Messages\<close>

text \<open>
  A delivered message: the result of \<^verbatim>\<open>json.Unmarshal\<close> on its data (\<open>None\<close> for an error)
  and \<^verbatim>\<open>NumDelivered\<close> of its metadata (\<open>None\<close> when \<^verbatim>\<open>Metadata\<close> returns an error or nil).
\<close>

record 'p message =
  Data :: "'p option"
  NumDelivered :: "nat option"

definition attempt_of :: "'p message \<Rightarrow> nat" where
  "attempt_of m = (case NumDelivered m of None \<Rightarrow> 1 | Some n \<Rightarrow> n)"

section \<open>A quiet world\<close>

text \<open>
  A concrete environment in which every call is instantaneous and succeeds, and an empty world
  in it: the starting point of the concrete instances.
\<close>

definition quiet_env :: env where
  "quiet_env = \<lparr>fault = (\<lambda>_. NoFault), elapse = (\<lambda>_. 0), cancelled = (\<lambda>_. False),
     uuids = (\<lambda>n. replicate (Suc n) (CHR ''u'')), ses_api = (\<lambda>_ _. Inr (Some ''mid'')),
     identity_api = (\<lambda>_ _. Inr (Some ''SUCCESS''))\<rparr>"

definition quiet_world :: world where
  "quiet_world = \<lparr>env = quiet_env, tick = 0, now = 0, uuid_next = 0, db = empty_pg,
     redis = (\<lambda>_. None), published = [], mail = [], settled = [], metrics = (\<lambda>_. 0)\<rparr>"

section \<open>Rules for the primitives\<close>

lemma step_clock_simps [simp]:
  "env (step_clock w) = env w" "db (step_clock w) = db w" "redis (step_clock w) = redis w"
  "published (step_clock w) = published w" "mail (step_clock w) = mail w"
  "settled (step_clock w) = settled w" "metrics (step_clock w) = metrics w"
  "uuid_next (step_clock w) = uuid_next w" "tick (step_clock w) = Suc (tick w)"
  by (simp_all add: step_clock_def)

lemma step_clock_now: "now w \<le> now (step_clock w)"
  by (simp add: step_clock_def)

lemma wp_call [wp_rules]:
  "wp (call op) Q w =
    (case fault (env w) (tick w) of
       NoFault \<Rightarrow> Q (fst (op (step_clock w))) (snd (op (step_clock w)))
     | FailBefore e \<Rightarrow> Q (Inl e) (step_clock w)
     | FailAfter e \<Rightarrow> Q (Inl e) (snd (op (step_clock w))))"
  by (simp add: wp_def call_def Let_def split: fault.splits)

lemma wp_query [wp_rules]:
  "wp (query f) Q w =
    (case fault (env w) (tick w) of
       NoFault \<Rightarrow> Q (Inr (f (now (step_clock w)) (db w))) (step_clock w)
     | FailBefore e \<Rightarrow> Q (Inl e) (step_clock w)
     | FailAfter e \<Rightarrow> Q (Inl e) (step_clock w))"
  by (simp add: query_def wp_call split: fault.split)

lemma wp_exec [wp_rules]:
  "wp (exec f) Q w =
    (let w1 = step_clock w; w2 = w1\<lparr>db := f (now w1) (db w)\<rparr> in
     case fault (env w) (tick w) of
       NoFault \<Rightarrow> Q (Inr ()) w2
     | FailBefore e \<Rightarrow> Q (Inl e) w1
     | FailAfter e \<Rightarrow> Q (Inl e) w2)"
  by (simp add: exec_def wp_call Let_def split: fault.split)

lemma wp_exec_returning [wp_rules]:
  "wp (exec_returning f) Q w =
    (let w1 = step_clock w; r = f (now w1) (db w); w2 = w1\<lparr>db := snd r\<rparr> in
     case fault (env w) (tick w) of
       NoFault \<Rightarrow> Q (fst r) w2
     | FailBefore e \<Rightarrow> Q (Inl e) w1
     | FailAfter e \<Rightarrow> Q (Inl e) w2)"
  by (simp add: exec_returning_def wp_call Let_def split: fault.split prod.split)

lemma wp_settle [wp_rules]: "wp (settle d) Q w = Q () (w\<lparr>settled := settled w @ [d]\<rparr>)"
  by (simp add: settle_def wp_modify)

lemma wp_inc_by [wp_rules]:
  "wp (inc_by c n) Q w = Q () (w\<lparr>metrics := (metrics w)(c := metrics w c + n)\<rparr>)"
  by (simp add: inc_by_def wp_modify)

lemma wp_ctx_err [wp_rules]:
  "wp ctx_err Q w = Q (cancelled (env w) (tick w)) (w\<lparr>tick := Suc (tick w)\<rparr>)"
  by (simp add: ctx_err_def wp_State)

lemma wp_time_now [wp_rules]: "wp time_now Q w = Q (now w) w"
  by (simp add: time_now_def wp_State)

lemma wp_new_uuid [wp_rules]:
  "wp new_uuid Q w = Q (uuids (env w) (uuid_next w)) (w\<lparr>uuid_next := Suc (uuid_next w)\<rparr>)"
  by (simp add: new_uuid_def wp_State)

text \<open>
  An observation that the clock, the call counter, the metrics and the uuid supply do not touch
  is preserved by every primitive whose operation preserves it.
\<close>

definition steady :: "(world \<Rightarrow> 'b) \<Rightarrow> bool" where
  "steady f \<longleftrightarrow> (\<forall>w k t. f (w\<lparr>tick := k, now := t\<rparr>) = f w) \<and> (\<forall>w k. f (w\<lparr>tick := k\<rparr>) = f w)
     \<and> (\<forall>w m. f (w\<lparr>metrics := m\<rparr>) = f w) \<and> (\<forall>w u. f (w\<lparr>uuid_next := u\<rparr>) = f w)"

lemma steady_simps [simp]:
  "steady env" "steady db" "steady published" "steady mail" "steady settled" "steady redis"
  by (simp_all add: steady_def)

lemma steady_comp [simp]: "steady f \<Longrightarrow> steady (\<lambda>w. g (f w))"
  by (simp add: steady_def)

lemma steady_step_clock: "steady f \<Longrightarrow> f (step_clock w) = f w"
  by (simp add: steady_def step_clock_def)

lemma preserves_call [frame]:
  "steady f \<Longrightarrow> (\<And>w. f (snd (op w)) = f w) \<Longrightarrow> preserves f (call op)"
  by (simp add: preserves_def call_def Let_def steady_step_clock split: fault.splits)

lemma preserves_query [frame]: "steady f \<Longrightarrow> preserves f (query g)"
  by (simp add: query_def preserves_call)

lemma preserves_exec [frame]:
  "steady f \<Longrightarrow> (\<And>w n. f (w\<lparr>db := g n (db w)\<rparr>) = f w) \<Longrightarrow> preserves f (exec g)"
  by (simp add: exec_def preserves_call)

lemma preserves_exec_returning [frame]:
  "steady f \<Longrightarrow> (\<And>w n. f (w\<lparr>db := snd (g n (db w))\<rparr>) = f w) \<Longrightarrow> preserves f (exec_returning g)"
  by (auto simp: exec_returning_def intro!: preserves_call split: prod.split) (metis snd_conv)

lemma preserves_ctx_err [frame]: "steady f \<Longrightarrow> preserves f ctx_err"
  by (simp add: ctx_err_def preserves_def steady_def)

lemma preserves_time_now [frame]: "preserves f time_now"
  by (simp add: time_now_def preserves_def)

lemma preserves_new_uuid [frame]: "steady f \<Longrightarrow> preserves f new_uuid"
  by (simp add: new_uuid_def preserves_def steady_def)

lemma preserves_inc_by [frame]: "steady f \<Longrightarrow> preserves f (inc_by c n)"
  by (simp add: inc_by_def preserves_def steady_def)

lemma preserves_settle [frame]:
  "(\<And>w s. f (w\<lparr>settled := s\<rparr>) = f w) \<Longrightarrow> preserves f (settle d)"
  by (simp add: settle_def preserves_def)

section \<open>A world without infrastructure faults\<close>

definition reliable :: "env \<Rightarrow> bool" where
  "reliable e \<longleftrightarrow> (\<forall>k. fault e k = NoFault)"

lemma reliableD [simp]: "reliable e \<Longrightarrow> fault e k = NoFault"
  by (simp add: reliable_def)

lemma reliable_quiet [simp]: "reliable quiet_env"
  by (simp add: reliable_def quiet_env_def)

text \<open>An error that a call reports means that the call had no effect.\<close>

definition errors_mean_nothing_done :: "env \<Rightarrow> bool" where
  "errors_mean_nothing_done e \<longleftrightarrow> (\<forall>k x. fault e k \<noteq> FailAfter x)"

lemma reliable_nothing_done [simp]: "reliable e \<Longrightarrow> errors_mean_nothing_done e"
  by (simp add: errors_mean_nothing_done_def)

lemma quiet_env_simps [simp]:
  "elapse quiet_env k = 0" "cancelled quiet_env k = False" "ses_api quiet_env k x = Inr (Some ''mid'')"
  "identity_api quiet_env k s = Inr (Some ''SUCCESS'')" "fault quiet_env k = NoFault"
  by (simp_all add: quiet_env_def)

end
