(* ===== verification/RateLimit.thy ===== *)
theory RateLimit
  imports World
begin

text \<open>
  The Redis token bucket of \<^verbatim>\<open>internal/ratelimit/token_bucket.go\<close>: the Lua script as a pure
  function of the stored hash, \<open>TryAcquire\<close> as one Redis call that runs it on the keyspace, and
  the waiting loop of \<open>Acquire\<close>. Lua numbers and Go floats are rationals here, so the results
  are exact; times inside the script are seconds, as the caller passes them.
\<close>

section \<open>The script\<close>

definition luaTokenBucket ::
    "rat \<Rightarrow> rat \<Rightarrow> rat \<Rightarrow> rat \<Rightarrow> (rat \<times> rat) option \<Rightarrow> (int \<times> int) \<times> (rat \<times> rat)" where
  "luaTokenBucket rate capacity t cost data =
     (let (tokens, ts) = (case data of None \<Rightarrow> (capacity, t) | Some d \<Rightarrow> d);
          elapsed = t - ts;
          elapsed = (if elapsed < 0 then 0 else elapsed);
          tokens = min capacity (tokens + elapsed * rate)
      in if tokens < cost
         then ((0, \<lceil>(cost - tokens) / rate * 1000\<rceil>), (tokens, t))
         else ((1, 0), (tokens - cost, t)))"

text \<open>The level the script computes before it looks at the cost.\<close>

definition refilled :: "rat \<Rightarrow> rat \<Rightarrow> rat \<Rightarrow> (rat \<times> rat) option \<Rightarrow> rat" where
  "refilled rate capacity t data =
     (case data of None \<Rightarrow> capacity
      | Some (tokens, ts) \<Rightarrow> min capacity (tokens + max 0 (t - ts) * rate))"

lemma lua_eq:
  assumes "0 \<le> capacity"
  shows "luaTokenBucket rate capacity t cost data =
    (let r = refilled rate capacity t data in
     if r < cost then ((0, \<lceil>(cost - r) / rate * 1000\<rceil>), (r, t)) else ((1, 0), (r - cost, t)))"
  by (auto simp: luaTokenBucket_def refilled_def Let_def max_def split: option.split prod.split)

section \<open>The limiter\<close>

record TokenBucket =
  tb_rate :: rat
  tb_capacity :: rat

definition NewTokenBucket :: "int \<Rightarrow> TokenBucket" where
  "NewTokenBucket ratePerSec =
     (let r = (if ratePerSec < 1 then 1 else ratePerSec)
      in \<lparr>tb_rate = rat_of_int r, tb_capacity = rat_of_int r\<rparr>)"

abbreviation Millisecond :: int where "Millisecond \<equiv> 1000000"
abbreviation Second :: int where "Second \<equiv> 1000000000"
abbreviation Minute :: int where "Minute \<equiv> 60000000000"
abbreviation Hour :: int where "Hour \<equiv> 3600000000000"

definition unix_milli :: "int \<Rightarrow> int" where
  "unix_milli t = t div Millisecond"

text \<open>\<open>now := float64(time.Now().UnixMilli()) / 1000.0\<close>\<close>

definition epoch_seconds :: "int \<Rightarrow> rat" where
  "epoch_seconds t = rat_of_int (unix_milli t) / 1000"

text \<open>A key of Redis is visible until its expiry.\<close>

definition live :: "int \<Rightarrow> (rval \<times> int) option \<Rightarrow> rval option" where
  "live t e = (case e of None \<Rightarrow> None | Some (v, expiry) \<Rightarrow> if t < expiry then Some v else None)"

definition wrong_type :: goerr where
  "wrong_type = Err ''WRONGTYPE Operation against a key holding the wrong kind of value''"

definition run_bucket :: "TokenBucket \<Rightarrow> string \<Rightarrow> rat \<Rightarrow> world \<Rightarrow> (goerr + bool \<times> int) \<times> world" where
  "run_bucket l key t w =
     (let go = (\<lambda>data. case luaTokenBucket (tb_rate l) (tb_capacity l) t 1 data of
            ((allowed, wait_ms), (tokens, ts)) \<Rightarrow>
              (Inr (allowed = 1, wait_ms * Millisecond),
               w\<lparr>redis := (redis w)(key := Some (RHash tokens ts, now w + 3600 * Second))\<rparr>))
      in case live (now w) (redis w key) of
           None \<Rightarrow> go None
         | Some (RHash tokens ts) \<Rightarrow> go (Some (tokens, ts))
         | Some (RStr v) \<Rightarrow> (Inl wrong_type, w))"

definition TryAcquire :: "TokenBucket \<Rightarrow> string \<Rightarrow> (world, goerr + bool \<times> int) state" where
  "TryAcquire l key = do {
     t \<leftarrow> time_now;
     r \<leftarrow> call (run_bucket l key (epoch_seconds t));
     State_Monad.return (case r of Inl e \<Rightarrow> Inl (Wrap ''token bucket'' e) | Inr x \<Rightarrow> Inr x)
   }"

lemma run_bucket_now: "now (snd (run_bucket l key t w)) = now w"
  by (auto simp: run_bucket_def Let_def split: prod.split option.split rval.split)

lemma TryAcquire_now: "now w \<le> now (snd (run_state (TryAcquire l key) w))"
  using step_clock_now [of w]
  by (auto simp: TryAcquire_def time_now_def call_def Let_def run_bucket_now
      split: prod.split fault.split) (metis run_bucket_now snd_conv)+

lemma Acquire_decreases:
  assumes "(r, w1) = run_state (TryAcquire l key) w" and "d = (if x \<le> 0 then 10 * Millisecond else x)"
    and "\<not> deadline < now w1 + d"
  shows "((l', key', deadline, tw, w1\<lparr>tick := k, now := now w1 + d\<rparr>), l'', key'', deadline, tw', w)
    \<in> measure (\<lambda>(l, key, deadline, totalWait, w). nat (deadline - now w))"
proof -
  have "now w \<le> now w1" using TryAcquire_now [of w l key] assms(1) by (metis snd_conv)
  moreover have "0 < d" using assms(2) by simp
  ultimately show ?thesis using assms(3) by simp
qed

text \<open>
  The loop of \<open>Acquire\<close>. Sleeping advances the clock by the wait; a cancelled context ends the
  wait first. It terminates because every round that sleeps ends before the deadline.
\<close>

function Acquire_loop ::
    "TokenBucket \<Rightarrow> string \<Rightarrow> int \<Rightarrow> int \<Rightarrow> world \<Rightarrow> (int \<times> goerr option) \<times> world" where
  "Acquire_loop l key deadline totalWait w =
     (case run_state (TryAcquire l key) w of
        (Inl e, w1) \<Rightarrow> ((totalWait, Some e), w1)
      | (Inr (ok, wait), w1) \<Rightarrow>
          if ok then ((totalWait, None), w1)
          else let wait = (if wait \<le> 0 then 10 * Millisecond else wait) in
            if now w1 + wait > deadline
            then ((totalWait, Some (WrapWait ErrRateLimitExceeded wait)), w1)
            else if cancelled (env w1) (tick w1)
            then ((totalWait, Some ContextError), w1\<lparr>tick := Suc (tick w1)\<rparr>)
            else Acquire_loop l key deadline (totalWait + wait)
                   (w1\<lparr>tick := Suc (tick w1), now := now w1 + wait\<rparr>))"
  by pat_completeness auto
termination
proof (relation "measure (\<lambda>(l, key, deadline, totalWait, w). nat (deadline - now w))", goal_cases)
  case 1
  show ?case by simp
next
  case 2
  show ?case by (rule Acquire_decreases [OF 2(1) 2(5) 2(6)])
qed

declare Acquire_loop.simps [simp del]

definition Acquire :: "TokenBucket \<Rightarrow> string \<Rightarrow> int \<Rightarrow> (world, int \<times> goerr option) state" where
  "Acquire l key maxWait = State (\<lambda>w. Acquire_loop l key (now w + maxWait) 0 w)"

section \<open>Frame and bounds of the waiting loop\<close>

lemma preserves_run_bucket:
  "(\<And>w r. f (w\<lparr>redis := r\<rparr>) = f w) \<Longrightarrow> f (snd (run_bucket l key t w)) = f w"
  by (auto simp: run_bucket_def Let_def split: prod.split option.split rval.split)

lemma preserves_TryAcquire [frame]:
  "steady f \<Longrightarrow> (\<And>w r. f (w\<lparr>redis := r\<rparr>) = f w) \<Longrightarrow> preserves f (TryAcquire l key)"
  unfolding TryAcquire_def by (intro frame preserves_run_bucket)

lemma Acquire_loop_frame:
  assumes "steady f" and "\<And>w r. f (w\<lparr>redis := r\<rparr>) = f w"
  shows "f (snd (Acquire_loop l key deadline tw w)) = f w"
proof (induction l key deadline tw w rule: Acquire_loop.induct)
  case (1 l key deadline tw w)
  have P: "f (snd (run_state (TryAcquire l key) w)) = f w"
    using preserves_TryAcquire [OF assms] by blast
  have T: "\<And>w k t. f (w\<lparr>tick := k, now := t\<rparr>) = f w" "\<And>w k. f (w\<lparr>tick := k\<rparr>) = f w"
    using assms(1) by (simp_all add: steady_def)
  show ?case
    using 1 P by (subst Acquire_loop.simps) (auto simp: Let_def T split: prod.split sum.split)
qed

lemma preserves_Acquire [frame]:
  "steady f \<Longrightarrow> (\<And>w r. f (w\<lparr>redis := r\<rparr>) = f w) \<Longrightarrow> preserves f (Acquire l key maxWait)"
  by (simp add: preserves_def Acquire_def Acquire_loop_frame)

lemma Acquire_loop_wait:
  "tw \<le> fst (fst (Acquire_loop l key deadline tw w)) \<and>
   (fst (fst (Acquire_loop l key deadline tw w)) = tw \<or>
    fst (fst (Acquire_loop l key deadline tw w)) - tw \<le> deadline - now w)"
proof (induction l key deadline tw w rule: Acquire_loop.induct)
  case (1 l key deadline tw w)
  obtain r w1 where r: "run_state (TryAcquire l key) w = (r, w1)" by (metis prod.exhaust)
  then have n: "now w \<le> now w1" using TryAcquire_now [of w l key] by simp
  show ?case
  proof (cases r)
    case (Inl e)
    then show ?thesis by (subst (1 2 3) Acquire_loop.simps) (simp add: r)
  next
    case (Inr p)
    obtain ok x where p: "p = (ok, x)" by (cases p)
    define d where "d = (if x \<le> 0 then 10 * Millisecond else x)"
    have d0: "0 < d" by (simp add: d_def)
    let ?w2 = "w1\<lparr>tick := Suc (tick w1), now := now w1 + d\<rparr>"
    show ?thesis
    proof (cases "ok \<or> deadline < now w1 + d \<or> cancelled (env w1) (tick w1)")
      case True
      then show ?thesis
        by (subst (1 2 3) Acquire_loop.simps) (auto simp: r Inr p Let_def d_def [symmetric])
    next
      case False
      then have eq: "Acquire_loop l key deadline tw w = Acquire_loop l key deadline (tw + d) ?w2"
        by (subst Acquire_loop.simps) (auto simp: r Inr p Let_def d_def [symmetric])
      from False r Inr p have "tw + d \<le> fst (fst (Acquire_loop l key deadline (tw + d) ?w2)) \<and>
         (fst (fst (Acquire_loop l key deadline (tw + d) ?w2)) = tw + d \<or>
          fst (fst (Acquire_loop l key deadline (tw + d) ?w2)) - (tw + d) \<le> deadline - now ?w2)"
        using 1 [OF r [symmetric] Inr p [symmetric] _ d_def] by simp
      with False n d0 show ?thesis unfolding eq by auto
    qed
  qed
qed

section \<open>Arithmetic of the script\<close>

definition bucket_ok :: "rat \<Rightarrow> (rat \<times> rat) option \<Rightarrow> bool" where
  "bucket_ok capacity d = (case d of None \<Rightarrow> True | Some (tokens, ts) \<Rightarrow> 0 \<le> tokens \<and> tokens \<le> capacity)"

text \<open>A run of requests at the given times: how many were allowed, and the hash left behind.\<close>

fun bucket_run :: "TokenBucket \<Rightarrow> (rat \<times> rat) option \<Rightarrow> rat list \<Rightarrow> nat \<times> (rat \<times> rat) option" where
  "bucket_run l d [] = (0, d)"
| "bucket_run l d (t # ts) =
     (case luaTokenBucket (tb_rate l) (tb_capacity l) t 1 d of
        ((allowed, _), d') \<Rightarrow>
          (case bucket_run l (Some d') ts of
             (n, d'') \<Rightarrow> (if allowed = 1 then Suc n else n, d'')))"

definition well_formed_bucket :: "TokenBucket \<Rightarrow> bool" where
  "well_formed_bucket l \<longleftrightarrow> 1 \<le> tb_rate l \<and> tb_capacity l = tb_rate l"

lemma NewTokenBucket_well_formed: "well_formed_bucket (NewTokenBucket n)"
  by (simp add: well_formed_bucket_def NewTokenBucket_def Let_def)

lemma refilled_le: "refilled rate capacity t d \<le> capacity"
  by (auto simp: refilled_def split: option.split)

lemma refilled_nonneg:
  "bucket_ok capacity d \<Longrightarrow> 0 \<le> capacity \<Longrightarrow> 0 \<le> rate \<Longrightarrow> 0 \<le> refilled rate capacity t d"
  by (auto simp: refilled_def bucket_ok_def split: option.split)

lemma lua_keeps_ok:
  assumes "bucket_ok capacity d" and "0 \<le> capacity" and "0 \<le> rate" and "0 \<le> cost"
  shows "bucket_ok capacity (Some (snd (luaTokenBucket rate capacity t cost d)))"
  using refilled_le [of rate capacity t d] refilled_nonneg [OF assms(1-3), of t] assms(4)
  by (auto simp: lua_eq [OF assms(2)] Let_def bucket_ok_def)

text \<open>The tokens a run consumes come from the level it starts with and from the refill.\<close>

lemma bucket_run_le:
  assumes "0 \<le> tb_rate l" and "0 \<le> tb_capacity l"
    and "sorted ts" and "\<forall>t \<in> set ts. s \<le> t" and "0 \<le> tok" and "ts \<noteq> []"
  shows "rat_of_nat (fst (bucket_run l (Some (tok, s)) ts)) \<le> tok + (last ts - s) * tb_rate l"
  using assms(3-6)
proof (induction ts arbitrary: tok s)
  case Nil
  then show ?case by simp
next
  case (Cons t ts)
  let ?r = "refilled (tb_rate l) (tb_capacity l) t (Some (tok, s))"
  have st: "s \<le> t" using Cons.prems by simp
  have r: "?r \<le> tok + (t - s) * tb_rate l" and r0: "0 \<le> ?r"
    using st Cons.prems(3) assms(1,2) by (auto simp: refilled_def)
  define tok' where "tok' = (if ?r < 1 then ?r else ?r - 1)"
  have t0: "0 \<le> tok'" using r0 by (simp add: tok'_def)
  have run: "rat_of_nat (fst (bucket_run l (Some (tok, s)) (t # ts))) =
      (?r - tok') + rat_of_nat (fst (bucket_run l (Some (tok', t)) ts))"
    by (auto simp: lua_eq [OF assms(2)] Let_def tok'_def split: prod.split)
  show ?case
  proof (cases "ts = []")
    case True
    then show ?thesis using run r t0 by simp
  next
    case False
    have "rat_of_nat (fst (bucket_run l (Some (tok', t)) ts)) \<le> tok' + (last ts - t) * tb_rate l"
      using Cons False t0 by simp
    moreover have "(last ts - s) * tb_rate l = (t - s) * tb_rate l + (last ts - t) * tb_rate l"
      by (simp add: algebra_simps)
    ultimately show ?thesis using run r False by simp
  qed
qed

lemma bucket_run_first:
  assumes "0 \<le> tb_capacity l" and "r = refilled (tb_rate l) (tb_capacity l) t d"
  shows "fst (bucket_run l d (t # ts)) = fst (bucket_run l (Some (r, t)) (t # ts))"
proof -
  have "refilled (tb_rate l) (tb_capacity l) t (Some (r, t)) = r"
    using assms refilled_le by (auto simp: refilled_def split: option.splits)
  then show ?thesis by (simp add: lua_eq [OF assms(1)] Let_def assms(2))
qed

section \<open>Properties\<close>

text \<open>
  Claim C23. Over any run of requests on one key, at non-decreasing times and from any stored
  bucket the script can have left, the limiter built by \<open>NewTokenBucket\<close> allows at most one
  burst (the capacity) plus the refill of the time between the first and the last request.
\<close>

theorem bucket_throughput:
  assumes "l = NewTokenBucket n" and "sorted (t # ts)" and "bucket_ok (tb_capacity l) d"
  shows "rat_of_nat (fst (bucket_run l d (t # ts)))
    \<le> tb_capacity l + (last (t # ts) - t) * tb_rate l"
proof -
  have wf: "1 \<le> tb_rate l" "tb_capacity l = tb_rate l"
    using NewTokenBucket_well_formed [of n] assms(1) by (simp_all add: well_formed_bucket_def)
  let ?r = "refilled (tb_rate l) (tb_capacity l) t d"
  have r: "0 \<le> ?r" "?r \<le> tb_capacity l"
    using assms(3) wf by (simp_all add: refilled_nonneg refilled_le)
  have "rat_of_nat (fst (bucket_run l (Some (?r, t)) (t # ts))) \<le> ?r + (last (t # ts) - t) * tb_rate l"
    by (rule bucket_run_le) (use assms(2) r wf in auto)
  then show ?thesis
    using bucket_run_first [of l ?r t d ts] wf r by simp
qed

theorem bucket_throughput_witness:
  "rat_of_nat (fst (bucket_run (NewTokenBucket 2) None [0, 0, 0, 1 / 2])) \<le> 2 + (1 / 2 - 0) * 2"
  using bucket_throughput [of "NewTokenBucket 2" 2 0 "[0, 0, 1 / 2]" None]
  by (simp add: bucket_ok_def NewTokenBucket_def)

text \<open>
  The stored level never leaves the interval from 0 to the capacity, whatever the
  clocks of the callers say (the time may run backwards between requests).
\<close>

theorem bucket_level_bounded:
  assumes "l = NewTokenBucket n" and "bucket_ok (tb_capacity l) d"
  shows "bucket_ok (tb_capacity l) (snd (bucket_run l d ts))"
  using assms(2)
proof (induction ts arbitrary: d)
  case Nil
  then show ?case by simp
next
  case (Cons t ts)
  have wf: "1 \<le> tb_rate l" "tb_capacity l = tb_rate l"
    using NewTokenBucket_well_formed [of n] assms(1) by (simp_all add: well_formed_bucket_def)
  have "bucket_ok (tb_capacity l) (Some (snd (luaTokenBucket (tb_rate l) (tb_capacity l) t 1 d)))"
    using Cons.prems wf by (intro lua_keeps_ok) auto
  with Cons.IH show ?case by (simp add: case_prod_beta)
qed

theorem bucket_level_bounded_witness:
  "bucket_ok 3 (snd (bucket_run (NewTokenBucket 3) (Some (1, 5)) [7, 2, 2]))"
  using bucket_level_bounded [of "NewTokenBucket 3" 3 "Some (1, 5)" "[7, 2, 2]"]
  by (simp add: bucket_ok_def NewTokenBucket_def)

text \<open>
  The suggested wait of a denied request is enough and is not too long: with no other
  request in between, asking again once it has passed succeeds, and asking more than a
  millisecond earlier is still denied.
\<close>

theorem suggested_wait_exact:
  assumes "l = NewTokenBucket n"
    and denied: "luaTokenBucket (tb_rate l) (tb_capacity l) t 1 d = ((0, wait_ms), d')"
    and "t \<le> t'"
  shows "(t + rat_of_int wait_ms / 1000 \<le> t' \<longrightarrow>
            fst (fst (luaTokenBucket (tb_rate l) (tb_capacity l) t' 1 (Some d'))) = 1) \<and>
         (t' \<le> t + rat_of_int (wait_ms - 1) / 1000 \<longrightarrow>
            fst (fst (luaTokenBucket (tb_rate l) (tb_capacity l) t' 1 (Some d'))) = 0)"
proof -
  have wf: "1 \<le> tb_rate l" "tb_capacity l = tb_rate l"
    using NewTokenBucket_well_formed [of n] assms(1) by (simp_all add: well_formed_bucket_def)
  define r where "r = refilled (tb_rate l) (tb_capacity l) t d"
  have r: "r < 1" and w: "wait_ms = \<lceil>(1 - r) / tb_rate l * 1000\<rceil>" and d': "d' = (r, t)"
    using denied wf by (auto simp: lua_eq Let_def r_def split: if_splits)
  have c1: "(1 - r) / tb_rate l * 1000 \<le> rat_of_int wait_ms"
    unfolding w by (rule le_of_int_ceiling)
  have c2: "rat_of_int (wait_ms - 1) < (1 - r) / tb_rate l * 1000"
    unfolding w using ceiling_correct [of "(1 - r) / tb_rate l * 1000"] by simp
  define q where "q = r + (t' - t) * tb_rate l"
  have enough: "1 \<le> q" if "t + rat_of_int wait_ms / 1000 \<le> t'"
  proof -
    have "1 - r \<le> rat_of_int wait_ms / 1000 * tb_rate l"
      using c1 wf by (simp add: field_simps)
    also have "\<dots> \<le> (t' - t) * tb_rate l"
      by (rule mult_right_mono) (use that wf in linarith)+
    finally show ?thesis by (simp add: q_def)
  qed
  have early: "q < 1" if "t' \<le> t + rat_of_int (wait_ms - 1) / 1000"
  proof -
    have "(t' - t) * tb_rate l \<le> rat_of_int (wait_ms - 1) / 1000 * tb_rate l"
      by (rule mult_right_mono) (use that wf in linarith)+
    also have "\<dots> < 1 - r"
      using c2 wf by (simp add: field_simps)
    finally show ?thesis by (simp add: q_def)
  qed
  have "refilled (tb_rate l) (tb_capacity l) t' (Some d') < 1 \<longleftrightarrow> q < 1"
    using wf assms(3) by (simp add: refilled_def d' q_def min_less_iff_disj)
  then show ?thesis
    using wf enough early by (auto simp: lua_eq Let_def)
qed

theorem suggested_wait_exact_witness:
  "luaTokenBucket 1 1 10 1 (Some (1 / 2, 10)) = ((0, 500), (1 / 2, 10)) \<and>
   fst (fst (luaTokenBucket 1 1 (21 / 2) 1 (Some (1 / 2, 10)))) = 1"
proof -
  have l: "NewTokenBucket 1 = \<lparr>tb_rate = 1, tb_capacity = 1\<rparr>"
    by (simp add: NewTokenBucket_def)
  have h: "luaTokenBucket 1 1 10 1 (Some (1 / 2, 10)) = ((0, 500), (1 / 2, 10))"
    by (simp add: luaTokenBucket_def)
  show ?thesis
    using suggested_wait_exact [of "NewTokenBucket 1" 1 10 "Some (1 / 2, 10)" 500 "(1 / 2, 10)" "21 / 2"]
    by (simp add: l h)
qed

text \<open>
  The one-hour expiry the script sets on the key is unobservable: when the key of a
  bucket that has been idle for at least a second is gone, the next request gets the answer, and
  leaves the hash, that it would have with the key still there.
\<close>

theorem expiry_unobservable:
  assumes "l = NewTokenBucket n" and "redis w key = Some (RHash tokens ts, expiry)"
    and "expiry \<le> now w" and "0 \<le> tokens" and "1 \<le> t - ts"
  shows "run_bucket l key t w =
    run_bucket l key t (w\<lparr>redis := (redis w)(key := Some (RHash tokens ts, now w + 1))\<rparr>)"
proof -
  have wf: "1 \<le> tb_rate l" "tb_capacity l = tb_rate l"
    using NewTokenBucket_well_formed [of n] assms(1) by (simp_all add: well_formed_bucket_def)
  have "1 * tb_rate l \<le> (t - ts) * tb_rate l"
    by (rule mult_right_mono) (use wf assms(5) in linarith)+
  then have "tb_rate l \<le> tokens + (t - ts) * tb_rate l"
    using assms(4) by linarith
  then have "refilled (tb_rate l) (tb_capacity l) t (Some (tokens, ts)) = tb_capacity l"
    using assms(5) wf by (simp add: refilled_def max_def min_def)
  moreover have "refilled (tb_rate l) (tb_capacity l) t None = tb_capacity l"
    by (simp add: refilled_def)
  ultimately have "luaTokenBucket (tb_rate l) (tb_capacity l) t 1 None =
      luaTokenBucket (tb_rate l) (tb_capacity l) t 1 (Some (tokens, ts))"
    using wf by (simp add: lua_eq)
  then show ?thesis
    using assms(2,3) by (simp add: run_bucket_def live_def Let_def split: prod.split)
qed

text \<open>
  \<open>Acquire\<close> returns for every environment; the total wait it reports is not negative
  and never more than the wait budget.
\<close>

theorem Acquire_wait_bounded:
  assumes "0 \<le> maxWait"
  shows "wp (Acquire l key maxWait) (\<lambda>(waited, _) _. 0 \<le> waited \<and> waited \<le> maxWait) w"
  using Acquire_loop_wait [of 0 l key "now w + maxWait" w] assms
  by (auto simp: wp_def Acquire_def split: prod.split)

theorem Acquire_wait_bounded_witness:
  "wp (Acquire (NewTokenBucket 1) ''k'' (5 * Second))
     (\<lambda>(waited, _) _. 0 \<le> waited \<and> waited \<le> 5 * Second)
     (quiet_world\<lparr>redis := (\<lambda>_. None)(''k'' := Some (RHash 0 0, Hour))\<rparr>)"
  using Acquire_wait_bounded [of "5 * Second" "NewTokenBucket 1" "''k''"] by simp

theorem expiry_unobservable_witness:
  "run_bucket (NewTokenBucket 2) ''k'' 3601
     (quiet_world\<lparr>now := 3601 * Second,
        redis := (\<lambda>_. None)(''k'' := Some (RHash 0 1, 3601 * Second))\<rparr>) =
   run_bucket (NewTokenBucket 2) ''k'' 3601
     (quiet_world\<lparr>now := 3601 * Second,
        redis := (\<lambda>_. None)(''k'' := Some (RHash 0 1, 3601 * Second + 1))\<rparr>)"
  using expiry_unobservable [of "NewTokenBucket 2" 2
      "quiet_world\<lparr>now := 3601 * Second, redis := (\<lambda>_. None)(''k'' := Some (RHash 0 1, 3601 * Second))\<rparr>"
      "''k''" 0 1 "3601 * Second" 3601]
  by simp

end
