(* ===== verification/RedisLock.thy ===== *)
theory RedisLock
  imports RateLimit
begin

text \<open>
  The distributed lock of \<^verbatim>\<open>internal/infra/redis/client.go\<close>: \<open>SET NX\<close> with a time to live, and
  the compare-and-delete script of \<open>ReleaseLock\<close>, on one key of the keyspace; the two client
  methods on the world; the contract of a leased lock as a locale, interpreted on the Redis
  functions; and the system of clients that compete for one key.
\<close>

section \<open>One key\<close>

type_synonym entry = "(rval \<times> int) option"

definition set_nx :: "string \<Rightarrow> int \<Rightarrow> int \<Rightarrow> entry \<Rightarrow> bool \<times> entry" where
  "set_nx v ttl t e = (case live t e of None \<Rightarrow> (True, Some (RStr v, t + ttl)) | Some _ \<Rightarrow> (False, e))"

definition del_if_equal :: "string \<Rightarrow> int \<Rightarrow> entry \<Rightarrow> (goerr + int) \<times> entry" where
  "del_if_equal v t e =
     (case live t e of
        Some (RStr u) \<Rightarrow> (if u = v then (Inr 1, None) else (Inr 0, e))
      | Some (RHash _ _) \<Rightarrow> (Inl wrong_type, e)
      | None \<Rightarrow> (Inr 0, e))"

section \<open>The client\<close>

definition AcquireLock :: "string \<Rightarrow> string \<Rightarrow> int \<Rightarrow> (world, goerr + unit) state" where
  "AcquireLock key value ttl = do {
     r \<leftarrow> call (\<lambda>w. case set_nx value ttl (now w) (redis w key) of
                   (ok, e) \<Rightarrow> (Inr ok, w\<lparr>redis := (redis w)(key := e)\<rparr>));
     State_Monad.return
       (case r of
          Inl e \<Rightarrow> Inl (Wrap (''acquire lock '' @ key) e)
        | Inr ok \<Rightarrow> if \<not> ok then Inl ErrLockNotAcquired else Inr ())
   }"

definition ReleaseLock :: "string \<Rightarrow> string \<Rightarrow> (world, goerr + unit) state" where
  "ReleaseLock key value =
     call (\<lambda>w. case del_if_equal value (now w) (redis w key) of
             (r, e) \<Rightarrow> (case r of Inl err \<Rightarrow> Inl err | Inr _ \<Rightarrow> Inr (),
                        w\<lparr>redis := (redis w)(key := e)\<rparr>))"

lemma preserves_AcquireLock [frame]:
  "steady f \<Longrightarrow> (\<And>w r. f (w\<lparr>redis := r\<rparr>) = f w) \<Longrightarrow> preserves f (AcquireLock key v ttl)"
  unfolding AcquireLock_def by (intro frame) (auto split: prod.split)

lemma preserves_ReleaseLock [frame]:
  "steady f \<Longrightarrow> (\<And>w r. f (w\<lparr>redis := r\<rparr>) = f w) \<Longrightarrow> preserves f (ReleaseLock key v)"
  unfolding ReleaseLock_def by (intro frame) (auto split: prod.split)

section \<open>The contract of a leased lock\<close>

locale leased_lock =
  fixes acquire :: "string \<Rightarrow> int \<Rightarrow> int \<Rightarrow> 's \<Rightarrow> bool \<times> 's"
    and release :: "string \<Rightarrow> int \<Rightarrow> 's \<Rightarrow> 's"
    and holder :: "int \<Rightarrow> 's \<Rightarrow> string option"
    and valid :: "'s \<Rightarrow> bool"
  assumes acquire_free: "valid s \<Longrightarrow> fst (acquire v ttl t s) \<longleftrightarrow> holder t s = None"
    and acquire_holder: "valid s \<Longrightarrow> holder t s = None \<Longrightarrow>
      holder t' (snd (acquire v ttl t s)) = (if t' < t + ttl then Some v else None)"
    and acquire_taken: "valid s \<Longrightarrow> holder t s \<noteq> None \<Longrightarrow> snd (acquire v ttl t s) = s"
    and release_own: "valid s \<Longrightarrow> holder t s = Some v \<Longrightarrow> holder t' (release v t s) = None"
    and release_other: "valid s \<Longrightarrow> holder t s \<noteq> Some v \<Longrightarrow> release v t s = s"
    and valid_acquire: "valid s \<Longrightarrow> valid (snd (acquire v ttl t s))"
    and valid_release: "valid s \<Longrightarrow> valid (release v t s)"
begin

lemma lease_survives_others:
  assumes "valid s" and "holder t s = Some v" and "holder t' s = Some v" and "u \<noteq> v"
  shows "holder t' (release u t s) = Some v" and "\<not> fst (acquire u ttl t s)"
    and "holder t' (snd (acquire u ttl t s)) = Some v"
  using assms release_other [of s t u] acquire_free [of s] acquire_taken [of s t] by auto

end

definition string_holder :: "int \<Rightarrow> entry \<Rightarrow> string option" where
  "string_holder t e = (case live t e of Some (RStr v) \<Rightarrow> Some v | _ \<Rightarrow> None)"

definition string_entry :: "entry \<Rightarrow> bool" where
  "string_entry e = (case e of Some (RHash _ _, _) \<Rightarrow> False | _ \<Rightarrow> True)"

interpretation redis_lock: leased_lock set_nx "\<lambda>v t e. snd (del_if_equal v t e)" string_holder string_entry
  by unfold_locales
    (auto simp: set_nx_def del_if_equal_def string_holder_def string_entry_def live_def
      split: option.splits rval.splits if_splits)

section \<open>Clients competing for one key\<close>

text \<open>
  Client \<open>c\<close> calls the two methods with the value \<open>token c\<close>. \<open>lease c\<close> is the end of the lease \<open>c\<close> believes it has,
  counted from the moment of its call: set when \<open>AcquireLock\<close> returns no error and only then, dropped when
  \<open>ReleaseLock\<close> returns, with an error or not. Either call may fail before or after Redis has carried it out, and
  a client may release after its lease has run out. Only locks are stored under the key. \<open>elsewhere\<close> is time passing, and everything that leaves
  the key alone.
\<close>

record lock_sys =
  lk_world :: world
  lease :: "nat \<Rightarrow> int option"

inductive lock_step :: "string \<Rightarrow> (nat \<Rightarrow> string) \<Rightarrow> int \<Rightarrow> lock_sys \<Rightarrow> lock_sys \<Rightarrow> bool"
  for key :: string and token :: "nat \<Rightarrow> string" and ttl :: int where
  elsewhere: "redis w' key = redis (lk_world s) key \<Longrightarrow> now (lk_world s) \<le> now w' \<Longrightarrow>
     lock_step key token ttl s (s\<lparr>lk_world := w'\<rparr>)"
| acquires: "run_state (AcquireLock key (token c) ttl) (lk_world s) = (Inr (), w') \<Longrightarrow>
     lock_step key token ttl s (s\<lparr>lk_world := w', lease := (lease s)(c := Some (now (lk_world s) + ttl))\<rparr>)"
| fails: "run_state (AcquireLock key (token c) ttl) (lk_world s) = (Inl e, w') \<Longrightarrow>
     lock_step key token ttl s (s\<lparr>lk_world := w'\<rparr>)"
| releases: "lease s c \<noteq> None \<Longrightarrow> run_state (ReleaseLock key (token c)) (lk_world s) = (r, w') \<Longrightarrow>
     lock_step key token ttl s (s\<lparr>lk_world := w', lease := (lease s)(c := None)\<rparr>)"

inductive lock_reachable :: "string \<Rightarrow> (nat \<Rightarrow> string) \<Rightarrow> int \<Rightarrow> lock_sys \<Rightarrow> bool"
  for key :: string and token :: "nat \<Rightarrow> string" and ttl :: int where
  start: "string_entry (redis w key) \<Longrightarrow> lock_reachable key token ttl \<lparr>lk_world = w, lease = (\<lambda>_. None)\<rparr>"
| step: "lock_reachable key token ttl s \<Longrightarrow> lock_step key token ttl s s' \<Longrightarrow> lock_reachable key token ttl s'"

definition holds :: "lock_sys \<Rightarrow> nat \<Rightarrow> bool" where
  "holds s c \<longleftrightarrow> (case lease s c of None \<Rightarrow> False | Some u \<Rightarrow> now (lk_world s) < u)"

text \<open>What the two methods do to the key, whatever the environment answers.\<close>

lemma AcquireLock_key:
  assumes "run_state (AcquireLock key v ttl) w = (r, w')"
  shows "now w \<le> now w'"
    and "redis w' key = redis w key \<or> redis w' key = snd (set_nx v ttl (now w') (redis w key))"
    and "r = Inr () \<Longrightarrow> fst (set_nx v ttl (now w') (redis w key)) \<and> redis w' key = snd (set_nx v ttl (now w') (redis w key))"
  using assms
  by (auto simp: AcquireLock_def call_def Let_def step_clock_now split: fault.splits prod.splits if_splits)

lemma ReleaseLock_key:
  assumes "run_state (ReleaseLock key v) w = (r, w')"
  shows "now w \<le> now w'"
    and "redis w' key = redis w key \<or> redis w' key = snd (del_if_equal v (now w') (redis w key))"
  using assms
  by (auto simp: ReleaseLock_def call_def Let_def step_clock_now split: fault.splits prod.splits)

text \<open>The invariant: until it runs out, a lease is the one Redis has.\<close>

definition lease_inv :: "string \<Rightarrow> (nat \<Rightarrow> string) \<Rightarrow> lock_sys \<Rightarrow> bool" where
  "lease_inv key token s \<longleftrightarrow> string_entry (redis (lk_world s) key) \<and>
     (\<forall>c u t. lease s c = Some u \<longrightarrow> now (lk_world s) \<le> t \<longrightarrow> t < u \<longrightarrow>
        string_holder t (redis (lk_world s) key) = Some (token c))"

lemma lease_inv_step:
  assumes "lock_step key token ttl s s'" and "inj token" and "lease_inv key token s"
  shows "lease_inv key token s'"
proof -
  let ?e = "redis (lk_world s) key"
  have valid: "string_entry ?e" using assms(3) by (simp add: lease_inv_def)
  have holder: "string_holder t ?e = Some (token c)" if "lease s c = Some u" "now (lk_world s) \<le> t" "t < u" for c u t
    using assms(3) that by (simp add: lease_inv_def)
  show ?thesis
    using assms(1)
  proof cases
    case (elsewhere w')
    then show ?thesis using valid holder by (auto simp: lease_inv_def)
  next
    case (acquires c w')
    note key = AcquireLock_key [OF acquires(2)]
    have free: "string_holder (now w') ?e = None" using key(3) redis_lock.acquire_free [OF valid] by simp
    with holder key(1) have "\<not> now w' < u" if "lease s c' = Some u" for c' u
      using that by fastforce
    moreover have "string_holder t (redis w' key) = (if t < now w' + ttl then Some (token c) else None)" for t
      using key(3) redis_lock.acquire_holder [OF valid free] by simp
    moreover have "string_entry (redis w' key)" using key(3) redis_lock.valid_acquire [OF valid] by simp
    ultimately show ?thesis using acquires(1) key(1) by (fastforce simp: lease_inv_def)
  next
    case (fails c e w')
    note key = AcquireLock_key [OF fails(2)]
    have "string_holder t (redis w' key) = Some (token c')" if "lease s c' = Some u" "now w' \<le> t" "t < u" for c' u t
    proof -
      have "string_holder (now w') ?e \<noteq> None" using holder [OF that(1) key(1)] that by auto
      then have "redis w' key = ?e" using key(2) redis_lock.acquire_taken [OF valid] by metis
      then show ?thesis using holder [OF that(1)] that(2,3) key(1) by simp
    qed
    moreover have "string_entry (redis w' key)" using key(2) valid redis_lock.valid_acquire [OF valid] by metis
    ultimately show ?thesis using fails(1) by (simp add: lease_inv_def)
  next
    case (releases c r w')
    note key = ReleaseLock_key [OF releases(3)]
    have "string_holder t (redis w' key) = Some (token c')" if "lease s c' = Some u" "now w' \<le> t" "t < u" "c' \<noteq> c" for c' u t
    proof -
      have "string_holder (now w') ?e = Some (token c')" "string_holder t ?e = Some (token c')"
        using holder [OF that(1)] that(2,3) key(1) by simp_all
      moreover have "token c \<noteq> token c'" using that(4) assms(2) by (auto dest: injD)
      ultimately show ?thesis
        using key(2) redis_lock.lease_survives_others(1) [OF valid] by metis
    qed
    moreover have "string_entry (redis w' key)" using key(2) valid redis_lock.valid_release [OF valid] by metis
    ultimately show ?thesis using releases(1) by (simp add: lease_inv_def)
  qed
qed

lemma lease_inv_reachable: "lock_reachable key token ttl s \<Longrightarrow> inj token \<Longrightarrow> lease_inv key token s"
proof (induction rule: lock_reachable.induct)
  case (start w)
  then show ?case by (simp add: lease_inv_def)
next
  case (step s s')
  then show ?case by (blast intro: lease_inv_step)
qed

section \<open>Properties\<close>

text \<open>
  Claim C21. Mutual exclusion, for clients that use values of their own: at most one client
  holds an unexpired lease, in every reachable state, however late a client releases and whatever calls fail, also
  after having taken effect.
\<close>

theorem lock_mutual_exclusion:
  assumes "lock_reachable key token ttl s" and "inj token" and "holds s c" and "holds s c'"
  shows "c = c'"
proof -
  have inv: "lease_inv key token s" using assms(1,2) by (rule lease_inv_reachable)
  have "string_holder (now (lk_world s)) (redis (lk_world s) key) = Some (token d)" if "holds s d" for d
    using inv that by (auto simp: holds_def lease_inv_def split: option.splits)
  from this [OF assms(3)] this [OF assms(4)] show ?thesis using assms(2) by (simp add: inj_eq)
qed

lemma acquire_run:
  assumes "fault (env w) (tick w) = NoFault" and "live (now (step_clock w)) (redis w key) = None"
  shows "run_state (AcquireLock key v ttl) w =
    (Inr (), (step_clock w)\<lparr>redis := (redis w)(key := Some (RStr v, now (step_clock w) + ttl))\<rparr>)"
  using assms by (simp add: AcquireLock_def call_def set_nx_def Let_def)

theorem lock_mutual_exclusion_witness:
  "\<exists>s. lock_reachable ''k'' (\<lambda>n. replicate n CHR ''a'') 5 s \<and> holds s 1 \<and> (\<forall>c. holds s c \<longrightarrow> c = 1)"
proof -
  let ?tok = "\<lambda>n. replicate n CHR ''a''"
  let ?init = "\<lparr>lk_world = quiet_world, lease = (\<lambda>_. None)\<rparr>"
  define w' where "w' = snd (run_state (AcquireLock ''k'' (?tok 1) 5) quiet_world)"
  let ?s = "?init\<lparr>lk_world := w', lease := (lease ?init)(1 := Some (now (lk_world ?init) + 5))\<rparr>"
  have q: "fault (env quiet_world) (tick quiet_world) = NoFault" "live (now (step_clock quiet_world)) (redis quiet_world ''k'') = None"
    by (simp_all add: quiet_world_def quiet_env_def live_def)
  have "lock_step ''k'' ?tok 5 ?init ?s"
    by (rule lock_step.acquires) (use acquire_run [OF q, of "?tok 1" 5] in \<open>simp add: w'_def\<close>)
  moreover have "lock_reachable ''k'' ?tok 5 ?init" by (rule lock_reachable.start) (simp add: string_entry_def quiet_world_def)
  ultimately have r: "lock_reachable ''k'' ?tok 5 ?s" by (blast intro: lock_reachable.step)
  have i: "inj ?tok" by (rule injI) (metis length_replicate)
  have h: "holds ?s 1"
    using acquire_run [OF q, of "?tok 1" 5] by (simp add: holds_def w'_def quiet_world_def quiet_env_def step_clock_def)
  show ?thesis
    using r h lock_mutual_exclusion [OF r i _ h] by blast
qed

text \<open>
  The value of its own is necessary. The segment refresh draws a fresh UUID for each lock, but the workflow engine has no
  such value: the scheduler locks with the constant \<^verbatim>\<open>scheduler\<close> for 45 seconds. A poll that outlives its lease then
  releases the lease of the instance that took over, and two instances hold the lock at once.
\<close>

definition lock_state :: "int \<Rightarrow> entry \<Rightarrow> (nat \<Rightarrow> int option) \<Rightarrow> lock_sys" where
  "lock_state t e l = \<lparr>lk_world = quiet_world\<lparr>now := t, redis := (\<lambda>_. None)(''k'' := e)\<rparr>, lease = l\<rparr>"

lemma lock_state_settle:
  assumes "lock_reachable ''k'' tok ttl s" and "redis (lk_world s) ''k'' = e" and "now (lk_world s) \<le> t" and "lease s = l"
  shows "lock_reachable ''k'' tok ttl (lock_state t e l)"
proof -
  have "lock_step ''k'' tok ttl s (s\<lparr>lk_world := quiet_world\<lparr>now := t, redis := (\<lambda>_. None)(''k'' := e)\<rparr>\<rparr>)"
    by (rule lock_step.elsewhere) (use assms in simp_all)
  moreover have "s\<lparr>lk_world := quiet_world\<lparr>now := t, redis := (\<lambda>_. None)(''k'' := e)\<rparr>\<rparr> = lock_state t e l"
    using assms(4) by (simp add: lock_state_def)
  ultimately show ?thesis using assms(1) lock_reachable.step by metis
qed

lemma lock_state_acquires:
  assumes "lock_reachable ''k'' tok ttl (lock_state t e l)" and "live t e = None"
  shows "lock_reachable ''k'' tok ttl (lock_state t (Some (RStr (tok c), t + ttl)) (l(c := Some (t + ttl))))"
proof -
  let ?s = "lock_state t e l"
  have "run_state (AcquireLock ''k'' (tok c) ttl) (lk_world ?s) = (Inr (), (step_clock (lk_world ?s))\<lparr>redis :=
      (redis (lk_world ?s))(''k'' := Some (RStr (tok c), now (step_clock (lk_world ?s)) + ttl))\<rparr>)"
    by (rule acquire_run) (use assms(2) in \<open>simp_all add: lock_state_def quiet_world_def quiet_env_def step_clock_def\<close>)
  from lock_step.acquires [where token = tok and c = c, OF this]
  have "lock_reachable ''k'' tok ttl (?s\<lparr>lk_world := (step_clock (lk_world ?s))\<lparr>redis :=
      (redis (lk_world ?s))(''k'' := Some (RStr (tok c), now (step_clock (lk_world ?s)) + ttl))\<rparr>,
      lease := (lease ?s)(c := Some (now (lk_world ?s) + ttl))\<rparr>)"
    by (rule lock_reachable.step [OF assms(1)])
  then show ?thesis
    by (rule lock_state_settle) (simp_all add: lock_state_def quiet_world_def quiet_env_def step_clock_def)
qed

lemma lock_state_releases:
  assumes "lock_reachable ''k'' tok ttl (lock_state t (Some (RStr (tok c), u)) l)" and "l c \<noteq> None" and "t < u"
  shows "lock_reachable ''k'' tok ttl (lock_state t None (l(c := None)))"
proof -
  let ?s = "lock_state t (Some (RStr (tok c), u)) l"
  have "run_state (ReleaseLock ''k'' (tok c)) (lk_world ?s) =
      (Inr (), (step_clock (lk_world ?s))\<lparr>redis := (redis (lk_world ?s))(''k'' := None)\<rparr>)"
    using assms(3) by (simp add: ReleaseLock_def call_def del_if_equal_def live_def lock_state_def quiet_world_def quiet_env_def step_clock_def)
  moreover have "lease ?s c \<noteq> None" using assms(2) by (simp add: lock_state_def)
  ultimately have "lock_step ''k'' tok ttl ?s (?s\<lparr>lk_world := (step_clock (lk_world ?s))\<lparr>redis := (redis (lk_world ?s))(''k'' := None)\<rparr>,
      lease := (lease ?s)(c := None)\<rparr>)"
    by (intro lock_step.releases [where token = tok and c = c])
  with assms(1) have "lock_reachable ''k'' tok ttl (?s\<lparr>lk_world := (step_clock (lk_world ?s))\<lparr>redis := (redis (lk_world ?s))(''k'' := None)\<rparr>,
      lease := (lease ?s)(c := None)\<rparr>)"
    by (rule lock_reachable.step)
  then show ?thesis
    by (rule lock_state_settle) (simp_all add: lock_state_def quiet_world_def quiet_env_def step_clock_def)
qed

theorem constant_token_not_exclusive:
  "\<exists>s. lock_reachable ''k'' (\<lambda>_. ''scheduler'') (45 * Second) s \<and> holds s 1 \<and> holds s 2"
proof -
  let ?tok = "\<lambda>_::nat. ''scheduler''" and ?ttl = "45 * Second"
  let ?R = "\<lambda>t e l. lock_reachable ''k'' ?tok ?ttl (lock_state t e l)"
  have "?R 0 None (\<lambda>_. None)"
    by (rule lock_state_settle [OF lock_reachable.start [where w = quiet_world]]) (simp_all add: string_entry_def quiet_world_def)
  from lock_state_acquires [OF this, of 0] have "?R 0 (Some (RStr ''scheduler'', ?ttl)) ((\<lambda>_. None)(0 := Some ?ttl))"
    by (simp add: live_def)
  then have "?R (46 * Second) (Some (RStr ''scheduler'', ?ttl)) ((\<lambda>_. None)(0 := Some ?ttl))"
    by (rule lock_state_settle) (simp_all add: lock_state_def)
  from lock_state_acquires [OF this, of 1]
  have "?R (46 * Second) (Some (RStr ''scheduler'', 91 * Second)) ((\<lambda>_. None)(0 := Some ?ttl, 1 := Some (91 * Second)))"
    by (simp add: live_def)
  from lock_state_releases [OF this, of 0]
  have "?R (46 * Second) None ((\<lambda>_. None)(0 := None, 1 := Some (91 * Second)))" by (simp add: fun_upd_twist)
  from lock_state_acquires [OF this, of 2]
  have "?R (46 * Second) (Some (RStr ''scheduler'', 91 * Second)) ((\<lambda>_. None)(0 := None, 1 := Some (91 * Second), 2 := Some (91 * Second)))"
    by (simp add: live_def)
  then show ?thesis by (fastforce simp: holds_def lock_state_def)
qed

end
