(* ===== verification/Messaging.thy ===== *)
theory Messaging
  imports RedisLock
begin

text \<open>
  The queue side of the program: the JetStream publisher
  (\<^verbatim>\<open>internal/queue/producers/publisher.go\<close>), the registry's dispatch of a message to its handler
  (\<^verbatim>\<open>internal/queue/consumers/registry.go\<close>) with the contract it documents for handlers, and the
  SES client (\<^verbatim>\<open>internal/infra/ses/client.go\<close>).
\<close>

section \<open>Publisher\<close>

text \<open>
  \<^verbatim>\<open>json.Marshal\<close> cannot fail on the payload types of the program, so the only error is the
  server's. The message id is the JetStream deduplication key when it is not empty.
\<close>

definition Publish :: "string \<Rightarrow> payload \<Rightarrow> string \<Rightarrow> (world, goerr + unit) state" where
  "Publish subject p msgID = do {
     r \<leftarrow> call (\<lambda>w. (Inr (), w\<lparr>published := published w @
            [\<lparr>pm_Subject = subject, pm_Payload = p, pm_MsgID = msgID\<rparr>]\<rparr>));
     State_Monad.return (case r of Inl e \<Rightarrow> Inl (Wrap (''publish '' @ subject) e) | Inr _ \<Rightarrow> Inr ())
   }"

lemma preserves_Publish [frame]:
  "steady f \<Longrightarrow> (\<And>w p. f (w\<lparr>published := p\<rparr>) = f w) \<Longrightarrow> preserves f (Publish s p i)"
  unfolding Publish_def by (intro frame) auto

lemma published_prefix_Publish: "\<exists>ps. published (snd (run_state (Publish s p i) w)) = published w @ ps"
  by (auto simp: Publish_def call_def Let_def split: prod.split fault.split)

section \<open>Dispatch\<close>

datatype hresult = Done | Failed goerr | Panic

definition dispatch :: "('p message \<Rightarrow> (world, hresult) state) \<Rightarrow> 'p message \<Rightarrow> (world, unit) state" where
  "dispatch h msg = do {
     r \<leftarrow> h msg;
     case r of
       Panic \<Rightarrow> settle Nak
     | Failed e \<Rightarrow> settle Nak
     | Done \<Rightarrow> State_Monad.return ()
   }"

text \<open>
  The contract of a \<open>MessageHandler\<close>: a handler that returns without error has settled its
  message exactly once; one that fails or panics has not settled it.
\<close>

locale message_handler =
  fixes h :: "'p message \<Rightarrow> (world, hresult) state"
  assumes settles: "wp (h m) (\<lambda>r w'. if r = Done then \<exists>d. settled w' = settled w @ [d]
                                         else settled w' = settled w) w"
begin

lemma dispatch_settles_once: "wp (dispatch h m) (\<lambda>_ w'. \<exists>d. settled w' = settled w @ [d]) w"
  unfolding dispatch_def wp_bind
  by (rule wp_mono [OF settles]) (auto simp: wp_rules split: hresult.split if_splits)

end

locale total_handler = message_handler +
  assumes returns: "wp (h m) (\<lambda>r _. r = Done) w"
begin

lemma dispatch_is_handler: "snd (run_state (dispatch h m) w) = snd (run_state (h m) w)"
  using returns [of m w] by (auto simp: dispatch_def wp_def split: prod.split)

end

text \<open>
  Deliveries of one message: JetStream hands it out with the attempt numbers of the list, in that
  order, and not again once it has been acknowledged or terminated. Which numbers come, and how
  many, is left open.
\<close>

fun redeliver :: "('p message \<Rightarrow> (world, hresult) state) \<Rightarrow> 'p option \<Rightarrow> nat option list \<Rightarrow> world \<Rightarrow> world" where
  "redeliver h data [] w = w"
| "redeliver h data (k # ks) w =
     (let w' = snd (run_state (dispatch h \<lparr>Data = data, NumDelivered = k\<rparr>) w)
      in if last (settled w') = Ack \<or> last (settled w') = Term then w' else redeliver h data ks w')"

text \<open>A handler that sends at most one mail, and acknowledges when it has sent one.\<close>

locale single_send_handler = total_handler +
  assumes keeps_env: "preserves env (h m)"
    and send_then_ack: "errors_mean_nothing_done (env w) \<Longrightarrow>
      wp (h m) (\<lambda>_ w'. mail w' = mail w \<or> (\<exists>x. mail w' = mail w @ [x]) \<and> last (settled w') = Ack) w"
begin

lemma at_most_one_mail:
  "errors_mean_nothing_done (env w) \<Longrightarrow>
   \<exists>xs. mail (redeliver h data ks w) = mail w @ xs \<and> length xs \<le> 1"
proof (induction ks arbitrary: w)
  case Nil
  then show ?case by simp
next
  case (Cons k ks)
  let ?m = "\<lparr>Data = data, NumDelivered = k\<rparr>"
  define w' where "w' = snd (run_state (h ?m) w)"
  have e: "env w' = env w" using keeps_env [of ?m] by (auto simp: w'_def)
  have d: "snd (run_state (dispatch h ?m) w) = w'"
    by (simp add: w'_def dispatch_is_handler)
  have step: "mail w' = mail w \<or> (\<exists>x. mail w' = mail w @ [x]) \<and> last (settled w') = Ack"
    using send_then_ack [OF Cons.prems, of ?m] by (simp add: wp_def w'_def)
  show ?case
  proof (cases "last (settled w') = Ack \<or> last (settled w') = Term")
    case True
    then have "redeliver h data (k # ks) w = w'" by (simp add: d Let_def)
    with step show ?thesis by force
  next
    case False
    then have "redeliver h data (k # ks) w = redeliver h data ks w'" by (auto simp: d Let_def)
    moreover have "mail w' = mail w" using step False by blast
    moreover have "\<exists>xs. mail (redeliver h data ks w') = mail w' @ xs \<and> length xs \<le> 1"
      using Cons.prems e by (intro Cons.IH) simp
    ultimately show ?thesis by simp
  qed
qed

end

text \<open>Proving the contract: a handler is a chain of calls that keep \<open>settled\<close>, then one \<open>settle\<close>.\<close>

definition settles_once :: "(world, hresult) state \<Rightarrow> bool" where
  "settles_once m \<longleftrightarrow> (\<forall>w. wp m (\<lambda>r w'. r = Done \<and> (\<exists>d. settled w' = settled w @ [d])) w)"

named_theorems settle_rules

definition finish :: "disposition \<Rightarrow> (world, hresult) state" where
  "finish d = do { settle d; State_Monad.return Done }"

lemma wp_finish [wp_rules]: "wp (finish d) Q w = Q Done (w\<lparr>settled := settled w @ [d]\<rparr>)"
  by (simp add: finish_def wp_rules)

lemma preserves_finish [frame]: "(\<And>w s. f (w\<lparr>settled := s\<rparr>) = f w) \<Longrightarrow> preserves f (finish d)"
  unfolding finish_def by (intro frame)

lemma settles_finish [settle_rules]: "settles_once (finish d)"
  by (simp add: settles_once_def wp_rules)

lemma settles_bind [settle_rules]:
  assumes "preserves settled m" and "\<And>x. settles_once (f x)"
  shows "settles_once (State_Monad.bind m f)"
proof -
  have "wp (f x) (\<lambda>r w'. r = Done \<and> (\<exists>d. settled w' = settled w @ [d])) w1"
    if "settled w1 = settled w" for x w w1
    using assms(2) [of x] that unfolding settles_once_def by metis
  then show ?thesis
    unfolding settles_once_def wp_bind
    by (intro allI, rule wp_mono [OF preserves_wp [OF assms(1)]])
qed

lemma settles_if [settle_rules]:
  "(b \<Longrightarrow> settles_once m) \<Longrightarrow> (\<not> b \<Longrightarrow> settles_once n) \<Longrightarrow> settles_once (if b then m else n)"
  by simp

lemma settles_case_option [settle_rules]:
  "settles_once m \<Longrightarrow> (\<And>x. settles_once (g x)) \<Longrightarrow>
   settles_once (case v of None \<Rightarrow> m | Some x \<Rightarrow> g x)"
  by (cases v) auto

lemma settles_case_sum [settle_rules]:
  "(\<And>e. settles_once (m e)) \<Longrightarrow> (\<And>x. settles_once (g x)) \<Longrightarrow>
   settles_once (case v of Inl e \<Rightarrow> m e | Inr x \<Rightarrow> g x)"
  by (cases v) auto

lemma settles_case_prod [settle_rules]:
  "(\<And>x y. settles_once (g x y)) \<Longrightarrow> settles_once (case p of (x, y) \<Rightarrow> g x y)"
  by (cases p) auto

lemma total_handlerI: "(\<And>m. settles_once (h m)) \<Longrightarrow> total_handler h"
  by unfold_locales (auto simp: settles_once_def wp_def)

text \<open>The same for a handler that may panic before it settles, and may defer a call to its end.\<close>

definition settles_or_panics :: "(world, hresult) state \<Rightarrow> bool" where
  "settles_or_panics m \<longleftrightarrow> (\<forall>w. wp m (\<lambda>r w'. if r = Done then \<exists>d. settled w' = settled w @ [d]
                                            else r = Panic \<and> settled w' = settled w) w)"

lemma settles_once_or_panics: "settles_once m \<Longrightarrow> settles_or_panics m"
  unfolding settles_once_def settles_or_panics_def
proof
  fix w
  assume "\<forall>w. wp m (\<lambda>r w'. r = Done \<and> (\<exists>d. settled w' = settled w @ [d])) w"
  then have "wp m (\<lambda>r w'. r = Done \<and> (\<exists>d. settled w' = settled w @ [d])) w" ..
  then show "wp m (\<lambda>r w'. if r = Done then \<exists>d. settled w' = settled w @ [d]
                           else r = Panic \<and> settled w' = settled w) w"
    by (rule wp_mono) simp
qed

lemma panic_settles [settle_rules]: "settles_or_panics (State_Monad.return Panic)"
  by (simp add: settles_or_panics_def wp_rules)

lemma panics_bind [settle_rules]:
  assumes "preserves settled m" and "\<And>x. settles_or_panics (f x)"
  shows "settles_or_panics (State_Monad.bind m f)"
proof -
  have "wp (f x) (\<lambda>r w'. if r = Done then \<exists>d. settled w' = settled w @ [d] else r = Panic \<and> settled w' = settled w) w1"
    if "settled w1 = settled w" for x w w1
    using assms(2) [of x, unfolded settles_or_panics_def, THEN spec, of w1] by (simp only: that)
  then show ?thesis
    unfolding settles_or_panics_def wp_bind
    by (intro allI, rule wp_mono [OF preserves_wp [OF assms(1)]])
qed

lemma panics_if [settle_rules]:
  "(b \<Longrightarrow> settles_or_panics m) \<Longrightarrow> (\<not> b \<Longrightarrow> settles_or_panics n) \<Longrightarrow> settles_or_panics (if b then m else n)"
  by simp

lemma panics_case_option [settle_rules]:
  "settles_or_panics m \<Longrightarrow> (\<And>x. settles_or_panics (g x)) \<Longrightarrow>
   settles_or_panics (case v of None \<Rightarrow> m | Some x \<Rightarrow> g x)"
  by (cases v) auto

lemma panics_case_sum [settle_rules]:
  "(\<And>e. settles_or_panics (m e)) \<Longrightarrow> (\<And>x. settles_or_panics (g x)) \<Longrightarrow>
   settles_or_panics (case v of Inl e \<Rightarrow> m e | Inr x \<Rightarrow> g x)"
  by (cases v) auto

lemma panics_case_prod [settle_rules]:
  "(\<And>x y. settles_or_panics (g x y)) \<Longrightarrow> settles_or_panics (case p of (x, y) \<Rightarrow> g x y)"
  by (cases p) auto

lemma panics_defer:
  assumes "settles_or_panics m" and "preserves settled d"
  shows "settles_or_panics (do { r \<leftarrow> m; _ \<leftarrow> d; State_Monad.return r })"
proof -
  have "wp d (\<lambda>_ w2. if r = Done then \<exists>x. settled w2 = settled w @ [x] else r = Panic \<and> settled w2 = settled w) w1"
    if "if r = Done then \<exists>x. settled w1 = settled w @ [x] else r = Panic \<and> settled w1 = settled w" for r w w1
    using that by (intro wp_mono [OF preserves_wp [OF assms(2)]]) auto
  then show ?thesis
    using assms(1) unfolding settles_or_panics_def wp_bind wp_return
    by (blast intro: wp_mono)
qed

lemma message_handlerI: "(\<And>m. settles_or_panics (h m)) \<Longrightarrow> message_handler h"
  
proof
  fix m w
  assume "\<And>m. settles_or_panics (h m)"
  then have "wp (h m) (\<lambda>r w'. if r = Done then \<exists>d. settled w' = settled w @ [d]
                           else r = Panic \<and> settled w' = settled w) w"
    unfolding settles_or_panics_def by blast
  then show "wp (h m) (\<lambda>r w'. if r = Done then \<exists>d. settled w' = settled w @ [d] else settled w' = settled w) w"
    by (rule wp_mono) presburger
qed

section \<open>SES\<close>

record SendEmailInput =
  in_From :: string
  in_FromName :: string
  in_To :: "string list"
  in_ReplyTo :: "string list"
  in_Subject :: string
  in_HTMLBody :: string
  in_TextBody :: string
  in_Tags :: "(string \<times> string) list"

definition nonempty :: "string \<Rightarrow> string option" where
  "nonempty s = (if s = '''' then None else Some s)"

definition ses_request :: "SendEmailInput \<Rightarrow> ses_message" where
  "ses_request i = \<lparr>
     msg_Source = (if in_FromName i \<noteq> '''' then in_FromName i @ '' <'' @ in_From i @ ''>'' else in_From i),
     msg_To = in_To i, msg_ReplyTo = in_ReplyTo i, msg_Subject = in_Subject i,
     msg_Html = nonempty (in_HTMLBody i), msg_Text = nonempty (in_TextBody i),
     msg_Tags = in_Tags i\<rparr>"

text \<open>
  \<open>ses_api\<close> is the AWS SDK call, a parameter of the world: it rejects the message or accepts it
  with an optional message id (\<^verbatim>\<open>aws.ToString\<close> of a nil pointer is the empty string).
\<close>

definition SendEmail :: "SendEmailInput \<Rightarrow> (world, goerr + string) state" where
  "SendEmail i =
     (if in_To i = [] then State_Monad.return (Inl (Err ''send: empty recipient list''))
      else if in_From i = '''' then State_Monad.return (Inl (Err ''send: empty from address''))
      else call (\<lambda>w. case ses_api (env w) (tick w) (ses_request i) of
             Inl e \<Rightarrow> (Inl e, w)
           | Inr mid \<Rightarrow> (Inr (case mid of None \<Rightarrow> '''' | Some s \<Rightarrow> s),
                          w\<lparr>mail := mail w @ [ses_request i]\<rparr>)))"

lemma preserves_SendEmail [frame]:
  "steady f \<Longrightarrow> (\<And>w m. f (w\<lparr>mail := m\<rparr>) = f w) \<Longrightarrow> preserves f (SendEmail i)"
  unfolding SendEmail_def by (intro frame) (auto split: sum.split)

definition permanentErrorCodes :: "string list" where
  "permanentErrorCodes =
     [''MessageRejected'', ''MailFromDomainNotVerifiedException'',
      ''ConfigurationSetDoesNotExistException'', ''ConfigurationSetSendingPausedException'',
      ''AccountSendingPausedException'', ''InvalidParameterValue'', ''InvalidRenderingParameter'',
      ''AccessDeniedException'', ''ValidationException'']"

definition IsPermanentError :: "goerr \<Rightarrow> bool" where
  "IsPermanentError e =
     (case err_root e of APIError code _ \<Rightarrow> code \<in> set permanentErrorCodes | _ \<Rightarrow> False)"

datatype VerificationStatus = StatusVerified | StatusPending | StatusFailed

definition CheckDomainVerification :: "string \<Rightarrow> (world, goerr + VerificationStatus) state" where
  "CheckDomainVerification domain = do {
     r \<leftarrow> call (\<lambda>w. (identity_api (env w) (tick w) domain, w));
     State_Monad.return
       (case r of
          Inl e \<Rightarrow> Inl (Wrap ''ses get verification'' e)
        | Inr None \<Rightarrow> Inr StatusPending
        | Inr (Some s) \<Rightarrow> Inr
            (if s = ''SUCCESS'' then StatusVerified
             else if s = ''FAILED'' \<or> s = ''TEMPORARY_FAILURE'' then StatusFailed
             else StatusPending))
   }"

lemma preserves_CheckDomainVerification [frame]: "steady f \<Longrightarrow> preserves f (CheckDomainVerification d)"
  unfolding CheckDomainVerification_def by (intro frame) auto

lemma IsPermanentError_Wrap [simp]: "IsPermanentError (Wrap p e) = IsPermanentError e"
  by (simp add: IsPermanentError_def)

section \<open>Chains that send at most once\<close>

lemma wp_SendEmail_mail:
  assumes "errors_mean_nothing_done (env w)"
  shows "wp (SendEmail i) (\<lambda>r w'. env w' = env w \<and>
    (case r of Inl _ \<Rightarrow> mail w' = mail w | Inr _ \<Rightarrow> mail w' = mail w @ [ses_request i])) w"
  using assms
  by (auto simp: SendEmail_def wp_rules errors_mean_nothing_done_def split: fault.split sum.split)

lemma wp_any: "(\<And>x w'. wp (f x) Q w') \<Longrightarrow> wp (State_Monad.bind m f) Q w"
  by (simp add: wp_bind) (simp add: wp_def)

definition sends_once :: "(world, hresult) state \<Rightarrow> bool" where
  "sends_once m \<longleftrightarrow> (\<forall>w. errors_mean_nothing_done (env w) \<longrightarrow>
     wp m (\<lambda>_ w'. mail w' = mail w \<or> (\<exists>x. mail w' = mail w @ [x]) \<and> last (settled w') = Ack) w)"

named_theorems send_rules

lemma sends_bind [send_rules]:
  assumes "preserves mail m" and "preserves env m" and "\<And>x. sends_once (f x)"
  shows "sends_once (State_Monad.bind m f)"
proof -
  have m: "preserves (\<lambda>w. (mail w, env w)) m"
    using assms(1,2) by (auto simp: preserves_def)
  have f: "wp (f x) (\<lambda>_ w'. mail w' = mail w \<or> (\<exists>x. mail w' = mail w @ [x]) \<and> last (settled w') = Ack) w1"
    if "errors_mean_nothing_done (env w)" and "(mail w1, env w1) = (mail w, env w)" for x w w1
    using assms(3) [unfolded sends_once_def, rule_format, of w1 x] that by simp
  show ?thesis
    unfolding sends_once_def wp_bind
    by (intro allI impI, rule wp_mono [OF preserves_wp [OF m]]) (rule f)
qed

lemma sends_finish [send_rules]: "sends_once (finish d)"
  by (simp add: sends_once_def wp_rules)

lemma sends_if [send_rules]:
  "(b \<Longrightarrow> sends_once m) \<Longrightarrow> (\<not> b \<Longrightarrow> sends_once n) \<Longrightarrow> sends_once (if b then m else n)"
  by simp

lemma sends_case_option [send_rules]:
  "sends_once m \<Longrightarrow> (\<And>x. sends_once (g x)) \<Longrightarrow> sends_once (case v of None \<Rightarrow> m | Some x \<Rightarrow> g x)"
  by (cases v) auto

lemma sends_case_sum [send_rules]:
  "(\<And>e. sends_once (m e)) \<Longrightarrow> (\<And>x. sends_once (g x)) \<Longrightarrow>
   sends_once (case v of Inl e \<Rightarrow> m e | Inr x \<Rightarrow> g x)"
  by (cases v) auto

lemma sends_case_prod [send_rules]:
  "(\<And>x y. sends_once (g x y)) \<Longrightarrow> sends_once (case p of (x, y) \<Rightarrow> g x y)"
  by (cases p) auto

lemma single_send_handlerI:
  "(\<And>m. settles_once (h m)) \<Longrightarrow> (\<And>m. preserves env (h m)) \<Longrightarrow> (\<And>m. sends_once (h m)) \<Longrightarrow>
   single_send_handler h"
  by unfold_locales (auto simp: settles_once_def sends_once_def wp_def)

text \<open>The send itself: quiet after an error, quiet and acknowledged after a success.\<close>

lemma sends_SendEmail:
  assumes "\<And>e. preserves mail (f (Inl e))"
    and "\<And>x. preserves mail (f (Inr x))" and "\<And>x w. wp (f (Inr x)) (\<lambda>_ w'. last (settled w') = Ack) w"
  shows "sends_once (State_Monad.bind (SendEmail i) f)"
  unfolding sends_once_def wp_bind
proof (intro allI impI, rule wp_mono [OF wp_SendEmail_mail], assumption)
  fix w w1 :: world and r :: "goerr + string"
  assume r: "env w1 = env w \<and>
    (case r of Inl _ \<Rightarrow> mail w1 = mail w | Inr _ \<Rightarrow> mail w1 = mail w @ [ses_request i])"
  show "wp (f r) (\<lambda>_ w'. mail w' = mail w \<or> (\<exists>x. mail w' = mail w @ [x]) \<and> last (settled w') = Ack) w1"
  proof (cases r)
    case (Inl e)
    with r have "mail w1 = mail w" by simp
    with Inl show ?thesis
      by (simp, intro wp_mono [OF preserves_wp [OF assms(1)]]) simp
  next
    case (Inr x)
    have "wp (f (Inr x)) (\<lambda>_ w'. mail w' = mail w1 \<and> last (settled w') = Ack) w1"
      by (rule wp_conj [OF preserves_wp [OF assms(2)] assms(3)])
    moreover have "mail w1 = mail w @ [ses_request i]" using r Inr by simp
    ultimately show ?thesis unfolding Inr by (elim wp_mono) auto
  qed
qed

end
