(* ===== verification/GoStrings.thy ===== *)
theory GoStrings
  imports Prelude
begin

text \<open>
  The functions of Go's \<^verbatim>\<open>strings\<close> and \<^verbatim>\<open>regexp\<close> packages that the program uses, on strings of
  bytes: \<open>TrimSpace\<close>, prefix and suffix tests, substring search, ASCII case mapping, replacement of
  the matches of a character-class regular expression, and decimal numerals.
\<close>

section \<open>Spaces\<close>

abbreviation NL :: char where "NL \<equiv> CHR 0x0A"
abbreviation SP :: char where "SP \<equiv> CHR '' ''"

text \<open>
  The UTF-8 encodings of the code points for which \<^verbatim>\<open>unicode.IsSpace\<close> holds. A lead byte never
  occurs inside a longer encoding, so trimming may work on the bytes.
\<close>

definition space_codes :: "string list" where
  "space_codes =
     [[CHR 0x09], [CHR 0x0A], [CHR 0x0B], [CHR 0x0C], [CHR 0x0D], [SP],
      [CHR 0xC2, CHR 0x85], [CHR 0xC2, CHR 0xA0], [CHR 0xE1, CHR 0x9A, CHR 0x80],
      [CHR 0xE2, CHR 0x80, CHR 0x80], [CHR 0xE2, CHR 0x80, CHR 0x81], [CHR 0xE2, CHR 0x80, CHR 0x82],
      [CHR 0xE2, CHR 0x80, CHR 0x83], [CHR 0xE2, CHR 0x80, CHR 0x84], [CHR 0xE2, CHR 0x80, CHR 0x85],
      [CHR 0xE2, CHR 0x80, CHR 0x86], [CHR 0xE2, CHR 0x80, CHR 0x87], [CHR 0xE2, CHR 0x80, CHR 0x88],
      [CHR 0xE2, CHR 0x80, CHR 0x89], [CHR 0xE2, CHR 0x80, CHR 0x8A], [CHR 0xE2, CHR 0x80, CHR 0xA8],
      [CHR 0xE2, CHR 0x80, CHR 0xA9], [CHR 0xE2, CHR 0x80, CHR 0xAF], [CHR 0xE2, CHR 0x81, CHR 0x9F],
      [CHR 0xE3, CHR 0x80, CHR 0x80]]"

fun strip_prefix :: "string \<Rightarrow> string \<Rightarrow> string option" where
  "strip_prefix [] s = Some s"
| "strip_prefix (c # p) [] = None"
| "strip_prefix (c # p) (d # s) = (if c = d then strip_prefix p s else None)"

lemma strip_prefix_Some: "strip_prefix p s = Some r \<longleftrightarrow> s = p @ r"
  by (induction p s rule: strip_prefix.induct) auto

fun first_prefix :: "string list \<Rightarrow> string \<Rightarrow> string option" where
  "first_prefix [] s = None"
| "first_prefix (p # ps) s = (case strip_prefix p s of Some r \<Rightarrow> Some r | None \<Rightarrow> first_prefix ps s)"

lemma first_prefix_Some: "first_prefix ps s = Some r \<Longrightarrow> \<exists>p \<in> set ps. s = p @ r"
  by (induction ps) (auto simp: strip_prefix_Some split: option.splits)

text \<open>Strip the codes of \<open>ps\<close> from the front for as long as one is there.\<close>

function trim_front :: "string list \<Rightarrow> string \<Rightarrow> string" where
  "trim_front ps s =
     (case first_prefix (filter (\<lambda>p. p \<noteq> []) ps) s of None \<Rightarrow> s | Some r \<Rightarrow> trim_front ps r)"
  by pat_completeness auto
termination
  by (relation "measure (\<lambda>(ps, s). length s)") (auto dest!: first_prefix_Some)

declare trim_front.simps [simp del]

definition TrimSpace :: "string \<Rightarrow> string" where
  "TrimSpace s = rev (trim_front (map rev space_codes) (rev (trim_front space_codes s)))"

lemma trim_front_suffix: "\<exists>u. s = u @ trim_front ps s"
proof (induction ps s rule: trim_front.induct)
  case (1 ps s)
  show ?case
  proof (cases "first_prefix (filter (\<lambda>p. p \<noteq> []) ps) s")
    case None
    then show ?thesis by (simp add: trim_front.simps [of ps s])
  next
    case (Some r)
    then obtain p u where "s = p @ r" and "r = u @ trim_front ps r"
      using 1 first_prefix_Some by blast
    then have "s = (p @ u) @ trim_front ps r" by simp
    then show ?thesis using Some by (metis option.simps(5) trim_front.simps)
  qed
qed

lemma TrimSpace_infix: "\<exists>u v. s = u @ TrimSpace s @ v"
proof -
  obtain u where u: "s = u @ trim_front space_codes s" using trim_front_suffix by blast
  obtain v where "rev (trim_front space_codes s) =
      v @ trim_front (map rev space_codes) (rev (trim_front space_codes s))"
    using trim_front_suffix by blast
  then have "trim_front space_codes s = TrimSpace s @ rev v"
    by (metis TrimSpace_def rev_append rev_rev_ident)
  with u show ?thesis by metis
qed

section \<open>Prefixes, suffixes, substrings, case\<close>

definition HasPrefix :: "string \<Rightarrow> string \<Rightarrow> bool" where
  "HasPrefix s p \<longleftrightarrow> strip_prefix p s \<noteq> None"

definition TrimPrefix :: "string \<Rightarrow> string \<Rightarrow> string" where
  "TrimPrefix s p = (case strip_prefix p s of None \<Rightarrow> s | Some r \<Rightarrow> r)"

definition HasSuffix :: "string \<Rightarrow> string \<Rightarrow> bool" where
  "HasSuffix s p \<longleftrightarrow> HasPrefix (rev s) (rev p)"

fun Contains :: "string \<Rightarrow> string \<Rightarrow> bool" where
  "Contains [] p = (p = [])"
| "Contains (c # s) p = (HasPrefix (c # s) p \<or> Contains s p)"

lemma HasPrefix_iff: "HasPrefix s p \<longleftrightarrow> (\<exists>r. s = p @ r)"
  by (auto simp: HasPrefix_def strip_prefix_Some)

lemma HasSuffix_iff: "HasSuffix s p \<longleftrightarrow> (\<exists>r. s = r @ p)"
  by (metis HasSuffix_def HasPrefix_iff rev_append rev_rev_ident)

lemma Contains_iff: "Contains s p \<longleftrightarrow> (\<exists>u v. s = u @ p @ v)"
proof (induction s)
  case Nil
  then show ?case by auto
next
  case (Cons c s)
  then show ?case
    by (simp add: HasPrefix_iff) (metis append_Cons append_Nil list.exhaust list.sel(3) list.sel(1))
qed

definition to_lower :: "char \<Rightarrow> char" where
  "to_lower c = (let n = of_char c :: nat in if 65 \<le> n \<and> n \<le> 90 then char_of (n + 32) else c)"

definition to_upper :: "char \<Rightarrow> char" where
  "to_upper c = (let n = of_char c :: nat in if 97 \<le> n \<and> n \<le> 122 then char_of (n - 32) else c)"

definition ToLower :: "string \<Rightarrow> string" where
  "ToLower s = map to_lower s"

definition ToUpper :: "string \<Rightarrow> string" where
  "ToUpper s = map to_upper s"

section \<open>Regular expressions of the form \<^verbatim>\<open>[class]{k,}\<close>\<close>

text \<open>
  \<open>replace_runs p k rep s\<close> replaces every maximal run of at least \<open>k\<close> characters of the class \<open>p\<close>
  by \<open>rep\<close>: \<^verbatim>\<open>ReplaceAllString\<close> of a greedy quantified character class.
\<close>

function replace_runs :: "(char \<Rightarrow> bool) \<Rightarrow> nat \<Rightarrow> string \<Rightarrow> string \<Rightarrow> string" where
  "replace_runs p k rep [] = []"
| "replace_runs p k rep (c # cs) =
     (if p c
      then (let run = c # takeWhile p cs in (if k \<le> length run then rep else run))
           @ replace_runs p k rep (dropWhile p cs)
      else c # replace_runs p k rep cs)"
  by pat_completeness auto
termination
  by (relation "measure (\<lambda>(p, k, rep, s). length s)") (auto simp: le_imp_less_Suc length_dropWhile_le)

text \<open>\<open>ok_runs p k n s\<close>: every run of \<open>p\<close> has at most \<open>k\<close> characters, the first one after \<open>n\<close> seen.\<close>

fun ok_runs :: "(char \<Rightarrow> bool) \<Rightarrow> nat \<Rightarrow> nat \<Rightarrow> string \<Rightarrow> bool" where
  "ok_runs p k n [] = True"
| "ok_runs p k n (c # s) = (if p c then Suc n \<le> k \<and> ok_runs p k (Suc n) s else ok_runs p k 0 s)"

lemma ok_runs_mono: "ok_runs p k n s \<Longrightarrow> m \<le> n \<Longrightarrow> ok_runs p k m s"
proof (induction s arbitrary: n m)
  case (Cons c s)
  then show ?case by (auto split: if_splits)
qed simp

lemma ok_runs_prefix: "ok_runs p k n (u @ v) \<Longrightarrow> ok_runs p k n u"
  by (induction u arbitrary: n) (auto split: if_splits)

lemma ok_runs_suffix: "ok_runs p k n (u @ v) \<Longrightarrow> ok_runs p k 0 v"
  by (induction u arbitrary: n) (auto split: if_splits intro: ok_runs_mono)

lemma ok_runs_infix: "ok_runs p k n (u @ s @ v) \<Longrightarrow> ok_runs p k 0 s"
  by (meson ok_runs_prefix ok_runs_suffix)

lemma ok_runs_TrimSpace: "ok_runs p k n s \<Longrightarrow> ok_runs p k 0 (TrimSpace s)"
  by (metis TrimSpace_infix ok_runs_infix)

lemma ok_runs_all:
  assumes "\<forall>c \<in> set u. p c" and "n + length u \<le> k" and "v = [] \<or> \<not> p (hd v)"
  shows "ok_runs p k n (u @ v) = ok_runs p k 0 v"
  using assms
proof (induction u arbitrary: n)
  case Nil
  then show ?case by (cases v) auto
next
  case (Cons c u)
  then show ?case by simp
qed

lemma hd_replace_runs:
  "v = [] \<or> \<not> p (hd v) \<Longrightarrow> replace_runs p k rep v = [] \<or> \<not> p (hd (replace_runs p k rep v))"
  by (cases v) auto

lemma dropWhile_hd: "dropWhile p s = [] \<or> \<not> p (hd (dropWhile p s))"
  by (induction s) auto

text \<open>The replaced string has no long run left, and runs of another class do not grow.\<close>

lemma ok_runs_replace:
  "\<forall>c \<in> set rep. p c \<Longrightarrow> length rep \<le> j \<Longrightarrow> k \<le> Suc j \<Longrightarrow> ok_runs p j 0 (replace_runs p k rep s)"
proof (induction p k rep s rule: replace_runs.induct)
  case (1 p k rep)
  then show ?case by simp
next
  case (2 p k rep c cs)
  show ?case
  proof (cases "p c")
    case True
    define run where "run = c # takeWhile p cs"
    define out where "out = (if k \<le> length run then rep else run)"
    have "\<forall>x \<in> set out. p x" and "length out \<le> j"
      using True 2(3-5) by (auto simp: out_def run_def dest: set_takeWhileD)
    moreover have "ok_runs p j 0 (replace_runs p k rep (dropWhile p cs))"
      using 2 True by simp
    moreover note hd_replace_runs [of "dropWhile p cs" p k rep, OF dropWhile_hd]
    ultimately have "ok_runs p j 0 (out @ replace_runs p k rep (dropWhile p cs))"
      using ok_runs_all [of out p 0 j] by simp
    moreover have "replace_runs p k rep (c # cs) = out @ replace_runs p k rep (dropWhile p cs)"
      using True by (simp add: run_def out_def Let_def)
    ultimately show ?thesis by (simp only:)
  qed (use 2 in simp)
qed

lemma ok_runs_replace_other:
  "(\<And>c. p c \<Longrightarrow> \<not> q c) \<Longrightarrow> rep \<noteq> [] \<Longrightarrow> \<forall>c \<in> set rep. p c \<Longrightarrow> ok_runs q j n s \<Longrightarrow>
   ok_runs q j n (replace_runs p k rep s)"
proof (induction p k rep s arbitrary: n rule: replace_runs.induct)
  case (1 p k rep)
  then show ?case by simp
next
  case (2 p k rep c cs)
  have reset: "ok_runs q j m (u @ v) = ok_runs q j 0 v"
    if "u \<noteq> []" and "\<forall>c \<in> set u. p c" for u v m
    using that
  proof (induction u arbitrary: m)
    case (Cons x u)
    then show ?case using 2(3) by (cases u) auto
  qed simp
  show ?case
  proof (cases "p c")
    case True
    define run where "run = c # takeWhile p cs"
    define out where "out = (if k \<le> length run then rep else run)"
    have o: "out \<noteq> []" "\<forall>x \<in> set out. p x" and r: "run \<noteq> []" "\<forall>x \<in> set run. p x"
      using True 2(4,5) by (auto simp: out_def run_def dest: set_takeWhileD)
    have "ok_runs q j n (run @ dropWhile p cs)"
      using 2(6) by (simp add: run_def)
    then have "ok_runs q j 0 (dropWhile p cs)" using r reset by simp
    then have "ok_runs q j 0 (replace_runs p k rep (dropWhile p cs))"
      using 2 True by simp
    then have "ok_runs q j n (out @ replace_runs p k rep (dropWhile p cs))"
      using o reset by simp
    moreover have "replace_runs p k rep (c # cs) = out @ replace_runs p k rep (dropWhile p cs)"
      using True by (simp add: run_def out_def Let_def)
    ultimately show ?thesis by (simp only:)
  qed (use 2 in \<open>auto split: if_splits\<close>)
qed

section \<open>Decimal numerals\<close>

text \<open>\<^verbatim>\<open>%d\<close> of a non-negative number.\<close>

definition digit_char :: "nat \<Rightarrow> char" where
  "digit_char d = char_of (48 + d)"

fun show_nat :: "nat \<Rightarrow> string" where
  "show_nat n = (if n < 10 then [digit_char n] else show_nat (n div 10) @ [digit_char (n mod 10)])"

declare show_nat.simps [simp del]

lemma digit_char_inject: "a < 10 \<Longrightarrow> b < 10 \<Longrightarrow> digit_char a = digit_char b \<Longrightarrow> a = b"
proof -
  assume "a < 10" "b < 10" "digit_char a = digit_char b"
  then have "of_char (char_of (48 + a) :: char) = (of_char (char_of (48 + b) :: char) :: nat)"
    by (simp add: digit_char_def)
  with \<open>a < 10\<close> \<open>b < 10\<close> show "a = b" by (simp add: of_char_of)
qed

lemma show_nat_nonempty [simp]: "show_nat n \<noteq> []" "[] \<noteq> show_nat n"
  by (subst show_nat.simps; simp)+

lemma show_nat_inject: "show_nat a = show_nat b \<Longrightarrow> a = b"
proof (induction a arbitrary: b rule: show_nat.induct)
  case (1 a)
  have "last (show_nat a) = digit_char (a mod 10)" and "last (show_nat b) = digit_char (b mod 10)"
    by (simp_all add: show_nat.simps [of a] show_nat.simps [of b])
  then have m: "a mod 10 = b mod 10"
    using 1(2) digit_char_inject [of "a mod 10" "b mod 10"] by simp
  have "a div 10 = b div 10"
  proof (cases "a < 10 \<or> b < 10")
    case True
    then show ?thesis using 1(2)
      by (auto simp: show_nat.simps [of a] show_nat.simps [of b] split: if_splits)
  next
    case False
    then have "show_nat (a div 10) = show_nat (b div 10)"
      using 1(2) by (simp add: show_nat.simps [of a] show_nat.simps [of b])
    then show ?thesis using 1(1) False by simp
  qed
  with m show ?case by (metis div_mult_mod_eq)
qed

end
