(* ===== verification/GoTime.thy ===== *)
theory GoTime
  imports GoStrings RateLimit
begin

text \<open>
  Times are nanoseconds since the epoch. \<open>rfc3339\<close> is \<^verbatim>\<open>t.UTC().Format(time.RFC3339)\<close> for the
  years with four digits; the civil date of a day number is computed in the proleptic Gregorian
  calendar, with the year starting in March.
\<close>

definition civil_from_days :: "int \<Rightarrow> int \<times> int \<times> int" where
  "civil_from_days days =
     (let z = days + 719468;
          era = z div 146097;
          doe = z mod 146097;
          yoe = (doe - doe div 1460 + doe div 36524 - doe div 146096) div 365;
          doy = doe - (365 * yoe + yoe div 4 - yoe div 100);
          mp = (5 * doy + 2) div 153;
          d = doy - (153 * mp + 2) div 5 + 1;
          m = (if mp < 10 then mp + 3 else mp - 9);
          y = yoe + era * 400 + (if m \<le> 2 then 1 else 0)
      in (y, m, d))"

definition padded :: "nat \<Rightarrow> int \<Rightarrow> string" where
  "padded width n = (let s = show_nat (nat n) in replicate (width - length s) (CHR ''0'') @ s)"

definition rfc3339 :: "int \<Rightarrow> string" where
  "rfc3339 t =
     (let secs = t div Second; s = secs mod 86400; (y, m, d) = civil_from_days (secs div 86400)
      in padded 4 y @ ''-'' @ padded 2 m @ ''-'' @ padded 2 d @ ''T'' @
         padded 2 (s div 3600) @ '':'' @ padded 2 (s div 60 mod 60) @ '':'' @ padded 2 (s mod 60) @ ''Z'')"

lemma rfc3339_epoch: "rfc3339 0 = ''1970-01-01T00:00:00Z''"
  by code_simp

lemma rfc3339_leap_day: "rfc3339 (1709210096 * Second) = ''2024-02-29T12:34:56Z''"
  by code_simp

end
