(* ===== verification/GoValues.thy ===== *)
theory GoValues
  imports GoTime Payloads
begin

text \<open>
  Dynamic Go values as the program gets them from \<^verbatim>\<open>encoding/json\<close>: the text \<^verbatim>\<open>%v\<close> prints, the
  number \<^verbatim>\<open>strconv.ParseFloat\<close> reads, and the order on floats. A JSON number is kept as its
  decimal, which is what \<^verbatim>\<open>float64\<close> prints back for up to fifteen digits; rounding beyond that is
  not modelled, and neither are hexadecimal literals and digit separators in \<^verbatim>\<open>ParseFloat\<close>.
\<close>

section \<open>Printing\<close>

definition show_int :: "int \<Rightarrow> string" where
  "show_int n = (if n < 0 then ''-'' @ show_nat (nat (- n)) else show_nat (nat n))"

function strip_zeros :: "nat \<Rightarrow> int \<Rightarrow> nat \<times> int" where
  "strip_zeros m e = (if m \<noteq> 0 \<and> m mod 10 = 0 then strip_zeros (m div 10) (e + 1) else (m, e))"
  by pat_completeness auto
termination by (relation "measure fst") auto

declare strip_zeros.simps [simp del]

text \<open>\<^verbatim>\<open>%v\<close> of a \<^verbatim>\<open>float64\<close>: shortest digits, with an exponent below \<^verbatim>\<open>1e-4\<close> and from \<^verbatim>\<open>1e21\<close> on.\<close>

definition show_exponent :: "int \<Rightarrow> string" where
  "show_exponent x = (if x < 0 then ''e-'' else ''e+'') @ padded 2 \<bar>x\<bar>"

definition show_decimal :: "nat \<Rightarrow> int \<Rightarrow> string" where
  "show_decimal m0 e0 =
     (if m0 = 0 then ''0'' else
      case strip_zeros m0 e0 of (m, e) \<Rightarrow>
        let ds = show_nat m; x = int (length ds) - 1 + e in
        if x < -4 \<or> 21 \<le> x then
          take 1 ds @ (if length ds = 1 then '''' else ''.'' @ drop 1 ds) @ show_exponent x
        else if 0 \<le> e then ds @ replicate (nat e) (CHR ''0'')
        else if 0 \<le> x then take (nat (x + 1)) ds @ ''.'' @ drop (nat (x + 1)) ds
        else ''0.'' @ replicate (nat (- x - 1)) (CHR ''0'') @ ds)"

definition show_num :: "int \<Rightarrow> int \<Rightarrow> string" where
  "show_num m e = (if m < 0 then ''-'' @ show_decimal (nat (- m)) e else show_decimal (nat m) e)"

fun join :: "string list \<Rightarrow> string" where
  "join [] = ''''"
| "join [s] = s"
| "join (s # t # ss) = s @ '' '' @ join (t # ss)"

text \<open>\<^verbatim>\<open>fmt.Sprintf("%v", x)\<close>; a map prints its entries in the order of the keys.\<close>

fun sprint :: "json \<Rightarrow> string" where
  "sprint JNull = ''<nil>''"
| "sprint (JBool b) = (if b then ''true'' else ''false'')"
| "sprint (JNum m e) = show_num m e"
| "sprint (JStr s) = s"
| "sprint (JArr xs) = ''['' @ join (map sprint xs) @ '']''"
| "sprint (JObj kvs) = ''map['' @ join (map (\<lambda>(k, s). k @ '':'' @ s)
     (sort_key fst (map (\<lambda>(k, v). (k, sprint v)) kvs))) @ '']''"

section \<open>Reading numbers\<close>

datatype fl = Fin rat | Inf bool | NaN

fun fl_less :: "fl \<Rightarrow> fl \<Rightarrow> bool" where
  "fl_less (Fin a) (Fin b) = (a < b)"
| "fl_less (Fin a) (Inf neg) = (\<not> neg)"
| "fl_less (Inf neg) (Fin b) = neg"
| "fl_less (Inf n1) (Inf n2) = (n1 \<and> \<not> n2)"
| "fl_less NaN y = False"
| "fl_less x NaN = False"

definition is_digit :: "char \<Rightarrow> bool" where
  "is_digit c \<longleftrightarrow> CHR ''0'' \<le> c \<and> c \<le> CHR ''9''"

fun digits_value :: "nat \<Rightarrow> string \<Rightarrow> nat" where
  "digits_value n [] = n"
| "digits_value n (c # cs) = digits_value (10 * n + (of_char c - 48)) cs"

definition scale10 :: "rat \<Rightarrow> int \<Rightarrow> rat" where
  "scale10 m e = (if 0 \<le> e then m * 10 ^ nat e else m / 10 ^ nat (- e))"

definition float_overflow :: "rat \<Rightarrow> bool" where
  "float_overflow x \<longleftrightarrow> 2 ^ 1024 - 2 ^ 970 \<le> \<bar>x\<bar>"

definition parse_sign :: "string \<Rightarrow> bool \<times> string" where
  "parse_sign s =
     (case s of
        [] \<Rightarrow> (False, [])
      | c # cs \<Rightarrow> if c = CHR ''+'' then (False, cs) else if c = CHR ''-'' then (True, cs) else (False, s))"

definition parse_exponent :: "string \<Rightarrow> int option" where
  "parse_exponent s =
     (case s of
        [] \<Rightarrow> Some 0
      | c # cs \<Rightarrow>
          if c = CHR ''e'' \<or> c = CHR ''E'' then
            (case parse_sign cs of (neg, ds) \<Rightarrow>
               if ds \<noteq> [] \<and> list_all is_digit ds
               then Some ((if neg then - 1 else 1) * int (digits_value 0 ds)) else None)
          else None)"

definition parse_decimal :: "string \<Rightarrow> rat option" where
  "parse_decimal s =
     (let ip = takeWhile is_digit s; r = dropWhile is_digit s;
          (fp, r) = (case r of
             [] \<Rightarrow> ([], [])
           | c # cs \<Rightarrow> if c = CHR ''.'' then (takeWhile is_digit cs, dropWhile is_digit cs) else ([], r))
      in if ip = [] \<and> fp = [] then None
         else case parse_exponent r of
           None \<Rightarrow> None
         | Some e \<Rightarrow> Some (scale10 (of_nat (digits_value 0 (ip @ fp))) (e - int (length fp))))"

definition ParseFloat :: "string \<Rightarrow> fl option" where
  "ParseFloat s =
     (case parse_sign s of (neg, r) \<Rightarrow>
        if ToLower r = ''inf'' \<or> ToLower r = ''infinity'' then Some (Inf neg)
        else if ToLower s = ''nan'' then Some NaN
        else case parse_decimal r of
          None \<Rightarrow> None
        | Some x \<Rightarrow> if float_overflow x then None else Some (Fin (if neg then - x else x)))"

text \<open>
  \<open>toFloat\<close> on what JSON and the contact columns provide: numbers and strings convert, anything else
  is an error.
\<close>

fun toFloat :: "json \<Rightarrow> fl option" where
  "toFloat (JNum m e) = Some (Fin (scale10 (of_int m) e))"
| "toFloat (JStr s) = ParseFloat s"
| "toFloat _ = None"

lemma GoValues_examples:
  "sprint (JArr [JNum 150 (-2), JStr ''a'', JObj [(''b'', JNull), (''a'', JBool True)]]) = ''[1.5 a map[a:true b:<nil>]]''"
  "show_num 1 21 = ''1e+21''" "show_num (-12) (-6) = ''-1.2e-05''" "show_num 25 3 = ''25000''"
  "show_num 5 (-3) = ''0.005''"
  "parse_decimal ''1.5e1'' = Some 15" "parse_decimal ''1.'' = Some 1" "parse_decimal ''.'' = None"
  "ParseFloat ''+Inf'' = Some (Inf False)" "ParseFloat ''12x'' = None"
  by code_simp+

end
