(* ===== verification/Calendar.thy ===== *)
theory Calendar
  imports Main
begin

text \<open>
  The proleptic Gregorian calendar in numbers, for \<^verbatim>\<open>time.Time\<close>: the day number of a civil date, the length
  of a month, and the facts about years and months that make \<open>civil_from_days\<close> of \<open>GoTime\<close> its inverse.
\<close>

definition days_from_civil :: "int \<Rightarrow> int \<Rightarrow> int \<Rightarrow> int" where
  "days_from_civil y m d =
     (let y' = (if m \<le> 2 then y - 1 else y); yoe = y' mod 400; mp = (m + 9) mod 12;
          doy = (153 * mp + 2) div 5 + d - 1
      in y' div 400 * 146097 + (yoe * 365 + yoe div 4 - yoe div 100 + doy) - 719468)"

definition leap_year :: "int \<Rightarrow> bool" where
  "leap_year y \<longleftrightarrow> y mod 4 = 0 \<and> (y mod 100 \<noteq> 0 \<or> y mod 400 = 0)"

definition days_in :: "int \<Rightarrow> int \<Rightarrow> int" where
  "days_in y m = (if m = 2 then (if leap_year y then 29 else 28) else if m = 4 \<or> m = 6 \<or> m = 9 \<or> m = 11 then 30 else 31)"

text \<open>
  \<open>year_start y\<close> is the first day of year \<open>y\<close> within its era of 400 years; the formula of
  \<open>civil_from_days\<close> for the year is monotone, so checking it on both ends of every year is enough.
\<close>

definition year_start :: "int \<Rightarrow> int" where
  "year_start y = 365 * y + y div 4 - y div 100 + y div 400"

definition year_numerator :: "int \<Rightarrow> int" where
  "year_numerator x = x - x div 1460 + x div 36524 - x div 146096"

lemma int_div_step: "0 < n \<Longrightarrow> ((x :: int) + 1) div n = x div n + (if n dvd x + 1 then 1 else 0)"
proof -
  assume n: "0 < n"
  have x: "x = n * (x div n) + x mod n" and m: "0 \<le> x mod n" "x mod n < n" using n by simp_all
  show ?thesis
  proof (cases "x mod n = n - 1")
    case True
    then have e: "x + 1 = n * (x div n + 1) + 0" using x by (simp add: distrib_left)
    then have "n dvd x + 1" by (simp only: add_0_right dvd_triv_left)
    moreover have "(x + 1) div n = x div n + 1" using e by (rule int_div_pos_eq) (use n in simp_all)
    ultimately show ?thesis by simp
  next
    case False
    then have e: "x + 1 = n * (x div n) + (x mod n + 1)" "0 \<le> x mod n + 1" "x mod n + 1 < n" using x m by simp_all
    have "\<not> n dvd x + 1" using int_mod_pos_eq [OF e] m by (simp add: dvd_eq_mod_eq_0)
    then show ?thesis using int_div_pos_eq [OF e] by simp
  qed
qed

lemma year_numerator_step: "year_numerator x \<le> year_numerator (x + 1)"
proof -
  have "36524 dvd y" if "146096 dvd y" for y :: int
    using that by (rule dvd_trans [rotated]) simp
  then show ?thesis by (simp add: year_numerator_def int_div_step)
qed

lemma year_numerator_mono: "x \<le> y \<Longrightarrow> year_numerator x \<le> year_numerator y"
  by (induction y rule: int_ge_induct) (use year_numerator_step order_trans in blast)+

text \<open>A year of the era as \<open>100 b + 4 q + r\<close>: its first day and the formula on it are linear in these.\<close>

lemma year_split:
  assumes "0 \<le> y" and "y \<le> 399"
  obtains b q r :: int where "y = 100 * b + 4 * q + r" "0 \<le> b" "b \<le> 3" "0 \<le> q" "q \<le> 24" "0 \<le> r" "r \<le> 3"
proof (rule that [of "y div 100" "y mod 100 div 4" "y mod 100 mod 4"])
  show "y = 100 * (y div 100) + 4 * (y mod 100 div 4) + y mod 100 mod 4"
    by (metis add.assoc mult_div_mod_eq)
  show "y mod 100 div 4 \<le> 24"
    using zdiv_mono1 [of "y mod 100" 99 4] by simp
  show "y mod 100 mod 4 \<le> 3"
    using pos_mod_bound [of 4 "y mod 100"] by linarith
qed (use assms in simp_all)

lemma year_start_split:
  assumes "0 \<le> b" "b \<le> 3" "0 \<le> q" "q \<le> 24" "0 \<le> r" "r \<le> 3"
  shows "year_start (100 * b + 4 * q + r) = 36524 * b + 1461 * q + 365 * r"
proof -
  have "(100 * b + 4 * q + r) div 4 = 25 * b + q" by (rule int_div_pos_eq [of _ _ _ r]) (use assms in simp_all)
  moreover have "(100 * b + 4 * q + r) div 100 = b" by (rule int_div_pos_eq [of _ _ _ "4 * q + r"]) (use assms in simp_all)
  moreover have "(100 * b + 4 * q + r) div 400 = 0"
    by (rule int_div_pos_eq [of _ _ _ "100 * b + 4 * q + r"]) (use assms in simp_all)
  ultimately show ?thesis by (simp add: year_start_def algebra_simps)
qed

lemma year_start_numerator:
  assumes "0 \<le> y" and "y \<le> 399"
  shows "year_numerator (year_start y) = 365 * y"
proof -
  obtain b q r where y: "y = 100 * b + 4 * q + r" and bs: "0 \<le> b" "b \<le> 3" "0 \<le> q" "q \<le> 24" "0 \<le> r" "r \<le> 3"
    using year_split [OF assms] .
  define x where "x = 36524 * b + 1461 * q + 365 * r"
  have "x div 1460 = 25 * b + q"
    by (rule int_div_pos_eq [of _ _ _ "24 * b + q + 365 * r"]) (use bs in \<open>auto simp: x_def\<close>)
  moreover have "x div 36524 = b"
    by (rule int_div_pos_eq [of _ _ _ "1461 * q + 365 * r"]) (use bs in \<open>auto simp: x_def\<close>)
  moreover have "x div 146096 = 0"
    by (rule int_div_pos_eq [of _ _ _ x]) (use bs in \<open>auto simp: x_def\<close>)
  ultimately have "year_numerator x = x - (25 * b + q) + b - 0" by (simp only: year_numerator_def)
  then show ?thesis using year_start_split [OF bs] by (simp only: y x_def) simp
qed

lemma year_end_numerator:
  assumes "0 \<le> y" and "y \<le> 399"
  shows "year_numerator (year_start (y + 1) - 1) < 365 * (y + 1)"
proof (cases "y = 399")
  case True
  then show ?thesis by (simp add: year_numerator_def year_start_def)
next
  case False
  then have "0 \<le> y + 1" "y + 1 \<le> 399" using assms by simp_all
  then obtain b q r where y: "y + 1 = 100 * b + 4 * q + r" and bs: "0 \<le> b" "b \<le> 3" "0 \<le> q" "q \<le> 24" "0 \<le> r" "r \<le> 3"
    using year_split [of "y + 1"] by blast
  define x where "x = 36524 * b + 1461 * q + 365 * r - 1"
  have pos: "0 < b \<or> 0 < q \<or> 0 < r" using y assms bs by linarith
  have "x div 1460 = 25 * b + q"
    by (rule int_div_pos_eq [of _ _ _ "24 * b + q + 365 * r - 1"]) (use bs pos in \<open>auto simp: x_def\<close>)
  moreover have "x div 36524 \<le> b"
  proof (cases "q = 0 \<and> r = 0")
    case True
    then have "x div 36524 = b - 1"
      by (intro int_div_pos_eq [of _ _ _ 36523]) (simp_all add: x_def)
    then show ?thesis by linarith
  next
    case False
    have "x div 36524 = b"
      by (rule int_div_pos_eq [of _ _ _ "1461 * q + 365 * r - 1"]) (use bs False in \<open>auto simp: x_def\<close>)
    then show ?thesis by simp
  qed
  moreover have "x div 146096 = 0"
    by (rule int_div_pos_eq [of _ _ _ x]) (use bs pos in \<open>auto simp: x_def\<close>)
  ultimately have "year_numerator x \<le> x - (25 * b + q) + b" unfolding year_numerator_def by linarith
  also have "\<dots> < 365 * (100 * b + 4 * q + r)" by (simp add: x_def)
  finally have "year_numerator x < 365 * (100 * b + 4 * q + r)" .
  then show ?thesis using year_start_split [OF bs] by (simp only: y x_def)
qed

lemma leap_day_count:
  "d = 365 + (if P then 1 else 0) - (if Q then 1 else 0) + (if R then 1 else 0) \<Longrightarrow> (l \<longleftrightarrow> P \<and> (\<not> Q \<or> R)) \<Longrightarrow>
   (Q \<Longrightarrow> P) \<Longrightarrow> (R \<Longrightarrow> Q) \<Longrightarrow> (d :: int) = (if l then 366 else 365)"
  by (cases P; cases Q; cases R; simp)

lemma year_length: "year_start (y + 1) - year_start y = (if leap_year (y + 1) then 366 else 365)"
proof (rule leap_day_count)
  have "365 * (y + 1) + (a + i) - (b + j) + (c + k) - (365 * y + a - b + c) = 365 + i - j + k" for a b c i j k :: int
    by (simp add: algebra_simps)
  then show "year_start (y + 1) - year_start y =
      365 + (if 4 dvd y + 1 then 1 else 0) - (if 100 dvd y + 1 then 1 else 0) + (if 400 dvd y + 1 then 1 else 0)"
    by (simp only: year_start_def int_div_step zero_less_numeral)
  show "leap_year (y + 1) \<longleftrightarrow> 4 dvd y + 1 \<and> (\<not> 100 dvd y + 1 \<or> 400 dvd y + 1)"
    by (simp only: leap_year_def mod_eq_0_iff_dvd)
qed (erule dvd_trans [rotated], simp)+

lemma year_located: "0 \<le> x \<Longrightarrow> x < year_start (int n) \<Longrightarrow> \<exists>y. 0 \<le> y \<and> y < int n \<and> year_start y \<le> x \<and> x < year_start (y + 1)"
proof (induction n)
  case 0
  then show ?case by (simp add: year_start_def)
next
  case (Suc n)
  show ?case
  proof (cases "x < year_start (int n)")
    case True
    then show ?thesis using Suc by fastforce
  next
    case False
    with Suc.prems show ?thesis by (intro exI [of _ "int n"]) (simp add: add.commute)
  qed
qed

lemma year_of_day:
  assumes "0 \<le> x" and "x < 146097"
  obtains y where "0 \<le> y" "y \<le> 399" "year_numerator x div 365 = y" "year_start y \<le> x"
    "x - year_start y < (if leap_year (y + 1) then 366 else 365)"
proof -
  have "x < year_start (int 400)" using assms by (simp add: year_start_def)
  then obtain y where y: "0 \<le> y" "y < 400" "year_start y \<le> x" "x < year_start (y + 1)"
    using year_located [OF assms(1), of 400] by auto
  then have "365 * y \<le> year_numerator x"
    using year_numerator_mono [OF y(3)] year_start_numerator [of y] by simp
  moreover have "year_numerator x < 365 * (y + 1)"
    using year_numerator_mono [of x "year_start (y + 1) - 1"] year_end_numerator [of y] y by simp
  ultimately have "year_numerator x div 365 = y" by simp
  with y year_length [of y] show ?thesis by (intro that [of y]) simp_all
qed

definition month_ok :: "int \<Rightarrow> int \<Rightarrow> int \<Rightarrow> int \<Rightarrow> bool" where
  "month_ok doy mp m d \<longleftrightarrow> 1 \<le> m \<and> m \<le> 12 \<and> (m + 9) mod 12 = mp \<and> 1 \<le> d \<and>
     d \<le> (if m = 2 then (if doy = 365 then 29 else 28) else days_in 0 m)"

lemma month_of_day:
  assumes "0 \<le> doy" and "doy \<le> 365" and "mp = (5 * doy + 2) div 153"
  shows "month_ok doy mp (if mp < 10 then mp + 3 else mp - 9) (doy - (153 * mp + 2) div 5 + 1)"
proof -
  have b: "153 * mp \<le> 5 * doy + 2" "5 * doy + 2 < 153 * mp + 153" using assms(3) by linarith+
  then have "0 \<le> mp" "mp \<le> 11" using assms(1,2) by linarith+
  then have "mp = 0 \<or> mp = 1 \<or> mp = 2 \<or> mp = 3 \<or> mp = 4 \<or> mp = 5 \<or> mp = 6 \<or> mp = 7 \<or> mp = 8 \<or>
      mp = 9 \<or> mp = 10 \<or> mp = 11"
    by presburger
  then show ?thesis
    using b assms(1,2) by (elim disjE; hypsubst_thin; simp add: month_ok_def days_in_def)
qed

lemma leap_year_era: "leap_year (y + era * 400) = leap_year y"
proof -
  have m: "(y + era * 400) mod n = y mod n" if "n dvd 400" for n
  proof -
    have "era * 400 mod n = 0" using that by (simp add: dvd_mult)
    then show ?thesis by (metis add.right_neutral mod_add_right_eq)
  qed
  show ?thesis unfolding leap_year_def using m [of 4] m [of 100] m [of 400] by simp
qed

lemma days_in_other: "m \<noteq> 2 \<Longrightarrow> days_in y m = days_in y' m"
  by (simp add: days_in_def)

end
