(* ===== verification/WireTime.thy ===== *)
theory WireTime
  imports GoValues Calendar "HOL-Library.Monad_Syntax"
begin

text \<open>
  The JSON form of \<^verbatim>\<open>time.Time\<close> in the payloads of \<^verbatim>\<open>pkg/types/nats_payloads.go\<close>, and the proof that reading
  undoes writing on the years JSON can carry.
\<close>

section \<open>Times on the wire\<close>

text \<open>
  A \<^verbatim>\<open>time.Time\<close> in UTC is written in \<^verbatim>\<open>RFC3339Nano\<close>: the fraction without trailing zeros. Reading
  accepts what \<^verbatim>\<open>RFC 3339\<close> does; the few other spellings \<^verbatim>\<open>time.Parse\<close> lets through (an hour of one
  digit, a comma before the fraction) are refused here.
\<close>

definition nano_fraction :: "int \<Rightarrow> string" where
  "nano_fraction ns =
     (if ns = 0 then '''' else ''.'' @ rev (dropWhile (\<lambda>c. c = CHR ''0'')
        (rev (padded 3 (ns div 1000000) @ padded 3 (ns div 1000 mod 1000) @ padded 3 (ns mod 1000)))))"

definition rfc3339_nano :: "int \<Rightarrow> string" where
  "rfc3339_nano t = butlast (rfc3339 t) @ nano_fraction (t mod Second) @ ''Z''"

fun digits_int :: "int \<Rightarrow> string \<Rightarrow> int" where
  "digits_int n [] = n"
| "digits_int n (c # cs) = digits_int (10 * n + (of_char c - 48)) cs"

text \<open>A number of exactly \<open>n\<close> digits within bounds, and the rest.\<close>

definition read_uint :: "nat \<Rightarrow> int \<Rightarrow> int \<Rightarrow> string \<Rightarrow> (int \<times> string) option" where
  "read_uint n lo hi s =
     (let ds = take n s; v = digits_int 0 ds in
      if length ds = n \<and> list_all is_digit ds \<and> lo \<le> v \<and> v \<le> hi then Some (v, drop n s) else None)"

fun read_char :: "char \<Rightarrow> string \<Rightarrow> string option" where
  "read_char c (x # s) = (if x = c then Some s else None)"
| "read_char c [] = None"

definition read_fraction :: "string \<Rightarrow> int \<times> string" where
  "read_fraction s =
     (case s of
        p # d # r \<Rightarrow>
          if p = CHR ''.'' \<and> is_digit d then
            (let ds = takeWhile is_digit (d # r)
             in (digits_int 0 (take 9 (ds @ replicate 9 (CHR ''0''))), dropWhile is_digit (d # r)))
          else (0, s)
      | _ \<Rightarrow> (0, s))"

definition read_zone :: "string \<Rightarrow> int option" where
  "read_zone s =
     (if s = ''Z'' then Some 0 else
      case s of
        [] \<Rightarrow> None
      | c # r \<Rightarrow> if c \<noteq> CHR ''+'' \<and> c \<noteq> CHR ''-'' then None else
          do { (h, r) \<leftarrow> read_uint 2 0 23 r; r \<leftarrow> read_char (CHR '':'') r; (m, r) \<leftarrow> read_uint 2 0 59 r;
               if r = [] then Some ((if c = CHR ''-'' then - 1 else 1) * (h * 60 + m) * 60) else None })"

definition parse_rfc3339 :: "string \<Rightarrow> int option" where
  "parse_rfc3339 s = do {
     (y, s) \<leftarrow> read_uint 4 0 9999 s; s \<leftarrow> read_char (CHR ''-'') s;
     (mo, s) \<leftarrow> read_uint 2 1 12 s; s \<leftarrow> read_char (CHR ''-'') s;
     (d, s) \<leftarrow> read_uint 2 1 (days_in y mo) s; s \<leftarrow> read_char (CHR ''T'') s;
     (h, s) \<leftarrow> read_uint 2 0 23 s; s \<leftarrow> read_char (CHR '':'') s;
     (mi, s) \<leftarrow> read_uint 2 0 59 s; s \<leftarrow> read_char (CHR '':'') s;
     (sec, s) \<leftarrow> read_uint 2 0 59 s;
     let (ns, z) = read_fraction s;
     offset \<leftarrow> read_zone z;
     Some ((days_from_civil y mo d * 86400 + h * 3600 + mi * 60 + sec - offset) * Second + ns)
   }"

lemma time_examples:
  "rfc3339_nano (1709210096 * Second + 120000000) = ''2024-02-29T12:34:56.12Z''"
  "parse_rfc3339 ''2024-02-29T12:34:56.12Z'' = Some (1709210096 * Second + 120000000)"
  "parse_rfc3339 ''2024-02-29T14:34:56+02:00'' = Some (1709210096 * Second)"
  "parse_rfc3339 ''2023-02-29T12:34:56Z'' = None" "parse_rfc3339 ''1970-01-01T00:00:00'' = None"
  by code_simp+
section \<open>Reading digits back\<close>

lemma is_digit_char: "d < 10 \<Longrightarrow> is_digit (digit_char d)"
proof -
  assume "d < 10"
  then have "(of_char (digit_char d) :: nat) = 48 + d"
    by (simp add: digit_char_def of_char_of)
  with \<open>d < 10\<close> show ?thesis by (simp add: is_digit_def less_eq_char_def)
qed

lemma of_digit_char [simp]: "d < 10 \<Longrightarrow> (of_char (digit_char d) :: int) = 48 + int d"
proof -
  assume d: "d < 10"
  have "(of_char (digit_char d) :: nat) = 48 + d" using d by (simp add: digit_char_def of_char_of)
  then have "int (of_char (digit_char d)) = 48 + int d" by simp
  then show "(of_char (digit_char d) :: int) = 48 + int d" by (simp only: of_nat_of_char)
qed

lemma digits_int_append: "digits_int n (xs @ [c]) = 10 * digits_int n xs + (of_char c - 48)"
  by (induction n xs rule: digits_int.induct) simp_all

lemma digits_int_show_nat: "digits_int 0 (show_nat k) = int k"
proof (induction k rule: show_nat.induct)
  case (1 k)
  then show ?case
    by (cases "k < 10") (simp_all add: show_nat.simps [of k] digits_int_append, presburger)
qed

lemma show_nat_digits: "list_all is_digit (show_nat k)"
proof (induction k rule: show_nat.induct)
  case (1 k)
  then show ?case
    by (cases "k < 10") (simp_all add: show_nat.simps [of k] is_digit_char)
qed

lemma length_show_nat: "k < 10 ^ n \<Longrightarrow> 0 < n \<Longrightarrow> length (show_nat k) \<le> n"
proof (induction k arbitrary: n rule: show_nat.induct)
  case (1 k)
  show ?case
  proof (cases "k < 10")
    case True
    then show ?thesis using 1 by (simp add: show_nat.simps [of k])
  next
    case False
    then obtain m where n: "n = Suc m" "0 < m"
      using 1(2,3) by (cases n; cases "n = 1") auto
    then have "length (show_nat (k div 10)) \<le> m"
      using 1(1) [OF False, of m] 1(2) by (simp add: less_mult_imp_div_less mult.commute)
    then show ?thesis using False n by (simp add: show_nat.simps [of k])
  qed
qed

lemma digits_int_zeros: "digits_int 0 (replicate n (CHR ''0'') @ s) = digits_int 0 s"
  by (induction n) simp_all

lemma padded_facts:
  assumes "0 \<le> v" and "v < 10 ^ n" and "0 < n"
  shows "length (padded n v) = n" and "list_all is_digit (padded n v)" and "digits_int 0 (padded n v) = v"
proof -
  have "nat v < 10 ^ n" using assms by (simp add: nat_less_iff)
  then have "length (show_nat (nat v)) \<le> n" using assms(3) by (rule length_show_nat)
  then show "length (padded n v) = n" by (simp add: padded_def Let_def)
  have "is_digit (CHR ''0'')" by (simp add: is_digit_def)
  then have "list_all is_digit (replicate k (CHR ''0''))" for k
    by (simp add: list_all_iff)
  then show "list_all is_digit (padded n v)"
    by (simp only: padded_def Let_def list_all_append show_nat_digits)
  show "digits_int 0 (padded n v) = v"
    using assms by (simp add: padded_def Let_def digits_int_zeros digits_int_show_nat)
qed

lemma read_padded:
  "0 \<le> v \<Longrightarrow> v < 10 ^ n \<Longrightarrow> 0 < n \<Longrightarrow> lo \<le> v \<Longrightarrow> v \<le> hi \<Longrightarrow> read_uint n lo hi (padded n v @ s) = Some (v, s)"
  by (simp add: read_uint_def padded_facts Let_def)
section \<open>The civil date and back\<close>

lemma civil_back:
  assumes "civil_from_days z = (y, m, d)"
  shows "days_from_civil y m d = z" and "1 \<le> m" and "m \<le> 12" and "1 \<le> d" and "d \<le> days_in y m"
proof -
  define z' era doe yoe doy mp where defs: "z' = z + 719468" "era = z' div 146097" "doe = z' mod 146097"
    "yoe = (doe - doe div 1460 + doe div 36524 - doe div 146096) div 365"
    "doy = doe - (365 * yoe + yoe div 4 - yoe div 100)" "mp = (5 * doy + 2) div 153"
  define m' where "m' = (if mp < 10 then mp + 3 else mp - 9)"
  have "civil_from_days z = (yoe + era * 400 + (if m' \<le> 2 then 1 else 0), m', doy - (153 * mp + 2) div 5 + 1)"
    by (simp only: civil_from_days_def Let_def defs m'_def)
  then have civil: "d = doy - (153 * mp + 2) div 5 + 1" "m = (if mp < 10 then mp + 3 else mp - 9)"
    "y = yoe + era * 400 + (if m \<le> 2 then 1 else 0)"
    using assms by (simp_all only: prod.inject m'_def [symmetric])
  have doe: "0 \<le> doe" "doe < 146097" by (simp_all add: defs)
  obtain u where u: "0 \<le> u" "u \<le> 399" "year_numerator doe div 365 = u" "year_start u \<le> doe"
    "doe - year_start u < (if leap_year (u + 1) then 366 else 365)"
    using year_of_day [OF doe] .
  have "yoe = u" using u(3) by (simp add: defs year_numerator_def)
  moreover have "year_start u = 365 * u + u div 4 - u div 100" using u by (simp add: year_start_def)
  ultimately have doy: "0 \<le> doy" "doy < (if leap_year (yoe + 1) then 366 else 365)" "0 \<le> yoe" "yoe \<le> 399"
    using u by (simp_all add: defs(5))
  then have "doy \<le> 365" by (simp split: if_splits)
  with doy(1) have "month_ok doy mp m d"
    unfolding civil(1,2) using defs(6) by (rule month_of_day)
  then have checked: "1 \<le> m \<and> m \<le> 12 \<and> (m + 9) mod 12 = mp \<and> 1 \<le> d \<and>
      d \<le> (if m = 2 then (if doy = 365 then 29 else 28) else days_in 0 m)"
    by (simp only: month_ok_def)
  then show "1 \<le> m" "m \<le> 12" "1 \<le> d" by simp_all
  have year: "(if m \<le> 2 then y - 1 else y) = yoe + era * 400" using civil(3) by simp
  have "(yoe + era * 400) mod 400 = yoe" "(yoe + era * 400) div 400 = era" using doy(3,4) by simp_all
  then have "days_from_civil y m d = era * 146097 + doe - 719468"
    using checked civil(1) by (simp add: days_from_civil_def Let_def year defs(5))
  also have "era * 146097 + doe = z'" by (simp add: defs)
  finally show "days_from_civil y m d = z" by (simp add: defs)
  show "d \<le> days_in y m"
  proof (cases "m = 2")
    case True
    then have "y = (yoe + 1) + era * 400" using civil(3) by simp
    then have "leap_year y = leap_year (yoe + 1)" by (simp only: leap_year_era)
    then show ?thesis using True checked doy(2) by (auto simp: days_in_def split: if_splits)
  next
    case False
    then show ?thesis using checked days_in_other [of m y 0] by simp
  qed
qed
section \<open>The fraction and back\<close>

lemma digits_int_shift: "digits_int n s = n * 10 ^ length s + digits_int 0 s"
proof (induction s arbitrary: n)
  case Nil
  then show ?case by simp
next
  case (Cons c s)
  show ?case using Cons [of "10 * n + (of_char c - 48)"] Cons [of "of_char c - 48"]
    by (simp add: algebra_simps)
qed

lemma digits_int_concat: "digits_int n (xs @ ys) = digits_int (digits_int n xs) ys"
  by (induction n xs rule: digits_int.induct) simp_all

definition nine_digits :: "int \<Rightarrow> string" where
  "nine_digits ns = padded 3 (ns div 1000000) @ padded 3 (ns div 1000 mod 1000) @ padded 3 (ns mod 1000)"

lemma nine_digits_facts:
  assumes "0 \<le> ns" and "ns < 1000000000"
  shows "length (nine_digits ns) = 9" and "list_all is_digit (nine_digits ns)" and "digits_int 0 (nine_digits ns) = ns"
proof -
  have r: "0 \<le> ns div 1000000" "ns div 1000000 < 1000" using assms by linarith+
  note p = padded_facts [of _ 3, simplified]
  show "length (nine_digits ns) = 9" using p(1) r by (simp add: nine_digits_def)
  show "list_all is_digit (nine_digits ns)" using p(2) r by (simp add: nine_digits_def)
  have "digits_int n (padded 3 v) = n * 1000 + v" if "0 \<le> v" "v < 1000" for n v
    using p(1,3) [OF that] digits_int_shift [of n "padded 3 v"] by simp
  then have "digits_int 0 (nine_digits ns) = (ns div 1000000 * 1000 + ns div 1000 mod 1000) * 1000 + ns mod 1000"
    using r p(3) [OF r] by (simp add: nine_digits_def digits_int_concat)
  also have "ns div 1000000 = ns div 1000 div 1000" by (simp add: div_mult2_eq [symmetric])
  finally show "digits_int 0 (nine_digits ns) = ns" by simp
qed

lemma read_nano_fraction:
  assumes "0 \<le> ns" and "ns < 1000000000"
  shows "read_fraction (nano_fraction ns @ ''Z'') = (ns, ''Z'')"
proof (cases "ns = 0")
  case True
  then show ?thesis by (simp add: nano_fraction_def read_fraction_def)
next
  case False
  note nine = nine_digits_facts [OF assms]
  define z where "z = (\<lambda>c. c = CHR ''0'')"
  define ds where "ds = rev (dropWhile z (rev (nine_digits ns)))"
  have split: "nine_digits ns = ds @ rev (takeWhile z (rev (nine_digits ns)))"
    by (metis ds_def rev_append rev_rev_ident takeWhile_dropWhile_id)
  have zeros: "rev (takeWhile z (rev (nine_digits ns))) = replicate (9 - length ds) (CHR ''0'')"
  proof (rule replicate_eqI)
    show "length (rev (takeWhile z (rev (nine_digits ns)))) = 9 - length ds"
      using arg_cong [OF split, of length] nine(1) by simp
  qed (auto simp: z_def dest: set_takeWhileD)
  have len: "length ds \<le> 9" using arg_cong [OF split, of length] nine(1) by simp
  have digits: "list_all is_digit ds"
    using nine(2) by (subst (asm) split) simp
  have "ds \<noteq> []"
  proof
    assume "ds = []"
    then have "nine_digits ns = replicate 9 (CHR ''0'')" using split zeros by simp
    then have "digits_int 0 (nine_digits ns) = 0" using digits_int_zeros [of 9 "[]"] by simp
    with nine(3) False show False by simp
  qed
  then obtain d r where dr: "ds = d # r" by (cases ds) auto
  have "take 9 (ds @ replicate 9 (CHR ''0'')) = nine_digits ns"
    using len by (subst split) (simp add: zeros take_append)
  then have val: "digits_int 0 (take 9 (ds @ replicate 9 (CHR ''0''))) = ns" using nine(3) by simp
  have stop: "\<not> is_digit (CHR ''Z'')" by (simp add: is_digit_def less_eq_char_def)
  have "takeWhile is_digit (ds @ ''Z'') = ds" "dropWhile is_digit (ds @ ''Z'') = ''Z''"
    using digits stop by (simp_all add: list_all_iff takeWhile_append dropWhile_append)
  moreover have "nano_fraction ns @ ''Z'' = CHR ''.'' # ds @ ''Z''"
    using False by (simp add: nano_fraction_def nine_digits_def [symmetric] z_def ds_def)
  ultimately show ?thesis
    using digits val dr by (simp add: read_fraction_def)
qed
section \<open>Reading undoes writing\<close>

definition year_of :: "int \<Rightarrow> int" where
  "year_of t = fst (civil_from_days (t div Second div 86400))"

text \<open>\<^verbatim>\<open>json.Marshal\<close> refuses years outside 0 to 9999.\<close>

definition json_time :: "int \<Rightarrow> bool" where
  "json_time t \<longleftrightarrow> 0 \<le> year_of t \<and> year_of t \<le> 9999"

lemma days_in_le: "days_in y m \<le> 31"
  by (simp add: days_in_def)

lemma sexagesimal: "h = q \<Longrightarrow> q * 60 + m = p \<Longrightarrow> p * 60 + sec = t \<Longrightarrow> h * 3600 + m * 60 + sec = (t :: int)"
  by linarith

lemma parse_parts:
  assumes "0 \<le> y" "y \<le> 9999" "1 \<le> m" "m \<le> 12" "1 \<le> d" "d \<le> days_in y m"
    and "0 \<le> h" "h \<le> 23" "0 \<le> mi" "mi \<le> 59" "0 \<le> sec" "sec \<le> 59" "0 \<le> ns" "ns < 1000000000"
  shows "parse_rfc3339 (padded 4 y @ ''-'' @ padded 2 m @ ''-'' @ padded 2 d @ ''T'' @
      padded 2 h @ '':'' @ padded 2 mi @ '':'' @ padded 2 sec @ nano_fraction ns @ ''Z'') =
    Some ((days_from_civil y m d * 86400 + h * 3600 + mi * 60 + sec) * Second + ns)"
proof -
  have "d < 100" using assms(6) days_in_le [of y m] by linarith
  then show ?thesis
    using assms by (simp add: parse_rfc3339_def read_padded read_nano_fraction read_zone_def)
qed

theorem parse_rfc3339_nano: "json_time t \<Longrightarrow> parse_rfc3339 (rfc3339_nano t) = Some t"
proof -
  assume ok: "json_time t"
  define secs s ns where "secs = t div Second" and "s = secs mod 86400" and "ns = t mod Second"
  obtain y m d where civil: "civil_from_days (secs div 86400) = (y, m, d)"
    by (cases "civil_from_days (secs div 86400)") auto
  note date = civil_back [OF civil]
  have y: "0 \<le> y" "y \<le> 9999" using ok civil by (simp_all add: json_time_def year_of_def secs_def)
  have s: "0 \<le> s" "s < 86400" by (simp_all add: s_def)
  have hms: "0 \<le> s div 3600" "s div 3600 \<le> 23" "0 \<le> s div 60 mod 60" "s div 60 mod 60 \<le> 59" "0 \<le> s mod 60" "s mod 60 \<le> 59"
    using s pos_mod_bound [of 60 "s div 60"] pos_mod_bound [of 60 s] by linarith+
  have ns: "0 \<le> ns" "ns < 1000000000" by (simp_all add: ns_def)
  have written: "rfc3339_nano t = padded 4 y @ ''-'' @ padded 2 m @ ''-'' @ padded 2 d @ ''T'' @
      padded 2 (s div 3600) @ '':'' @ padded 2 (s div 60 mod 60) @ '':'' @ padded 2 (s mod 60) @ nano_fraction ns @ ''Z''"
    using civil by (simp add: rfc3339_nano_def rfc3339_def Let_def secs_def s_def ns_def butlast_append)
  have "days_from_civil y m d * 86400 + s div 3600 * 3600 + s div 60 mod 60 * 60 + s mod 60 = secs"
  proof -
    have "s div 3600 * 3600 + s div 60 mod 60 * 60 + s mod 60 = s"
    proof (rule sexagesimal)
      show "s div 3600 = s div 60 div 60" using zdiv_zmult2_eq [of 60 s 60] by simp
    qed (rule div_mult_mod_eq)+
    moreover have "secs div 86400 * 86400 + s = secs" by (simp add: s_def)
    ultimately show ?thesis unfolding date(1) by linarith
  qed
  moreover have "secs * Second + ns = t" by (simp add: secs_def ns_def)
  moreover note parse_parts [OF y date(2-5) hms ns]
  ultimately show ?thesis unfolding written by simp
qed

end
