(* ===== verification/Codec.thy ===== *)
theory Codec
  imports Messaging WireTime "HOL-Library.AList"
begin

text \<open>
  What a payload struct of \<^verbatim>\<open>pkg/types/nats_payloads.go\<close> becomes on the wire and how a consumer
  reads it back: \<^verbatim>\<open>json.Marshal\<close> in \<^verbatim>\<open>internal/queue/producers/publisher.go\<close> and \<^verbatim>\<open>json.Unmarshal\<close> at the
  head of every handler, driven by the struct tags. The wire form is a \<open>json\<close> value, that is, the
  text after lexing; a handler gets \<open>None\<close> for a text that is not JSON and for one whose types do not
  fit the struct.
\<close>

section \<open>Valid UTF-8\<close>

text \<open>
  \<^verbatim>\<open>json.Marshal\<close> replaces every byte that is not part of a valid UTF-8 sequence by the
  replacement character. The ranges are those of \<^verbatim>\<open>utf8.DecodeRune\<close>.
\<close>

definition between :: "nat \<Rightarrow> nat \<Rightarrow> char \<Rightarrow> bool" where
  "between a b c \<longleftrightarrow> a \<le> of_char c \<and> of_char c \<le> b"

fun follows :: "(nat \<times> nat) list \<Rightarrow> string \<Rightarrow> bool" where
  "follows [] s = True"
| "follows (r # rs) [] = False"
| "follows ((a, b) # rs) (c # s) = (between a b c \<and> follows rs s)"

definition rune_tails :: "char \<Rightarrow> (nat \<times> nat) list option" where
  "rune_tails c =
     (if between 0 127 c then Some []
      else if between 194 223 c then Some [(128, 191)]
      else if between 224 224 c then Some [(160, 191), (128, 191)]
      else if between 237 237 c then Some [(128, 159), (128, 191)]
      else if between 225 239 c then Some [(128, 191), (128, 191)]
      else if between 240 240 c then Some [(144, 191), (128, 191), (128, 191)]
      else if between 241 243 c then Some [(128, 191), (128, 191), (128, 191)]
      else if between 244 244 c then Some [(128, 143), (128, 191), (128, 191)]
      else None)"

text \<open>The number of bytes that follow the first of a rune, when the text starts with a rune.\<close>

definition rune_rest :: "char \<Rightarrow> string \<Rightarrow> nat option" where
  "rune_rest c s = (case rune_tails c of None \<Rightarrow> None
     | Some rs \<Rightarrow> if follows rs s then Some (length rs) else None)"

definition replacement :: string where
  "replacement = [CHR 0xEF, CHR 0xBF, CHR 0xBD]"

fun ToValidUTF8 :: "string \<Rightarrow> string" where
  "ToValidUTF8 [] = []"
| "ToValidUTF8 (c # s) = (case rune_rest c s of
     None \<Rightarrow> replacement @ ToValidUTF8 s
   | Some n \<Rightarrow> c # take n s @ ToValidUTF8 (drop n s))"

fun utf8_valid :: "string \<Rightarrow> bool" where
  "utf8_valid [] = True"
| "utf8_valid (c # s) = (case rune_rest c s of None \<Rightarrow> False | Some n \<Rightarrow> utf8_valid (drop n s))"

lemma ToValidUTF8_id [simp]: "utf8_valid s \<Longrightarrow> ToValidUTF8 s = s"
  by (induction s rule: utf8_valid.induct) (auto split: option.splits)

lemma follows_append: "length rs \<le> length s \<Longrightarrow> follows rs (s @ t) = follows rs s"
  by (induction rs s rule: follows.induct) auto

lemma follows_length: "follows rs s \<Longrightarrow> length rs \<le> length s"
  by (induction rs s rule: follows.induct) auto

lemma follows_take: "follows rs s \<Longrightarrow> follows rs (take (length rs) s @ t)"
  by (induction rs s rule: follows.induct) auto

lemma utf8_valid_replacement: "utf8_valid (replacement @ s) = utf8_valid s"
proof -
  have "rune_rest (CHR 0xEF) (CHR 0xBF # CHR 0xBD # s) = Some 2"
    by (simp add: rune_rest_def rune_tails_def between_def)
  then show ?thesis by (simp add: replacement_def numeral_2_eq_2)
qed

text \<open>What \<open>Marshal\<close> writes is always valid, so a second passage changes nothing.\<close>

lemma utf8_valid_ToValidUTF8: "utf8_valid (ToValidUTF8 s)"
proof (induction s rule: ToValidUTF8.induct)
  case 1
  then show ?case by simp
next
  case (2 c s)
  show ?case
  proof (cases "rune_rest c s")
    case None
    then show ?thesis using 2 by (simp add: utf8_valid_replacement)
  next
    case (Some n)
    then obtain rs where rs: "rune_tails c = Some rs" "follows rs s" "n = length rs"
      by (auto simp: rune_rest_def split: option.splits if_splits)
    then have "rune_rest c (take n s @ ToValidUTF8 (drop n s)) = Some n"
      by (simp add: rune_rest_def follows_take)
    moreover have "drop n (take n s @ ToValidUTF8 (drop n s)) = ToValidUTF8 (drop n s)"
      using follows_length [OF rs(2)] rs(3) by simp
    ultimately show ?thesis using Some 2 by simp
  qed
qed

lemma utf8_valid_ascii: "list_all (between 0 127) s \<Longrightarrow> utf8_valid s"
  by (induction s) (auto simp: rune_rest_def rune_tails_def)

lemma UTF8_examples:
  "utf8_valid [CHR 0xC3, CHR 0xA9]" "\<not> utf8_valid [CHR 0xC0, CHR 0x80]" "\<not> utf8_valid [CHR 0xED, CHR 0xA0, CHR 0x80]"
  "ToValidUTF8 [CHR ''a'', CHR 0xFF, CHR ''b''] = ''a'' @ replacement @ ''b''"
  by code_simp+
section \<open>Struct tags\<close>

text \<open>
  Decoding goes into a variable that already has a value: \<^verbatim>\<open>null\<close> leaves it, an object only sets
  the fields it names. A field answers to its tag in any case, where \<^verbatim>\<open>U+017F\<close> and \<^verbatim>\<open>U+212A\<close> count as
  \<^verbatim>\<open>s\<close> and \<^verbatim>\<open>k\<close>; other keys are skipped; a key that comes again decodes again.
\<close>

type_synonym 'a decoder = "json \<Rightarrow> 'a \<Rightarrow> 'a option"

fun fold_name :: "string \<Rightarrow> string" where
  "fold_name (a # b # c # s) =
     (if a = CHR 0xC5 \<and> b = CHR 0xBF then CHR ''S'' # fold_name (c # s)
      else if a = CHR 0xE2 \<and> b = CHR 0x84 \<and> c = CHR 0xAA then CHR ''K'' # fold_name s
      else to_upper a # fold_name (b # c # s))"
| "fold_name [a, b] = (if a = CHR 0xC5 \<and> b = CHR 0xBF then ''S'' else [to_upper a, to_upper b])"
| "fold_name [a] = [to_upper a]"
| "fold_name [] = []"

fun find_field :: "(string \<times> 'd) list \<Rightarrow> string \<Rightarrow> 'd option" where
  "find_field [] k = None"
| "find_field ((name, d) # fs) k = (if fold_name k = fold_name name then Some d else find_field fs k)"

fun decode_fields :: "(string \<times> 'r decoder) list \<Rightarrow> (string \<times> json) list \<Rightarrow> 'r \<Rightarrow> 'r option" where
  "decode_fields fs [] r = Some r"
| "decode_fields fs ((k, v) # kvs) r =
     (case find_field fs k of
        None \<Rightarrow> decode_fields fs kvs r
      | Some d \<Rightarrow> (case d v r of None \<Rightarrow> None | Some r' \<Rightarrow> decode_fields fs kvs r'))"

fun decode_struct :: "(string \<times> 'r decoder) list \<Rightarrow> 'r decoder" where
  "decode_struct fs (JObj kvs) r = decode_fields fs kvs r"
| "decode_struct fs JNull r = Some r"
| "decode_struct fs _ r = None"

definition in_field :: "'a decoder \<Rightarrow> ('r \<Rightarrow> 'a) \<Rightarrow> (('a \<Rightarrow> 'a) \<Rightarrow> 'r \<Rightarrow> 'r) \<Rightarrow> 'r decoder" where
  "in_field d get upd v r = map_option (\<lambda>x. upd (\<lambda>_. x) r) (d v (get r))"

fun decode_string :: "string decoder" where
  "decode_string (JStr s) old = Some s"
| "decode_string JNull old = Some old"
| "decode_string _ old = None"

text \<open>
  A slice is filled from its start; an element that was there is decoded into. Both \<^verbatim>\<open>null\<close> and
  \<^verbatim>\<open>[]\<close> leave no element.
\<close>

fun decode_elems :: "'a decoder \<Rightarrow> 'a \<Rightarrow> json list \<Rightarrow> 'a list \<Rightarrow> 'a list option" where
  "decode_elems d zero [] olds = Some []"
| "decode_elems d zero (v # vs) olds =
     (case d v (case olds of [] \<Rightarrow> zero | old # _ \<Rightarrow> old) of
        None \<Rightarrow> None
      | Some x \<Rightarrow> map_option (\<lambda>xs. x # xs) (decode_elems d zero vs (drop 1 olds)))"

fun decode_slice :: "'a decoder \<Rightarrow> 'a \<Rightarrow> 'a list decoder" where
  "decode_slice d zero (JArr vs) olds = decode_elems d zero vs olds"
| "decode_slice d zero JNull olds = Some []"
| "decode_slice d zero _ olds = None"

text \<open>A map gets its entries added; every value is decoded into a fresh one.\<close>

fun decode_entries :: "'a decoder \<Rightarrow> 'a \<Rightarrow> (string \<times> json) list \<Rightarrow> (string \<times> 'a) list \<Rightarrow> (string \<times> 'a) list option" where
  "decode_entries d zero [] m = Some m"
| "decode_entries d zero ((k, v) # kvs) m =
     (case d v zero of None \<Rightarrow> None | Some x \<Rightarrow> decode_entries d zero kvs (AList.update k x m))"

fun decode_strings :: "(string \<times> string) list decoder" where
  "decode_strings (JObj kvs) m = decode_entries decode_string '''' kvs m"
| "decode_strings JNull m = Some []"
| "decode_strings _ m = None"

fun decode_any :: "json decoder" where
  "decode_any v old = Some v"

fun decode_gomap :: "gomap decoder" where
  "decode_gomap (JObj kvs) m = map_option Some (decode_entries decode_any JNull kvs (case m of None \<Rightarrow> [] | Some es \<Rightarrow> es))"
| "decode_gomap JNull m = Some None"
| "decode_gomap _ m = None"

text \<open>Encoding: a field with \<^verbatim>\<open>omitempty\<close> is left out when it is empty.\<close>

definition encode_string :: "string \<Rightarrow> json" where
  "encode_string s = JStr (ToValidUTF8 s)"

definition omit_empty :: "string \<Rightarrow> string \<Rightarrow> (string \<times> json) list" where
  "omit_empty k s = (if s = '''' then [] else [(k, encode_string s)])"

definition encode_slice :: "('a \<Rightarrow> json) \<Rightarrow> 'a list \<Rightarrow> json" where
  "encode_slice e xs = JArr (map e xs)"

definition encode_strings :: "(string \<times> string) list \<Rightarrow> json" where
  "encode_strings m = JObj (map (\<lambda>(k, v). (ToValidUTF8 k, encode_string v)) m)"

section \<open>The contract\<close>

text \<open>A decoder undoes an encoder on the values of \<open>ok\<close>, starting from the zero value.\<close>

locale codec =
  fixes enc :: "'a \<Rightarrow> json" and dec :: "'a decoder" and zero :: 'a and ok :: "'a \<Rightarrow> bool"
  assumes decode_encode: "ok x \<Longrightarrow> dec (enc x) zero = Some x"
begin

lemma elems: "list_all ok xs \<Longrightarrow> decode_elems dec zero (map enc xs) [] = Some xs"
  by (induction xs) (auto simp: decode_encode)

lemma slice: "list_all ok xs \<Longrightarrow> decode_slice dec zero (encode_slice enc xs) [] = Some xs"
  by (simp add: encode_slice_def elems)

lemma entries:
  assumes "list_all (ok \<circ> snd) kvs" and "distinct (map fst kvs)" and "set (map fst kvs) \<inter> set (map fst m) = {}"
  shows "decode_entries dec zero (map (\<lambda>(k, v). (k, enc v)) kvs) m = Some (m @ kvs)"
  using assms
proof (induction kvs arbitrary: m)
  case Nil
  then show ?case by simp
next
  case (Cons kv kvs)
  obtain k v where kv: "kv = (k, v)" by (cases kv)
  have "AList.update k v m = m @ [(k, v)]"
    using Cons.prems(3) by (induction m) (auto simp: kv)
  with Cons show ?case by (simp add: kv decode_encode)
qed

lemma injective: "ok x \<Longrightarrow> ok y \<Longrightarrow> enc x = enc y \<Longrightarrow> x = y"
  by (metis decode_encode option.inject)

end

interpretation text_codec: codec encode_string decode_string "''''" utf8_valid
  by unfold_locales (simp add: encode_string_def)

definition tags_ok :: "(string \<times> string) list \<Rightarrow> bool" where
  "tags_ok m \<longleftrightarrow> list_all (\<lambda>(k, v). utf8_valid k \<and> utf8_valid v) m \<and> distinct (map fst m)"

interpretation tags_codec: codec encode_strings decode_strings "[]" tags_ok
proof
  fix m assume ok: "tags_ok m"
  then have m: "map (\<lambda>(k, v). (ToValidUTF8 k, encode_string v)) m = map (\<lambda>(k, v). (k, encode_string v)) m"
    by (auto simp: tags_ok_def list_all_iff)
  have "list_all (utf8_valid \<circ> snd) m" "distinct (map fst m)"
    using ok by (auto simp: tags_ok_def list_all_iff)
  then show "decode_strings (encode_strings m) [] = Some m"
    using text_codec.entries [of m "[]"] by (simp add: encode_strings_def m)
qed
section \<open>The structs\<close>

named_theorems wire

lemma upper_letters:
  "to_upper CHR ''a'' = CHR ''A''" "to_upper CHR ''b'' = CHR ''B''" "to_upper CHR ''c'' = CHR ''C''"
  "to_upper CHR ''d'' = CHR ''D''" "to_upper CHR ''e'' = CHR ''E''" "to_upper CHR ''f'' = CHR ''F''"
  "to_upper CHR ''g'' = CHR ''G''" "to_upper CHR ''h'' = CHR ''H''" "to_upper CHR ''i'' = CHR ''I''"
  "to_upper CHR ''j'' = CHR ''J''" "to_upper CHR ''k'' = CHR ''K''" "to_upper CHR ''l'' = CHR ''L''"
  "to_upper CHR ''m'' = CHR ''M''" "to_upper CHR ''n'' = CHR ''N''" "to_upper CHR ''o'' = CHR ''O''"
  "to_upper CHR ''p'' = CHR ''P''" "to_upper CHR ''q'' = CHR ''Q''" "to_upper CHR ''r'' = CHR ''R''"
  "to_upper CHR ''s'' = CHR ''S''" "to_upper CHR ''t'' = CHR ''T''" "to_upper CHR ''u'' = CHR ''U''"
  "to_upper CHR ''v'' = CHR ''V''" "to_upper CHR ''w'' = CHR ''W''" "to_upper CHR ''x'' = CHR ''X''"
  "to_upper CHR ''y'' = CHR ''Y''" "to_upper CHR ''z'' = CHR ''Z''"
  by code_simp+

lemma capitals: "of_char c < (97 :: nat) \<Longrightarrow> to_upper c = c"
  by (simp add: to_upper_def Let_def)

lemma fold_names [wire]:
  "fold_name ''domainId'' = ''DOMAINID''"
  "fold_name ''workspaceId'' = ''WORKSPACEID''"
  "fold_name ''domain'' = ''DOMAIN''"
  "fold_name ''email'' = ''EMAIL''"
  "fold_name ''name'' = ''NAME''"
  "fold_name ''jobId'' = ''JOBID''"
  "fold_name ''sendId'' = ''SENDID''"
  "fold_name ''to'' = ''TO''"
  "fold_name ''from'' = ''FROM''"
  "fold_name ''replyTo'' = ''REPLYTO''"
  "fold_name ''subject'' = ''SUBJECT''"
  "fold_name ''html'' = ''HTML''"
  "fold_name ''text'' = ''TEXT''"
  "fold_name ''tags'' = ''TAGS''"
  "fold_name ''provider'' = ''PROVIDER''"
  "fold_name ''campaignId'' = ''CAMPAIGNID''"
  "fold_name ''segmentId'' = ''SEGMENTID''"
  "fold_name ''sender'' = ''SENDER''"
  "fold_name ''recipientId'' = ''RECIPIENTID''"
  "fold_name ''chunkId'' = ''CHUNKID''"
  "fold_name ''recipients'' = ''RECIPIENTS''"
  "fold_name ''recipientEmail'' = ''RECIPIENTEMAIL''"
  "fold_name ''providerMessageId'' = ''PROVIDERMESSAGEID''"
  "fold_name ''status'' = ''STATUS''"
  "fold_name ''reason'' = ''REASON''"
  "fold_name ''timestamp'' = ''TIMESTAMP''"
  "fold_name ''payload'' = ''PAYLOAD''"
  "fold_name ''attempts'' = ''ATTEMPTS''"
  "fold_name ''eventId'' = ''EVENTID''"
  "fold_name ''apiKeyId'' = ''APIKEYID''"
  "fold_name ''eventType'' = ''EVENTTYPE''"
  "fold_name ''eventName'' = ''EVENTNAME''"
  "fold_name ''userId'' = ''USERID''"
  "fold_name ''anonymousId'' = ''ANONYMOUSID''"
  "fold_name ''groupId'' = ''GROUPID''"
  "fold_name ''traits'' = ''TRAITS''"
  "fold_name ''properties'' = ''PROPERTIES''"
  "fold_name ''context'' = ''CONTEXT''"
  "fold_name ''receivedAt'' = ''RECEIVEDAT''"
  "fold_name ''workflowId'' = ''WORKFLOWID''"
  "fold_name ''contactId'' = ''CONTACTID''"
  by (simp_all add: upper_letters capitals)

declare fold_name.simps [simp del]

lemmas decoding [wire] = decode_struct.simps find_field.simps decode_fields.simps in_field_def

lemma string_field_decodes [wire]: "utf8_valid s \<Longrightarrow> decode_string (encode_string s) old = Some s"
  by (simp add: encode_string_def)

lemma omitted_field_decodes [wire]:
  "decode_fields fs (omit_empty k s @ kvs) r =
     (if s = '''' then decode_fields fs kvs r else decode_fields fs ((k, encode_string s) # kvs) r)"
  "decode_fields fs (omit_empty k s) r =
     (if s = '''' then Some r else decode_fields fs [(k, encode_string s)] r)"
  by (simp_all add: omit_empty_def)

definition zero_EmailAddress :: EmailAddress where
  "zero_EmailAddress = \<lparr>addr_Email = '''', addr_Name = ''''\<rparr>"

definition decode_EmailAddress :: "EmailAddress decoder" where
  "decode_EmailAddress = decode_struct
     [(''email'', in_field decode_string addr_Email addr_Email_update),
      (''name'', in_field decode_string addr_Name addr_Name_update)]"

definition encode_EmailAddress :: "EmailAddress \<Rightarrow> json" where
  "encode_EmailAddress p = JObj
     ([(''email'', encode_string (addr_Email p))] @
      omit_empty ''name'' (addr_Name p))"

definition EmailAddress_ok :: "EmailAddress \<Rightarrow> bool" where
  "EmailAddress_ok p \<longleftrightarrow>
     utf8_valid (addr_Email p) \<and> utf8_valid (addr_Name p)"

interpretation address_codec: codec encode_EmailAddress decode_EmailAddress zero_EmailAddress EmailAddress_ok
  by unfold_locales
    (simp add: encode_EmailAddress_def decode_EmailAddress_def EmailAddress_ok_def zero_EmailAddress_def wire)

lemmas address_decodes [wire] = address_codec.decode_encode address_codec.slice

definition zero_CampaignChunkRecipient :: CampaignChunkRecipient where
  "zero_CampaignChunkRecipient = \<lparr>ccr_RecipientID = '''', ccr_Email = '''', ccr_Name = ''''\<rparr>"

definition decode_CampaignChunkRecipient :: "CampaignChunkRecipient decoder" where
  "decode_CampaignChunkRecipient = decode_struct
     [(''recipientId'', in_field decode_string ccr_RecipientID ccr_RecipientID_update),
      (''email'', in_field decode_string ccr_Email ccr_Email_update),
      (''name'', in_field decode_string ccr_Name ccr_Name_update)]"

definition encode_CampaignChunkRecipient :: "CampaignChunkRecipient \<Rightarrow> json" where
  "encode_CampaignChunkRecipient p = JObj
     ([(''recipientId'', encode_string (ccr_RecipientID p)), (''email'', encode_string (ccr_Email p))] @
      omit_empty ''name'' (ccr_Name p))"

definition CampaignChunkRecipient_ok :: "CampaignChunkRecipient \<Rightarrow> bool" where
  "CampaignChunkRecipient_ok p \<longleftrightarrow>
     utf8_valid (ccr_RecipientID p) \<and> utf8_valid (ccr_Email p) \<and> utf8_valid (ccr_Name p)"

interpretation recipient_codec: codec encode_CampaignChunkRecipient decode_CampaignChunkRecipient zero_CampaignChunkRecipient CampaignChunkRecipient_ok
  by unfold_locales
    (simp add: encode_CampaignChunkRecipient_def decode_CampaignChunkRecipient_def CampaignChunkRecipient_ok_def zero_CampaignChunkRecipient_def wire)

lemmas recipient_decodes [wire] = recipient_codec.decode_encode recipient_codec.slice

lemmas tags_decode [wire] = tags_codec.decode_encode

definition zero_TransactionalEmailPayload :: TransactionalEmailPayload where
  "zero_TransactionalEmailPayload = \<lparr>tx_JobID = '''', tx_WorkspaceID = '''', tx_SendID = '''', tx_To = [], tx_From = zero_EmailAddress,
     tx_ReplyTo = '''', tx_Subject = '''', tx_HTML = '''', tx_Text = '''', tx_Tags = [], tx_Provider = ''''\<rparr>"

definition decode_TransactionalEmailPayload :: "TransactionalEmailPayload decoder" where
  "decode_TransactionalEmailPayload = decode_struct
     [(''jobId'', in_field decode_string tx_JobID tx_JobID_update),
      (''workspaceId'', in_field decode_string tx_WorkspaceID tx_WorkspaceID_update),
      (''sendId'', in_field decode_string tx_SendID tx_SendID_update),
      (''to'', in_field (decode_slice decode_EmailAddress zero_EmailAddress) tx_To tx_To_update),
      (''from'', in_field decode_EmailAddress tx_From tx_From_update),
      (''replyTo'', in_field decode_string tx_ReplyTo tx_ReplyTo_update),
      (''subject'', in_field decode_string tx_Subject tx_Subject_update),
      (''html'', in_field decode_string tx_HTML tx_HTML_update),
      (''text'', in_field decode_string tx_Text tx_Text_update),
      (''tags'', in_field decode_strings tx_Tags tx_Tags_update),
      (''provider'', in_field decode_string tx_Provider tx_Provider_update)]"

definition encode_TransactionalEmailPayload :: "TransactionalEmailPayload \<Rightarrow> json" where
  "encode_TransactionalEmailPayload p = JObj
     ([(''jobId'', encode_string (tx_JobID p)), (''workspaceId'', encode_string (tx_WorkspaceID p)),
        (''sendId'', encode_string (tx_SendID p)), (''to'', encode_slice encode_EmailAddress (tx_To p)),
        (''from'', encode_EmailAddress (tx_From p))] @
      omit_empty ''replyTo'' (tx_ReplyTo p) @
      [(''subject'', encode_string (tx_Subject p)), (''html'', encode_string (tx_HTML p)),
        (''text'', encode_string (tx_Text p))] @
      (if tx_Tags p = [] then [] else [(''tags'', encode_strings (tx_Tags p))]) @
      [(''provider'', encode_string (tx_Provider p))])"

definition TransactionalEmailPayload_ok :: "TransactionalEmailPayload \<Rightarrow> bool" where
  "TransactionalEmailPayload_ok p \<longleftrightarrow>
     utf8_valid (tx_JobID p) \<and> utf8_valid (tx_WorkspaceID p) \<and> utf8_valid (tx_SendID p) \<and>
     list_all EmailAddress_ok (tx_To p) \<and> EmailAddress_ok (tx_From p) \<and>
     utf8_valid (tx_ReplyTo p) \<and> utf8_valid (tx_Subject p) \<and> utf8_valid (tx_HTML p) \<and>
     utf8_valid (tx_Text p) \<and> tags_ok (tx_Tags p) \<and> utf8_valid (tx_Provider p)"

interpretation transactional_codec: codec encode_TransactionalEmailPayload decode_TransactionalEmailPayload zero_TransactionalEmailPayload TransactionalEmailPayload_ok
  by unfold_locales
    (simp add: encode_TransactionalEmailPayload_def decode_TransactionalEmailPayload_def TransactionalEmailPayload_ok_def zero_TransactionalEmailPayload_def wire)

definition zero_CampaignStartPayload :: CampaignStartPayload where
  "zero_CampaignStartPayload = \<lparr>cs_JobID = '''', cs_WorkspaceID = '''', cs_CampaignID = '''', cs_SegmentID = '''',
     cs_Sender = zero_EmailAddress, cs_ReplyTo = '''', cs_Subject = '''', cs_HTML = '''', cs_Text = ''''\<rparr>"

definition decode_CampaignStartPayload :: "CampaignStartPayload decoder" where
  "decode_CampaignStartPayload = decode_struct
     [(''jobId'', in_field decode_string cs_JobID cs_JobID_update),
      (''workspaceId'', in_field decode_string cs_WorkspaceID cs_WorkspaceID_update),
      (''campaignId'', in_field decode_string cs_CampaignID cs_CampaignID_update),
      (''segmentId'', in_field decode_string cs_SegmentID cs_SegmentID_update),
      (''sender'', in_field decode_EmailAddress cs_Sender cs_Sender_update),
      (''replyTo'', in_field decode_string cs_ReplyTo cs_ReplyTo_update),
      (''subject'', in_field decode_string cs_Subject cs_Subject_update),
      (''html'', in_field decode_string cs_HTML cs_HTML_update),
      (''text'', in_field decode_string cs_Text cs_Text_update)]"

definition encode_CampaignStartPayload :: "CampaignStartPayload \<Rightarrow> json" where
  "encode_CampaignStartPayload p = JObj
     ([(''jobId'', encode_string (cs_JobID p)), (''workspaceId'', encode_string (cs_WorkspaceID p)),
        (''campaignId'', encode_string (cs_CampaignID p)), (''segmentId'', encode_string (cs_SegmentID p)),
        (''sender'', encode_EmailAddress (cs_Sender p))] @
      omit_empty ''replyTo'' (cs_ReplyTo p) @
      [(''subject'', encode_string (cs_Subject p)), (''html'', encode_string (cs_HTML p)),
        (''text'', encode_string (cs_Text p))])"

definition CampaignStartPayload_ok :: "CampaignStartPayload \<Rightarrow> bool" where
  "CampaignStartPayload_ok p \<longleftrightarrow>
     utf8_valid (cs_JobID p) \<and> utf8_valid (cs_WorkspaceID p) \<and> utf8_valid (cs_CampaignID p) \<and>
     utf8_valid (cs_SegmentID p) \<and> EmailAddress_ok (cs_Sender p) \<and> utf8_valid (cs_ReplyTo p) \<and>
     utf8_valid (cs_Subject p) \<and> utf8_valid (cs_HTML p) \<and> utf8_valid (cs_Text p)"

interpretation campaign_start_codec: codec encode_CampaignStartPayload decode_CampaignStartPayload zero_CampaignStartPayload CampaignStartPayload_ok
  by unfold_locales
    (simp add: encode_CampaignStartPayload_def decode_CampaignStartPayload_def CampaignStartPayload_ok_def zero_CampaignStartPayload_def wire)

definition zero_CampaignChunkPayload :: CampaignChunkPayload where
  "zero_CampaignChunkPayload = \<lparr>cc_CampaignID = '''', cc_WorkspaceID = '''', cc_ChunkID = '''', cc_Sender = zero_EmailAddress,
     cc_ReplyTo = '''', cc_Subject = '''', cc_HTML = '''', cc_Text = '''', cc_Recipients = []\<rparr>"

definition decode_CampaignChunkPayload :: "CampaignChunkPayload decoder" where
  "decode_CampaignChunkPayload = decode_struct
     [(''campaignId'', in_field decode_string cc_CampaignID cc_CampaignID_update),
      (''workspaceId'', in_field decode_string cc_WorkspaceID cc_WorkspaceID_update),
      (''chunkId'', in_field decode_string cc_ChunkID cc_ChunkID_update),
      (''sender'', in_field decode_EmailAddress cc_Sender cc_Sender_update),
      (''replyTo'', in_field decode_string cc_ReplyTo cc_ReplyTo_update),
      (''subject'', in_field decode_string cc_Subject cc_Subject_update),
      (''html'', in_field decode_string cc_HTML cc_HTML_update),
      (''text'', in_field decode_string cc_Text cc_Text_update),
      (''recipients'', in_field (decode_slice decode_CampaignChunkRecipient zero_CampaignChunkRecipient) cc_Recipients cc_Recipients_update)]"

definition encode_CampaignChunkPayload :: "CampaignChunkPayload \<Rightarrow> json" where
  "encode_CampaignChunkPayload p = JObj
     ([(''campaignId'', encode_string (cc_CampaignID p)), (''workspaceId'', encode_string (cc_WorkspaceID p)),
        (''chunkId'', encode_string (cc_ChunkID p)), (''sender'', encode_EmailAddress (cc_Sender p))] @
      omit_empty ''replyTo'' (cc_ReplyTo p) @
      [(''subject'', encode_string (cc_Subject p)), (''html'', encode_string (cc_HTML p)),
        (''text'', encode_string (cc_Text p)),
        (''recipients'', encode_slice encode_CampaignChunkRecipient (cc_Recipients p))])"

definition CampaignChunkPayload_ok :: "CampaignChunkPayload \<Rightarrow> bool" where
  "CampaignChunkPayload_ok p \<longleftrightarrow>
     utf8_valid (cc_CampaignID p) \<and> utf8_valid (cc_WorkspaceID p) \<and> utf8_valid (cc_ChunkID p) \<and>
     EmailAddress_ok (cc_Sender p) \<and> utf8_valid (cc_ReplyTo p) \<and> utf8_valid (cc_Subject p) \<and>
     utf8_valid (cc_HTML p) \<and> utf8_valid (cc_Text p) \<and>
     list_all CampaignChunkRecipient_ok (cc_Recipients p)"

interpretation campaign_chunk_codec: codec encode_CampaignChunkPayload decode_CampaignChunkPayload zero_CampaignChunkPayload CampaignChunkPayload_ok
  by unfold_locales
    (simp add: encode_CampaignChunkPayload_def decode_CampaignChunkPayload_def CampaignChunkPayload_ok_def zero_CampaignChunkPayload_def wire)

definition zero_WorkflowTriggerPayload :: WorkflowTriggerPayload where
  "zero_WorkflowTriggerPayload = \<lparr>wt_WorkspaceID = '''', wt_WorkflowID = '''', wt_ContactID = '''', wt_EventName = '''', wt_EventID = ''''\<rparr>"

definition decode_WorkflowTriggerPayload :: "WorkflowTriggerPayload decoder" where
  "decode_WorkflowTriggerPayload = decode_struct
     [(''workspaceId'', in_field decode_string wt_WorkspaceID wt_WorkspaceID_update),
      (''workflowId'', in_field decode_string wt_WorkflowID wt_WorkflowID_update),
      (''contactId'', in_field decode_string wt_ContactID wt_ContactID_update),
      (''eventName'', in_field decode_string wt_EventName wt_EventName_update),
      (''eventId'', in_field decode_string wt_EventID wt_EventID_update)]"

definition encode_WorkflowTriggerPayload :: "WorkflowTriggerPayload \<Rightarrow> json" where
  "encode_WorkflowTriggerPayload p = JObj
     ([(''workspaceId'', encode_string (wt_WorkspaceID p))] @
      omit_empty ''workflowId'' (wt_WorkflowID p) @
      [(''contactId'', encode_string (wt_ContactID p)), (''eventName'', encode_string (wt_EventName p)),
        (''eventId'', encode_string (wt_EventID p))])"

definition WorkflowTriggerPayload_ok :: "WorkflowTriggerPayload \<Rightarrow> bool" where
  "WorkflowTriggerPayload_ok p \<longleftrightarrow>
     utf8_valid (wt_WorkspaceID p) \<and> utf8_valid (wt_WorkflowID p) \<and> utf8_valid (wt_ContactID p) \<and>
     utf8_valid (wt_EventName p) \<and> utf8_valid (wt_EventID p)"

interpretation trigger_codec: codec encode_WorkflowTriggerPayload decode_WorkflowTriggerPayload zero_WorkflowTriggerPayload WorkflowTriggerPayload_ok
  by unfold_locales
    (simp add: encode_WorkflowTriggerPayload_def decode_WorkflowTriggerPayload_def WorkflowTriggerPayload_ok_def zero_WorkflowTriggerPayload_def wire)

definition zero_DomainVerifyPayload :: DomainVerifyPayload where
  "zero_DomainVerifyPayload = \<lparr>dv_DomainID = '''', dv_WorkspaceID = '''', dv_Domain = ''''\<rparr>"

definition decode_DomainVerifyPayload :: "DomainVerifyPayload decoder" where
  "decode_DomainVerifyPayload = decode_struct
     [(''domainId'', in_field decode_string dv_DomainID dv_DomainID_update),
      (''workspaceId'', in_field decode_string dv_WorkspaceID dv_WorkspaceID_update),
      (''domain'', in_field decode_string dv_Domain dv_Domain_update)]"

definition zero_WorkflowRegisterPayload :: WorkflowRegisterPayload where
  "zero_WorkflowRegisterPayload = \<lparr>wr_WorkspaceID = '''', wr_WorkflowID = ''''\<rparr>"

definition decode_WorkflowRegisterPayload :: "WorkflowRegisterPayload decoder" where
  "decode_WorkflowRegisterPayload = decode_struct
     [(''workspaceId'', in_field decode_string wr_WorkspaceID wr_WorkspaceID_update),
      (''workflowId'', in_field decode_string wr_WorkflowID wr_WorkflowID_update)]"

definition zero_SegmentRefreshPayload :: SegmentRefreshPayload where
  "zero_SegmentRefreshPayload = \<lparr>sr_WorkspaceID = '''', sr_SegmentID = ''''\<rparr>"

definition decode_SegmentRefreshPayload :: "SegmentRefreshPayload decoder" where
  "decode_SegmentRefreshPayload = decode_struct
     [(''workspaceId'', in_field decode_string sr_WorkspaceID sr_WorkspaceID_update),
      (''segmentId'', in_field decode_string sr_SegmentID sr_SegmentID_update)]"

text \<open>A time is read from \<^verbatim>\<open>RFC 3339\<close>; \<^verbatim>\<open>json.Marshal\<close> writes it with its fraction.\<close>

fun decode_time :: "int decoder" where
  "decode_time (JStr s) old = parse_rfc3339 s"
| "decode_time JNull old = Some old"
| "decode_time _ old = None"

definition encode_time :: "int \<Rightarrow> json" where
  "encode_time t = JStr (rfc3339_nano t)"

interpretation time_codec: codec encode_time decode_time 0 json_time
  by unfold_locales (simp add: encode_time_def parse_rfc3339_nano)

lemmas time_decodes [wire] = time_codec.decode_encode

definition zero_RawEventPayload :: RawEventPayload where
  "zero_RawEventPayload = \<lparr>re_EventID = '''', re_WorkspaceID = '''', re_APIKeyID = '''', re_EventType = '''', re_EventName = '''',
     re_UserID = '''', re_AnonymousID = '''', re_GroupID = '''', re_Traits = None, re_Properties = None, re_Context = None,
     re_ReceivedAt = 0\<rparr>"

definition decode_RawEventPayload :: "RawEventPayload decoder" where
  "decode_RawEventPayload = decode_struct
     [(''eventId'', in_field decode_string re_EventID re_EventID_update),
      (''workspaceId'', in_field decode_string re_WorkspaceID re_WorkspaceID_update),
      (''apiKeyId'', in_field decode_string re_APIKeyID re_APIKeyID_update),
      (''eventType'', in_field decode_string re_EventType re_EventType_update),
      (''eventName'', in_field decode_string re_EventName re_EventName_update),
      (''userId'', in_field decode_string re_UserID re_UserID_update),
      (''anonymousId'', in_field decode_string re_AnonymousID re_AnonymousID_update),
      (''groupId'', in_field decode_string re_GroupID re_GroupID_update),
      (''traits'', in_field decode_gomap re_Traits re_Traits_update),
      (''properties'', in_field decode_gomap re_Properties re_Properties_update),
      (''context'', in_field decode_gomap re_Context re_Context_update),
      (''receivedAt'', in_field decode_time re_ReceivedAt re_ReceivedAt_update)]"

section \<open>What is only written\<close>

definition encode_EmailDeliveryEvent :: "EmailDeliveryEvent \<Rightarrow> json" where
  "encode_EmailDeliveryEvent p = JObj
     ([(''workspaceId'', encode_string (ev_WorkspaceID p))] @
      omit_empty ''sendId'' (ev_SendID p) @ omit_empty ''campaignId'' (ev_CampaignID p) @
      omit_empty ''recipientEmail'' (ev_RecipientEmail p) @ omit_empty ''providerMessageId'' (ev_ProviderMessageID p) @
      [(''status'', encode_string (ev_Status p))] @ omit_empty ''reason'' (ev_Reason p) @
      [(''timestamp'', encode_time (ev_Timestamp p))])"

definition dlq_object :: "json \<Rightarrow> string \<Rightarrow> nat \<Rightarrow> int \<Rightarrow> json" where
  "dlq_object p reason attempts t = JObj
     [(''payload'', p), (''reason'', encode_string reason), (''attempts'', JNum (int attempts) 0), (''timestamp'', encode_time t)]"

definition encode_CampaignDLQMessage :: "CampaignDLQMessage \<Rightarrow> json" where
  "encode_CampaignDLQMessage p =
     dlq_object (encode_CampaignChunkPayload (dlq_Payload p)) (dlq_Reason p) (dlq_Attempts p) (dlq_Timestamp p)"

definition encode_dlqMessage :: "dlqMessage \<Rightarrow> json" where
  "encode_dlqMessage p =
     dlq_object (encode_TransactionalEmailPayload (txdlq_Payload p)) (txdlq_Reason p) (txdlq_Attempts p) (txdlq_Timestamp p)"

section \<open>From a publisher to a consumer\<close>

text \<open>\<^verbatim>\<open>json.Marshal(payload)\<close> in \<open>Publish\<close>; the values of an ad hoc map are written as they are.\<close>

fun Marshal :: "payload \<Rightarrow> json" where
  "Marshal (PTransactional p) = encode_TransactionalEmailPayload p"
| "Marshal (PCampaignStart p) = encode_CampaignStartPayload p"
| "Marshal (PCampaignChunk p) = encode_CampaignChunkPayload p"
| "Marshal (PDelivery p) = encode_EmailDeliveryEvent p"
| "Marshal (PCampaignDLQ p) = encode_CampaignDLQMessage p"
| "Marshal (PTransactionalDLQ p) = encode_dlqMessage p"
| "Marshal (PWorkflowTrigger p) = encode_WorkflowTriggerPayload p"
| "Marshal (PMap kvs) = JObj kvs"

text \<open>
  \<open>receive d zero v k\<close> is the message a handler sees for the wire value \<open>v\<close>: every handler starts with
  \<^verbatim>\<open>var payload T\<close> and \<^verbatim>\<open>json.Unmarshal(msg.Data(), &payload)\<close>.
\<close>

definition receive :: "'a decoder \<Rightarrow> 'a \<Rightarrow> json \<Rightarrow> nat option \<Rightarrow> 'a message" where
  "receive d zero v k = \<lparr>Data = d v zero, NumDelivered = k\<rparr>"

abbreviation receive_transactional :: "json \<Rightarrow> nat option \<Rightarrow> TransactionalEmailPayload message" where
  "receive_transactional \<equiv> receive decode_TransactionalEmailPayload zero_TransactionalEmailPayload"

abbreviation receive_start :: "json \<Rightarrow> nat option \<Rightarrow> CampaignStartPayload message" where
  "receive_start \<equiv> receive decode_CampaignStartPayload zero_CampaignStartPayload"

abbreviation receive_chunk :: "json \<Rightarrow> nat option \<Rightarrow> CampaignChunkPayload message" where
  "receive_chunk \<equiv> receive decode_CampaignChunkPayload zero_CampaignChunkPayload"

abbreviation receive_trigger :: "json \<Rightarrow> nat option \<Rightarrow> WorkflowTriggerPayload message" where
  "receive_trigger \<equiv> receive decode_WorkflowTriggerPayload zero_WorkflowTriggerPayload"

context codec begin

lemma received: "ok x \<Longrightarrow> receive dec zero (enc x) k = \<lparr>Data = Some x, NumDelivered = k\<rparr>"
  by (simp add: receive_def decode_encode)

end

text \<open>
  Claim C13. What one worker publishes, the next one reads: on each of the four payload types that this
  program both publishes and consumes, decoding the published wire value gives the payload back, field
  by field, when its strings are valid UTF-8 and its tags have distinct keys; the times of the delivery
  events and dead letters survive the wire in the years JSON can carry.
\<close>

theorem published_jobs_decode:
  "(TransactionalEmailPayload_ok p1 \<longrightarrow>
      receive_transactional (Marshal (PTransactional p1)) k = \<lparr>Data = Some p1, NumDelivered = k\<rparr>) \<and>
   (CampaignStartPayload_ok p2 \<longrightarrow> receive_start (Marshal (PCampaignStart p2)) k = \<lparr>Data = Some p2, NumDelivered = k\<rparr>) \<and>
   (CampaignChunkPayload_ok p3 \<longrightarrow> receive_chunk (Marshal (PCampaignChunk p3)) k = \<lparr>Data = Some p3, NumDelivered = k\<rparr>) \<and>
   (WorkflowTriggerPayload_ok p4 \<longrightarrow> receive_trigger (Marshal (PWorkflowTrigger p4)) k = \<lparr>Data = Some p4, NumDelivered = k\<rparr>) \<and>
   (json_time t \<longrightarrow> decode_time (encode_time t) 0 = Some t)"
  by (simp add: transactional_codec.received campaign_start_codec.received campaign_chunk_codec.received
      trigger_codec.received time_codec.decode_encode)
definition wire_job :: TransactionalEmailPayload where
  "wire_job = \<lparr>tx_JobID = ''j'', tx_WorkspaceID = ''w'', tx_SendID = ''s'',
     tx_To = [\<lparr>addr_Email = ''a@x'', addr_Name = [CHR 0xC3, CHR 0xA9]\<rparr>, \<lparr>addr_Email = ''b@x'', addr_Name = ''''\<rparr>],
     tx_From = \<lparr>addr_Email = ''f@x'', addr_Name = ''F''\<rparr>, tx_ReplyTo = '''', tx_Subject = ''Hi'', tx_HTML = ''<p>'', tx_Text = '''',
     tx_Tags = [(''k'', ''v''), (''l'', '''')], tx_Provider = ''ses''\<rparr>"

definition wire_start :: CampaignStartPayload where
  "wire_start = \<lparr>cs_JobID = ''j'', cs_WorkspaceID = ''w'', cs_CampaignID = ''c'', cs_SegmentID = ''g'',
     cs_Sender = \<lparr>addr_Email = ''f@x'', addr_Name = ''''\<rparr>, cs_ReplyTo = ''r@x'', cs_Subject = ''Hi'', cs_HTML = '''', cs_Text = ''t''\<rparr>"

definition wire_chunk :: CampaignChunkPayload where
  "wire_chunk = \<lparr>cc_CampaignID = ''c'', cc_WorkspaceID = ''w'', cc_ChunkID = ''c-chunk-0'',
     cc_Sender = \<lparr>addr_Email = ''f@x'', addr_Name = ''''\<rparr>, cc_ReplyTo = '''', cc_Subject = ''Hi'', cc_HTML = '''', cc_Text = ''t'',
     cc_Recipients = [\<lparr>ccr_RecipientID = ''r1'', ccr_Email = ''a@x'', ccr_Name = ''''\<rparr>,
       \<lparr>ccr_RecipientID = ''r2'', ccr_Email = ''b@x'', ccr_Name = ''B''\<rparr>]\<rparr>"

definition wire_trigger :: WorkflowTriggerPayload where
  "wire_trigger = \<lparr>wt_WorkspaceID = ''w'', wt_WorkflowID = '''', wt_ContactID = ''c'', wt_EventName = ''signup'', wt_EventID = ''e''\<rparr>"

lemma wire_samples_ok:
  "TransactionalEmailPayload_ok wire_job" "CampaignStartPayload_ok wire_start" "CampaignChunkPayload_ok wire_chunk"
  "WorkflowTriggerPayload_ok wire_trigger"
  by (simp_all add: TransactionalEmailPayload_ok_def CampaignStartPayload_ok_def CampaignChunkPayload_ok_def
      CampaignChunkRecipient_ok_def EmailAddress_ok_def WorkflowTriggerPayload_ok_def wire_job_def wire_start_def
      wire_chunk_def wire_trigger_def tags_ok_def rune_rest_def rune_tails_def between_def)

lemma epoch_ok: "json_time 0"
  by code_simp

lemma published_jobs_decode_witness:
  "receive_transactional (Marshal (PTransactional wire_job)) (Some 1) = \<lparr>Data = Some wire_job, NumDelivered = Some 1\<rparr> \<and>
   receive_start (Marshal (PCampaignStart wire_start)) (Some 1) = \<lparr>Data = Some wire_start, NumDelivered = Some 1\<rparr> \<and>
   receive_chunk (Marshal (PCampaignChunk wire_chunk)) (Some 1) = \<lparr>Data = Some wire_chunk, NumDelivered = Some 1\<rparr> \<and>
   receive_trigger (Marshal (PWorkflowTrigger wire_trigger)) (Some 1) = \<lparr>Data = Some wire_trigger, NumDelivered = Some 1\<rparr> \<and>
   decode_time (encode_time 0) 0 = Some 0"
  using published_jobs_decode [of wire_job "Some 1" wire_start wire_chunk wire_trigger 0] wire_samples_ok epoch_ok by simp

text \<open>Foreign jobs: tags in another case, \<^verbatim>\<open>null\<close>, a missing field, a wrong type, invalid UTF-8.\<close>

lemma decoding_examples:
  "decode_SegmentRefreshPayload (JObj [(''WORKSPACEID'', JStr ''w''), (''other'', JNull)]) zero_SegmentRefreshPayload =
     Some \<lparr>sr_WorkspaceID = ''w'', sr_SegmentID = ''''\<rparr>"
  "decode_SegmentRefreshPayload (JObj [(''segmentId'', JNum 1 0)]) zero_SegmentRefreshPayload = None"
  "decode_SegmentRefreshPayload JNull zero_SegmentRefreshPayload = Some zero_SegmentRefreshPayload"
  "decode_DomainVerifyPayload (JArr []) zero_DomainVerifyPayload = None"
  "decode_WorkflowRegisterPayload (JObj [(''wor'' @ [CHR 0xE2, CHR 0x84, CHR 0xAA] @ ''flowid'', JStr ''f'')]) zero_WorkflowRegisterPayload =
     Some \<lparr>wr_WorkspaceID = '''', wr_WorkflowID = ''f''\<rparr>"
  "map_option re_Traits (decode_RawEventPayload (JObj [(''traits'', JObj [(''a'', JNull)]), (''receivedAt'', JNull)]) zero_RawEventPayload) =
     Some (Some [(''a'', JNull)])"
  "decode_EmailAddress (encode_EmailAddress \<lparr>addr_Email = [CHR 0xFF], addr_Name = ''''\<rparr>) zero_EmailAddress =
     Some \<lparr>addr_Email = replacement, addr_Name = ''''\<rparr>"
  by (simp_all add: decode_SegmentRefreshPayload_def zero_SegmentRefreshPayload_def decode_DomainVerifyPayload_def
      decode_WorkflowRegisterPayload_def zero_WorkflowRegisterPayload_def decode_RawEventPayload_def zero_RawEventPayload_def
      decode_EmailAddress_def encode_EmailAddress_def zero_EmailAddress_def encode_string_def omit_empty_def in_field_def
      fold_name.simps upper_letters capitals rune_rest_def rune_tails_def between_def replacement_def)

end
