(* ===== verification/PgDelivery.thy ===== *)
theory PgDelivery
  imports World
begin

text \<open>
  The queries of \<^verbatim>\<open>internal/infra/postgres/client.go\<close> on \<open>domains\<close>, \<open>email_sends\<close>,
  \<open>campaigns\<close>, \<open>campaign_recipients\<close> and the segment-resolved contact stream, each as its SQL
  acts on the tables; \<open>SELECT\<close> of a single row that does not exist gives the empty string, as the
  Go code turns \<^verbatim>\<open>pgx.ErrNoRows\<close> into \<^verbatim>\<open>""\<close>.
\<close>

definition status_in :: "string \<Rightarrow> string list \<Rightarrow> bool" where
  "status_in s xs \<longleftrightarrow> s \<in> set xs"

lemma status_in_simps [simp]:
  "status_in s [] = False" "status_in s (x # xs) = (s = x \<or> status_in s xs)"
  by (simp_all add: status_in_def)

definition coalesce :: "'a option \<Rightarrow> 'a \<Rightarrow> 'a" where
  "coalesce v d = (case v of None \<Rightarrow> d | Some x \<Rightarrow> x)"

lemma coalesce_simps [simp]: "coalesce None d = d" "coalesce (Some x) d = x"
  by (simp_all add: coalesce_def)

section \<open>domains\<close>

definition this_domain :: "string \<Rightarrow> string \<Rightarrow> domain_row \<Rightarrow> bool" where
  "this_domain domainID workspaceID r \<longleftrightarrow> dom_id r = domainID \<and> dom_workspace_id r = workspaceID"

definition GetDomainStatus :: "string \<Rightarrow> string \<Rightarrow> (world, goerr + string) state" where
  "GetDomainStatus domainID workspaceID = query (\<lambda>_ d.
     case find (this_domain domainID workspaceID) (domains d) of
       None \<Rightarrow> '''' | Some r \<Rightarrow> dom_status r)"

definition not_deleted :: "domain_row \<Rightarrow> bool" where
  "not_deleted r \<longleftrightarrow> dom_deleted_at r = None \<and> \<not> status_in (dom_status r) [''deleting'', ''deleted'']"

definition UpdateDomainVerified :: "string \<Rightarrow> string \<Rightarrow> (world, goerr + unit) state" where
  "UpdateDomainVerified domainID workspaceID = exec (\<lambda>t d. d\<lparr>domains :=
     update_where (\<lambda>r. this_domain domainID workspaceID r \<and> not_deleted r)
       (\<lambda>r. r\<lparr>dom_status := ''verified'',
              dom_verified_at := Some (coalesce (dom_verified_at r) t), dom_updated_at := t\<rparr>)
       (domains d)\<rparr>)"

definition UpdateDomainPending :: "string \<Rightarrow> string \<Rightarrow> nat \<Rightarrow> (world, goerr + unit) state" where
  "UpdateDomainPending domainID workspaceID attempts = exec (\<lambda>t d. d\<lparr>domains :=
     update_where (\<lambda>r. this_domain domainID workspaceID r \<and> not_deleted r)
       (\<lambda>r. r\<lparr>dom_status := ''pending'', dom_verification_attempts := int attempts,
              dom_last_check_at := Some t, dom_updated_at := t\<rparr>)
       (domains d)\<rparr>)"

definition UpdateDomainFailed :: "string \<Rightarrow> string \<Rightarrow> nat \<Rightarrow> (world, goerr + unit) state" where
  "UpdateDomainFailed domainID workspaceID attempts = exec (\<lambda>t d. d\<lparr>domains :=
     update_where (\<lambda>r. this_domain domainID workspaceID r \<and> not_deleted r)
       (\<lambda>r. r\<lparr>dom_status := ''failed'', dom_verification_attempts := int attempts,
              dom_last_check_at := Some t, dom_updated_at := t\<rparr>)
       (domains d)\<rparr>)"

record StaleVerifyingDomain =
  sd_ID :: string
  sd_WorkspaceID :: string
  sd_Domain :: string
  sd_OwnerEmail :: string
  sd_OwnerName :: string

definition stale_domain :: "int \<Rightarrow> int \<Rightarrow> domain_row \<Rightarrow> bool" where
  "stale_domain staleDuration t r \<longleftrightarrow>
     status_in (dom_status r) [''pending'', ''verifying''] \<and> dom_deleted_at r = None \<and>
     (case dom_started_at r of None \<Rightarrow> False | Some s \<Rightarrow> s \<le> t - staleDuration)"

text \<open>The joins with \<open>workspaces\<close> and \<open>users\<close>, the order by start time and the limit.\<close>

definition stale_domains :: "int \<Rightarrow> nat \<Rightarrow> int \<Rightarrow> pg \<Rightarrow> StaleVerifyingDomain list" where
  "stale_domains staleDuration limit t d = take limit
     (concat (map (\<lambda>r. concat (map (\<lambda>ws. map (\<lambda>u.
          \<lparr>sd_ID = dom_id r, sd_WorkspaceID = dom_workspace_id r, sd_Domain = dom_domain r,
           sd_OwnerEmail = usr_email u, sd_OwnerName = coalesce (usr_first_name u) ''''\<rparr>)
          (filter (\<lambda>u. usr_id u = ws_owner_user_id ws) (users d)))
        (filter (\<lambda>ws. ws_id ws = dom_workspace_id r) (workspaces d))))
      (sort_key (\<lambda>r. coalesce (dom_started_at r) 0)
        (filter (stale_domain staleDuration t) (domains d)))))"

definition GetStaleVerifyingDomains :: "int \<Rightarrow> nat \<Rightarrow> (world, goerr + StaleVerifyingDomain list) state" where
  "GetStaleVerifyingDomains staleDuration limit = do {
     r \<leftarrow> query (stale_domains staleDuration limit);
     State_Monad.return (case r of Inl e \<Rightarrow> Inl (Wrap ''get stale verifying domains'' e) | Inr x \<Rightarrow> Inr x)
   }"

definition MarkDomainExpired :: "string \<Rightarrow> string \<Rightarrow> (world, goerr + unit) state" where
  "MarkDomainExpired domainID workspaceID = exec (\<lambda>t d. d\<lparr>domains :=
     update_where (\<lambda>r. this_domain domainID workspaceID r \<and>
         status_in (dom_status r) [''pending'', ''verifying''] \<and> dom_deleted_at r = None)
       (\<lambda>r. r\<lparr>dom_status := ''failed'', dom_last_check_at := Some t, dom_updated_at := t\<rparr>)
       (domains d)\<rparr>)"

section \<open>email_sends\<close>

definition this_send :: "string \<Rightarrow> string \<Rightarrow> email_send_row \<Rightarrow> bool" where
  "this_send sendID workspaceID r \<longleftrightarrow> es_send_id r = sendID \<and> es_workspace_id r = workspaceID"

definition send_status :: "pg \<Rightarrow> string \<Rightarrow> string \<Rightarrow> string" where
  "send_status d sendID workspaceID =
     (case find (this_send sendID workspaceID) (email_sends d) of None \<Rightarrow> '''' | Some r \<Rightarrow> es_status r)"

definition GetEmailSendStatus :: "string \<Rightarrow> string \<Rightarrow> (world, goerr + string) state" where
  "GetEmailSendStatus sendID workspaceID = query (\<lambda>_ d. send_status d sendID workspaceID)"

definition mark_send_sending :: "string \<Rightarrow> string \<Rightarrow> int \<Rightarrow> pg \<Rightarrow> pg" where
  "mark_send_sending sendID workspaceID t d = d\<lparr>email_sends :=
     update_where (\<lambda>r. this_send sendID workspaceID r \<and>
         status_in (es_status r) [''queued'', ''failed'', ''sending''])
       (\<lambda>r. r\<lparr>es_status := ''sending'', es_updated_at := t\<rparr>) (email_sends d)\<rparr>"

definition UpdateEmailSendSending :: "string \<Rightarrow> string \<Rightarrow> (world, goerr + unit) state" where
  "UpdateEmailSendSending sendID workspaceID = exec (mark_send_sending sendID workspaceID)"

definition mark_send_sent :: "string \<Rightarrow> string \<Rightarrow> string \<Rightarrow> int \<Rightarrow> pg \<Rightarrow> pg" where
  "mark_send_sent sendID workspaceID providerMessageID t d = d\<lparr>email_sends :=
     update_where (\<lambda>r. this_send sendID workspaceID r \<and> \<not> status_in (es_status r) [''bounced''])
       (\<lambda>r. r\<lparr>es_status := ''sent'', es_provider_message_id := Some providerMessageID,
              es_failure_reason := None, es_updated_at := t\<rparr>) (email_sends d)\<rparr>"

definition UpdateEmailSendSent :: "string \<Rightarrow> string \<Rightarrow> string \<Rightarrow> (world, goerr + unit) state" where
  "UpdateEmailSendSent sendID workspaceID providerMessageID =
     exec (mark_send_sent sendID workspaceID providerMessageID)"

definition mark_send_failed :: "string \<Rightarrow> string \<Rightarrow> string \<Rightarrow> int \<Rightarrow> pg \<Rightarrow> pg" where
  "mark_send_failed sendID workspaceID reason t d = d\<lparr>email_sends :=
     update_where (\<lambda>r. this_send sendID workspaceID r \<and> \<not> status_in (es_status r) [''sent'', ''bounced''])
       (\<lambda>r. r\<lparr>es_status := ''failed'', es_failure_reason := Some reason, es_updated_at := t\<rparr>)
       (email_sends d)\<rparr>"

definition UpdateEmailSendFailed :: "string \<Rightarrow> string \<Rightarrow> string \<Rightarrow> (world, goerr + unit) state" where
  "UpdateEmailSendFailed sendID workspaceID reason = exec (mark_send_failed sendID workspaceID reason)"

section \<open>The segment-resolved contact stream\<close>

record Contact =
  c_ID :: string
  c_Email :: string
  c_Name :: string

definition eligible :: "string \<Rightarrow> string \<Rightarrow> pg \<Rightarrow> contact_row \<Rightarrow> bool" where
  "eligible workspaceID segmentID d c \<longleftrightarrow>
     ct_workspace_id c = workspaceID \<and>
     (\<exists>sm \<in> set (segment_memberships d). sm_contact_id sm = uuid_text (ct_id c) \<and>
        sm_workspace_id sm = ct_workspace_id c \<and> sm_segment_id sm = segmentID) \<and>
     ct_status c = ''active'' \<and> coalesce (ct_is_suppressed c) False = False \<and>
     coalesce (ct_is_email_valid c) True = True"

text \<open>
  \<^verbatim>\<open>ORDER BY c.id LIMIT\<close> of the rows after the key. A contact is in a segment at most once
  (the unique key \<^verbatim>\<open>(segment_id, contact_id)\<close> that \<open>InsertSegmentMembers\<close> relies on), so the join
  does not repeat rows.
\<close>

definition after_key :: "string \<Rightarrow> string \<Rightarrow> bool" where
  "after_key afterID i \<longleftrightarrow> afterID = '''' \<or> afterID < i"

definition id_text :: "contact_row \<Rightarrow> string" where
  "id_text c = uuid_text (ct_id c)"

definition segment_page :: "string \<Rightarrow> string \<Rightarrow> string \<Rightarrow> nat \<Rightarrow> pg \<Rightarrow> contact_row list" where
  "segment_page workspaceID segmentID afterID limit d =
     take limit (sort_key id_text
       (filter (\<lambda>c. eligible workspaceID segmentID d c \<and> after_key afterID (id_text c)) (contacts d)))"

text \<open>Scanning a \<^verbatim>\<open>NULL\<close> email into a Go string is an error of \<^verbatim>\<open>rows.Scan\<close>.\<close>

definition scan_null :: goerr where
  "scan_null = Err ''cannot scan NULL into *string''"

fun scan_contacts :: "contact_row list \<Rightarrow> goerr + Contact list" where
  "scan_contacts [] = Inr []"
| "scan_contacts (c # cs) =
     (case ct_email c of
        None \<Rightarrow> Inl scan_null
      | Some e \<Rightarrow>
          (case scan_contacts cs of
             Inl err \<Rightarrow> Inl err
           | Inr out \<Rightarrow> Inr (\<lparr>c_ID = id_text c, c_Email = e, c_Name = coalesce (ct_first_name c) ''''\<rparr> # out)))"

definition FetchSegmentContactsBatch ::
    "string \<Rightarrow> string \<Rightarrow> string \<Rightarrow> nat \<Rightarrow> (world, goerr + Contact list) state" where
  "FetchSegmentContactsBatch workspaceID segmentID afterID limit = do {
     r \<leftarrow> query (\<lambda>_. segment_page workspaceID segmentID afterID limit);
     State_Monad.return
       (case r of
          Inl e \<Rightarrow> Inl (Wrap ''fetch segment contacts'' e)
        | Inr rows \<Rightarrow> scan_contacts rows)
   }"

section \<open>campaigns\<close>

definition this_campaign :: "string \<Rightarrow> string \<Rightarrow> campaign_row \<Rightarrow> bool" where
  "this_campaign campaignID workspaceID r \<longleftrightarrow> cp_id r = campaignID \<and> cp_workspace_id r = workspaceID"

definition find_campaign :: "pg \<Rightarrow> string \<Rightarrow> string \<Rightarrow> campaign_row option" where
  "find_campaign d campaignID workspaceID = find (this_campaign campaignID workspaceID) (campaigns d)"

definition GetCampaignStatus :: "string \<Rightarrow> string \<Rightarrow> (world, goerr + string) state" where
  "GetCampaignStatus campaignID workspaceID = query (\<lambda>_ d.
     case find_campaign d campaignID workspaceID of None \<Rightarrow> '''' | Some r \<Rightarrow> cp_status r)"

definition start_campaign :: "string \<Rightarrow> string \<Rightarrow> nat \<Rightarrow> int \<Rightarrow> pg \<Rightarrow> pg" where
  "start_campaign campaignID workspaceID totalRecipients t d = d\<lparr>campaigns :=
     update_where (\<lambda>r. this_campaign campaignID workspaceID r \<and>
         status_in (cp_status r) [''queued'', ''sending''])
       (\<lambda>r. r\<lparr>cp_status := ''sending'', cp_total_recipients := int totalRecipients,
              cp_started_at := Some (coalesce (cp_started_at r) t), cp_updated_at := t\<rparr>) (campaigns d)\<rparr>"

definition UpdateCampaignStarted :: "string \<Rightarrow> string \<Rightarrow> nat \<Rightarrow> (world, goerr + unit) state" where
  "UpdateCampaignStarted campaignID workspaceID totalRecipients =
     exec (start_campaign campaignID workspaceID totalRecipients)"

record CampaignProgress =
  pr_SentCount :: int
  pr_FailedCount :: int
  pr_TotalRecipients :: int

definition ErrNoRows :: goerr where
  "ErrNoRows = Err ''no rows in result set''"

definition increment_counts ::
    "string \<Rightarrow> string \<Rightarrow> nat \<Rightarrow> nat \<Rightarrow> int \<Rightarrow> pg \<Rightarrow> (goerr + CampaignProgress) \<times> pg" where
  "increment_counts campaignID workspaceID sentDelta failedDelta t d =
     (let d' = d\<lparr>campaigns := update_where (this_campaign campaignID workspaceID)
            (\<lambda>r. r\<lparr>cp_sent_count := cp_sent_count r + int sentDelta,
                   cp_failed_count := cp_failed_count r + int failedDelta, cp_updated_at := t\<rparr>) (campaigns d)\<rparr>
      in case find_campaign d' campaignID workspaceID of
           None \<Rightarrow> (Inl ErrNoRows, d')
         | Some r \<Rightarrow> (Inr \<lparr>pr_SentCount = cp_sent_count r, pr_FailedCount = cp_failed_count r,
                           pr_TotalRecipients = cp_total_recipients r\<rparr>, d'))"

definition IncrementCampaignCounts ::
    "string \<Rightarrow> string \<Rightarrow> nat \<Rightarrow> nat \<Rightarrow> (world, goerr + CampaignProgress) state" where
  "IncrementCampaignCounts campaignID workspaceID sentDelta failedDelta =
     exec_returning (increment_counts campaignID workspaceID sentDelta failedDelta)"

definition completable :: "string \<Rightarrow> string \<Rightarrow> campaign_row \<Rightarrow> bool" where
  "completable campaignID workspaceID r \<longleftrightarrow>
     this_campaign campaignID workspaceID r \<and> cp_completed_at r = None \<and>
     cp_total_recipients r > 0 \<and> cp_sent_count r + cp_failed_count r \<ge> cp_total_recipients r"

definition complete_campaign :: "string \<Rightarrow> string \<Rightarrow> int \<Rightarrow> pg \<Rightarrow> (goerr + bool) \<times> pg" where
  "complete_campaign campaignID workspaceID t d =
     (Inr (affected (completable campaignID workspaceID) (campaigns d) = 1),
      d\<lparr>campaigns := update_where (completable campaignID workspaceID)
          (\<lambda>r. r\<lparr>cp_status := ''completed'', cp_completed_at := Some t, cp_updated_at := t\<rparr>) (campaigns d)\<rparr>)"

definition MarkCampaignComplete :: "string \<Rightarrow> string \<Rightarrow> (world, goerr + bool) state" where
  "MarkCampaignComplete campaignID workspaceID = exec_returning (complete_campaign campaignID workspaceID)"

definition complete_empty_campaign :: "string \<Rightarrow> string \<Rightarrow> int \<Rightarrow> pg \<Rightarrow> pg" where
  "complete_empty_campaign campaignID workspaceID t d = d\<lparr>campaigns :=
     update_where (\<lambda>r. this_campaign campaignID workspaceID r \<and>
         \<not> status_in (cp_status r) [''completed'', ''failed''])
       (\<lambda>r. r\<lparr>cp_status := ''completed'', cp_completed_at := Some t, cp_total_recipients := 0,
              cp_started_at := Some (coalesce (cp_started_at r) t), cp_updated_at := t\<rparr>) (campaigns d)\<rparr>"

definition MarkCampaignCompleteEmpty :: "string \<Rightarrow> string \<Rightarrow> (world, goerr + unit) state" where
  "MarkCampaignCompleteEmpty campaignID workspaceID = exec (complete_empty_campaign campaignID workspaceID)"

definition fail_campaign :: "string \<Rightarrow> string \<Rightarrow> string \<Rightarrow> int \<Rightarrow> pg \<Rightarrow> pg" where
  "fail_campaign campaignID workspaceID reason t d = d\<lparr>campaigns :=
     update_where (\<lambda>r. this_campaign campaignID workspaceID r \<and>
         \<not> status_in (cp_status r) [''completed'', ''failed''])
       (\<lambda>r. r\<lparr>cp_status := ''failed'', cp_failure_reason := Some reason,
              cp_completed_at := Some t, cp_updated_at := t\<rparr>) (campaigns d)\<rparr>"

definition UpdateCampaignFailed :: "string \<Rightarrow> string \<Rightarrow> string \<Rightarrow> (world, goerr + unit) state" where
  "UpdateCampaignFailed campaignID workspaceID reason = exec (fail_campaign campaignID workspaceID reason)"

record DueCampaign =
  du_ID :: string
  du_WorkspaceID :: string
  du_SegmentID :: string
  du_SenderEmail :: string
  du_SenderName :: string
  du_ReplyTo :: string
  du_Subject :: string
  du_HTMLBody :: string
  du_TextBody :: string

definition due :: "int \<Rightarrow> campaign_row \<Rightarrow> bool" where
  "due t r \<longleftrightarrow> cp_status r = ''scheduled'' \<and>
     (case cp_scheduled_at r of None \<Rightarrow> False | Some s \<Rightarrow> s \<le> t) \<and> cp_deleted_at r = None"

definition due_of :: "campaign_row \<Rightarrow> DueCampaign" where
  "due_of r = \<lparr>du_ID = cp_id r, du_WorkspaceID = cp_workspace_id r,
     du_SegmentID = coalesce (cp_segment_id r) '''', du_SenderEmail = coalesce (cp_sender_email r) '''',
     du_SenderName = coalesce (cp_sender_name r) '''', du_ReplyTo = coalesce (cp_reply_to r) '''',
     du_Subject = coalesce (cp_subject r) '''', du_HTMLBody = coalesce (cp_html_body r) '''',
     du_TextBody = coalesce (cp_text_body r) ''''\<rparr>"

definition take_due :: "nat \<Rightarrow> int \<Rightarrow> pg \<Rightarrow> (goerr + DueCampaign list) \<times> pg" where
  "take_due limit t d =
     (let ids = map cp_id (take limit (sort_key (\<lambda>r. coalesce (cp_scheduled_at r) 0)
            (filter (due t) (campaigns d))))
      in (Inr (map due_of (filter (\<lambda>r. cp_id r \<in> set ids) (campaigns d))),
          d\<lparr>campaigns := update_where (\<lambda>r. cp_id r \<in> set ids)
              (\<lambda>r. r\<lparr>cp_status := ''sending'', cp_started_at := Some (coalesce (cp_started_at r) t),
                     cp_updated_at := t\<rparr>) (campaigns d)\<rparr>))"

definition GetDueCampaigns :: "nat \<Rightarrow> (world, goerr + DueCampaign list) state" where
  "GetDueCampaigns limit = do {
     r \<leftarrow> exec_returning (take_due limit);
     State_Monad.return (case r of Inl e \<Rightarrow> Inl (Wrap ''get due campaigns'' e) | Inr x \<Rightarrow> Inr x)
   }"

section \<open>campaign_recipients\<close>

record CampaignRecipientRow =
  r_ID :: string
  r_Email :: string
  r_Name :: string

definition recipient_of :: "recipient_row \<Rightarrow> CampaignRecipientRow" where
  "recipient_of r = \<lparr>r_ID = cr_id r, r_Email = cr_email r, r_Name = coalesce (cr_name r) ''''\<rparr>"

text \<open>
  One \<^verbatim>\<open>INSERT .. ON CONFLICT (campaign_id, contact_id) DO UPDATE .. RETURNING\<close> of the bulk
  insert; the row a conflict returns is the one already there.
\<close>

definition upsert_recipient ::
    "int \<Rightarrow> string \<Rightarrow> string \<Rightarrow> string \<Rightarrow> Contact \<Rightarrow> recipient_row list \<Rightarrow>
     CampaignRecipientRow \<times> recipient_row list" where
  "upsert_recipient t newID campaignID workspaceID ct rs =
     (let hit = (\<lambda>r. cr_campaign_id r = campaignID \<and> cr_contact_id r = c_ID ct) in
      case find hit rs of
        Some r \<Rightarrow> (recipient_of r, update_where hit (\<lambda>r. r\<lparr>cr_updated_at := t\<rparr>) rs)
      | None \<Rightarrow>
          (let r = \<lparr>cr_id = newID, cr_campaign_id = campaignID, cr_workspace_id = workspaceID,
                 cr_contact_id = c_ID ct, cr_email = c_Email ct, cr_name = Some (c_Name ct),
                 cr_status = ''queued'', cr_provider_message_id = None, cr_failure_reason = None,
                 cr_sent_at = None, cr_created_at = t, cr_updated_at = t\<rparr>
           in (recipient_of r, rs @ [r])))"

text \<open>
  The transaction: every statement is a call of its own on the transaction's copy of the table,
  and the commit publishes the copy. An error before the commit leaves the table as it was.
\<close>

fun insert_recipients ::
    "string \<Rightarrow> string \<Rightarrow> Contact list \<Rightarrow> recipient_row list \<Rightarrow>
     (world, goerr + CampaignRecipientRow list \<times> recipient_row list) state" where
  "insert_recipients campaignID workspaceID [] rs = State_Monad.return (Inr ([], rs))"
| "insert_recipients campaignID workspaceID (ct # cts) rs = do {
     newID \<leftarrow> new_uuid;
     x \<leftarrow> call (\<lambda>w. (Inr (upsert_recipient (now w) newID campaignID workspaceID ct rs), w));
     case x of
       Inl e \<Rightarrow> State_Monad.return (Inl (Wrap (''insert recipient '' @ c_Email ct) e))
     | Inr (row, rs') \<Rightarrow> do {
         y \<leftarrow> insert_recipients campaignID workspaceID cts rs';
         State_Monad.return (case y of Inl e \<Rightarrow> Inl e | Inr (out, rs'') \<Rightarrow> Inr (row # out, rs''))
       }
   }"

definition BulkInsertCampaignRecipients ::
    "string \<Rightarrow> string \<Rightarrow> Contact list \<Rightarrow> (world, goerr + CampaignRecipientRow list) state" where
  "BulkInsertCampaignRecipients campaignID workspaceID cts =
     (if cts = [] then State_Monad.return (Inr []) else do {
        b \<leftarrow> query (\<lambda>_ d. campaign_recipients d);
        case b of
          Inl e \<Rightarrow> State_Monad.return (Inl (Wrap ''begin tx'' e))
        | Inr rs \<Rightarrow> do {
            x \<leftarrow> insert_recipients campaignID workspaceID cts rs;
            case x of
              Inl e \<Rightarrow> State_Monad.return (Inl e)
            | Inr (out, rs') \<Rightarrow> do {
                c \<leftarrow> exec (\<lambda>_ d. d\<lparr>campaign_recipients := rs'\<rparr>);
                State_Monad.return (case c of Inl e \<Rightarrow> Inl (Wrap ''commit tx'' e) | Inr _ \<Rightarrow> Inr out)
              }
          }
      })"

definition this_recipient :: "string \<Rightarrow> string \<Rightarrow> recipient_row \<Rightarrow> bool" where
  "this_recipient recipientID workspaceID r \<longleftrightarrow> cr_id r = recipientID \<and> cr_workspace_id r = workspaceID"

definition recipient_status :: "pg \<Rightarrow> string \<Rightarrow> string \<Rightarrow> string" where
  "recipient_status d recipientID workspaceID =
     (case find (this_recipient recipientID workspaceID) (campaign_recipients d) of
        None \<Rightarrow> '''' | Some r \<Rightarrow> cr_status r)"

definition GetCampaignRecipientStatus :: "string \<Rightarrow> string \<Rightarrow> (world, goerr + string) state" where
  "GetCampaignRecipientStatus recipientID workspaceID =
     query (\<lambda>_ d. recipient_status d recipientID workspaceID)"

definition mark_recipient_sending :: "string \<Rightarrow> string \<Rightarrow> int \<Rightarrow> pg \<Rightarrow> pg" where
  "mark_recipient_sending recipientID workspaceID t d = d\<lparr>campaign_recipients :=
     update_where (\<lambda>r. this_recipient recipientID workspaceID r \<and>
         status_in (cr_status r) [''queued'', ''failed'', ''sending''])
       (\<lambda>r. r\<lparr>cr_status := ''sending'', cr_updated_at := t\<rparr>) (campaign_recipients d)\<rparr>"

definition MarkCampaignRecipientSending :: "string \<Rightarrow> string \<Rightarrow> (world, goerr + unit) state" where
  "MarkCampaignRecipientSending recipientID workspaceID = exec (mark_recipient_sending recipientID workspaceID)"

definition mark_recipient_sent :: "string \<Rightarrow> string \<Rightarrow> string \<Rightarrow> int \<Rightarrow> pg \<Rightarrow> pg" where
  "mark_recipient_sent recipientID workspaceID providerMessageID t d = d\<lparr>campaign_recipients :=
     update_where (\<lambda>r. this_recipient recipientID workspaceID r \<and> \<not> status_in (cr_status r) [''bounced''])
       (\<lambda>r. r\<lparr>cr_status := ''sent'', cr_provider_message_id := Some providerMessageID,
              cr_failure_reason := None, cr_sent_at := Some (coalesce (cr_sent_at r) t), cr_updated_at := t\<rparr>)
       (campaign_recipients d)\<rparr>"

definition MarkCampaignRecipientSent :: "string \<Rightarrow> string \<Rightarrow> string \<Rightarrow> (world, goerr + unit) state" where
  "MarkCampaignRecipientSent recipientID workspaceID providerMessageID =
     exec (mark_recipient_sent recipientID workspaceID providerMessageID)"

definition mark_recipient_failed :: "string \<Rightarrow> string \<Rightarrow> string \<Rightarrow> int \<Rightarrow> pg \<Rightarrow> pg" where
  "mark_recipient_failed recipientID workspaceID reason t d = d\<lparr>campaign_recipients :=
     update_where (\<lambda>r. this_recipient recipientID workspaceID r \<and>
         \<not> status_in (cr_status r) [''sent'', ''bounced''])
       (\<lambda>r. r\<lparr>cr_status := ''failed'', cr_failure_reason := Some reason, cr_updated_at := t\<rparr>)
       (campaign_recipients d)\<rparr>"

definition MarkCampaignRecipientFailed :: "string \<Rightarrow> string \<Rightarrow> string \<Rightarrow> (world, goerr + unit) state" where
  "MarkCampaignRecipientFailed recipientID workspaceID reason =
     exec (mark_recipient_failed recipientID workspaceID reason)"

section \<open>Frame\<close>

text \<open>Every query leaves what is outside the database alone.\<close>

lemma preserves_insert_recipients [frame]:
  "steady f \<Longrightarrow> preserves f (insert_recipients c ws cts rs)"
proof (induction c ws cts rs rule: insert_recipients.induct)
  case (1 c ws rs)
  then show ?case by (simp add: preserves_return)
next
  case (2 c ws ct cts rs)
  then show ?case by (simp, intro frame) auto
qed

lemma pg_delivery_reads [frame]:
  assumes "steady f"
  shows "preserves f (GetDomainStatus a b)" "preserves f (GetStaleVerifyingDomains i n)"
    "preserves f (GetEmailSendStatus a b)" "preserves f (FetchSegmentContactsBatch a b c n)"
    "preserves f (GetCampaignStatus a b)" "preserves f (GetCampaignRecipientStatus a b)"
  unfolding GetDomainStatus_def GetStaleVerifyingDomains_def GetEmailSendStatus_def
    FetchSegmentContactsBatch_def GetCampaignStatus_def GetCampaignRecipientStatus_def
  by (intro frame assms)+

lemma pg_delivery_frame [frame]:
  assumes "steady f" and "\<And>w d. f (w\<lparr>db := d\<rparr>) = f w"
  shows "preserves f (UpdateDomainVerified a b)"
    "preserves f (UpdateDomainPending a b n)" "preserves f (UpdateDomainFailed a b n)"
    "preserves f (MarkDomainExpired a b)" "preserves f (UpdateEmailSendSending a b)"
    "preserves f (UpdateEmailSendSent a b c)" "preserves f (UpdateEmailSendFailed a b c)"
    "preserves f (UpdateCampaignStarted a b n)" "preserves f (IncrementCampaignCounts a b n m)"
    "preserves f (MarkCampaignComplete a b)" "preserves f (MarkCampaignCompleteEmpty a b)"
    "preserves f (UpdateCampaignFailed a b c)" "preserves f (GetDueCampaigns n)"
    "preserves f (BulkInsertCampaignRecipients a b cts)"
    "preserves f (MarkCampaignRecipientSending a b)" "preserves f (MarkCampaignRecipientSent a b c)"
    "preserves f (MarkCampaignRecipientFailed a b c)"
  unfolding UpdateDomainVerified_def UpdateDomainPending_def UpdateDomainFailed_def
    MarkDomainExpired_def UpdateEmailSendSending_def
    UpdateEmailSendSent_def UpdateEmailSendFailed_def
    UpdateCampaignStarted_def IncrementCampaignCounts_def MarkCampaignComplete_def
    MarkCampaignCompleteEmpty_def UpdateCampaignFailed_def GetDueCampaigns_def
    BulkInsertCampaignRecipients_def MarkCampaignRecipientSending_def
    MarkCampaignRecipientSent_def MarkCampaignRecipientFailed_def
  by (intro frame assms)+

section \<open>Statuses after an update\<close>

lemma this_send_update [simp]:
  "this_send i ws (es_status_update f r) = this_send i ws r"
  "this_send i ws (es_updated_at_update g r) = this_send i ws r"
  "this_send i ws (es_provider_message_id_update h r) = this_send i ws r"
  "this_send i ws (es_failure_reason_update h r) = this_send i ws r"
  by (simp_all add: this_send_def)

lemma send_status_sending:
  "send_status (mark_send_sending i ws t d) i ws =
     (if status_in (send_status d i ws) [''queued'', ''failed'', ''sending''] then ''sending'' else send_status d i ws)"
  by (auto simp: send_status_def mark_send_sending_def find_update_sub split: option.split)

lemma send_status_sent:
  "send_status d i ws \<noteq> '''' \<Longrightarrow> send_status (mark_send_sent i ws mid t d) i ws =
     (if send_status d i ws = ''bounced'' then ''bounced'' else ''sent'')"
  by (auto simp: send_status_def mark_send_sent_def find_update_sub split: option.splits)

lemma send_status_failed:
  "send_status d i ws \<noteq> '''' \<Longrightarrow> send_status (mark_send_failed i ws rsn t d) i ws =
     (if status_in (send_status d i ws) [''sent'', ''bounced''] then send_status d i ws else ''failed'')"
  by (auto simp: send_status_def mark_send_failed_def find_update_sub split: option.splits)

lemmas send_status_marks = send_status_sending send_status_sent send_status_failed

lemma this_recipient_update [simp]:
  "this_recipient i ws (cr_status_update f r) = this_recipient i ws r"
  "this_recipient i ws (cr_updated_at_update g r) = this_recipient i ws r"
  "this_recipient i ws (cr_sent_at_update g' r) = this_recipient i ws r"
  "this_recipient i ws (cr_provider_message_id_update h r) = this_recipient i ws r"
  "this_recipient i ws (cr_failure_reason_update h r) = this_recipient i ws r"
  by (simp_all add: this_recipient_def)

lemma recipient_status_sending:
  "recipient_status (mark_recipient_sending i ws t d) i ws =
     (if status_in (recipient_status d i ws) [''queued'', ''failed'', ''sending''] then ''sending''
      else recipient_status d i ws)"
  by (auto simp: recipient_status_def mark_recipient_sending_def find_update_sub split: option.split)

lemma recipient_status_sent:
  "recipient_status d i ws \<noteq> '''' \<Longrightarrow> recipient_status (mark_recipient_sent i ws mid t d) i ws =
     (if recipient_status d i ws = ''bounced'' then ''bounced'' else ''sent'')"
  by (auto simp: recipient_status_def mark_recipient_sent_def find_update_sub split: option.splits)

lemma recipient_status_failed:
  "recipient_status d i ws \<noteq> '''' \<Longrightarrow> recipient_status (mark_recipient_failed i ws rsn t d) i ws =
     (if status_in (recipient_status d i ws) [''sent'', ''bounced''] then recipient_status d i ws else ''failed'')"
  by (auto simp: recipient_status_def mark_recipient_failed_def find_update_sub split: option.splits)

lemmas recipient_status_marks = recipient_status_sending recipient_status_sent recipient_status_failed

lemma this_campaign_update [simp]:
  "this_campaign i ws (cp_status_update f1 r) = this_campaign i ws r"
  "this_campaign i ws (cp_sent_count_update f2 r) = this_campaign i ws r"
  "this_campaign i ws (cp_failed_count_update f3 r) = this_campaign i ws r"
  "this_campaign i ws (cp_updated_at_update f4 r) = this_campaign i ws r"
  "this_campaign i ws (cp_completed_at_update f5 r) = this_campaign i ws r"
  "this_campaign i ws (cp_started_at_update f5 r) = this_campaign i ws r"
  "this_campaign i ws (cp_total_recipients_update f6 r) = this_campaign i ws r"
  "this_campaign i ws (cp_failure_reason_update f7 r) = this_campaign i ws r"
  by (simp_all add: this_campaign_def)

end
