(* ===== verification/Renderer.thy ===== *)
theory Renderer
  imports GoStrings Payloads
begin

text \<open>
  \<^verbatim>\<open>internal/worker/email/renderer.go\<close>: the body a message is sent with, and the plain-text
  fallback computed from its HTML.
\<close>

section \<open>htmlToText\<close>

text \<open>\<open>tagRE\<close>, \<^verbatim>\<open><[^>]*>\<close>: from a \<open><\<close> to the first \<open>></\<close> after it, if there is one.\<close>

function strip_tags :: "string \<Rightarrow> string" where
  "strip_tags [] = []"
| "strip_tags (c # cs) =
     (if c = CHR ''<'' \<and> CHR ''>'' \<in> set cs
      then SP # strip_tags (tl (dropWhile (\<lambda>x. x \<noteq> CHR ''>'') cs))
      else c # strip_tags cs)"
  by pat_completeness auto
termination
  by (relation "measure length") (auto simp: le_imp_less_Suc le_diff_conv length_dropWhile_le
      intro: le_less_trans [OF diff_le_self])

text \<open>The replacer of the HTML entities: one pass, the first matching pair at each position.\<close>

definition entities :: "(string \<times> string) list" where
  "entities = [(''&nbsp;'', '' ''), (''&amp;'', ''&''), (''&lt;'', ''<''), (''&gt;'', ''>''),
     (''&quot;'', [CHR 0x22]), (''&#39;'', [CHR 0x27])]"

fun match_entity :: "(string \<times> string) list \<Rightarrow> string \<Rightarrow> (string \<times> string) option" where
  "match_entity [] s = None"
| "match_entity ((old, new) # ps) s =
     (case strip_prefix old s of Some r \<Rightarrow> Some (new, r) | None \<Rightarrow> match_entity ps s)"

lemma match_entity_shorter:
  "match_entity ps s = Some (new, r) \<Longrightarrow> \<forall>(old, _) \<in> set ps. old \<noteq> [] \<Longrightarrow> length r < length s"
  by (induction ps s rule: match_entity.induct) (auto simp: strip_prefix_Some split: option.splits)

lemma entities_nonempty: "\<forall>(old, _) \<in> set entities. old \<noteq> []"
  by (simp add: entities_def)

function unescape :: "string \<Rightarrow> string" where
  "unescape [] = []"
| "unescape (c # cs) =
     (case match_entity entities (c # cs) of
        Some (new, r) \<Rightarrow> new @ unescape r
      | None \<Rightarrow> c # unescape cs)"
  by pat_completeness auto
termination
  by (relation "measure length") (auto dest!: match_entity_shorter [OF _ entities_nonempty])

definition is_hspace :: "char \<Rightarrow> bool" where
  "is_hspace c \<longleftrightarrow> c \<in> {SP, CHR 0x09, CHR 0x0D, CHR 0x0C, CHR 0x0B}"

definition is_newline :: "char \<Rightarrow> bool" where
  "is_newline c \<longleftrightarrow> c = NL"

definition htmlToText :: "string \<Rightarrow> string" where
  "htmlToText html =
     (let s = strip_tags html;
          s = unescape s;
          s = replace_runs is_hspace 1 [SP] s;
          s = replace_runs is_newline 3 [NL, NL] s
      in TrimSpace s)"

section \<open>Render\<close>

record Rendered =
  rd_Subject :: string
  rd_HTML :: string
  rd_Text :: string

definition Render :: "TransactionalEmailPayload \<Rightarrow> string + Rendered" where
  "Render p =
     (let out = \<lparr>rd_Subject = TrimSpace (tx_Subject p), rd_HTML = tx_HTML p, rd_Text = tx_Text p\<rparr> in
      if rd_HTML out = '''' \<and> rd_Text out = ''''
      then Inl ''renderer: payload has no html or text body''
      else if rd_Text out = '''' then Inr (out\<lparr>rd_Text := htmlToText (rd_HTML out)\<rparr>)
      else Inr out)"

lemma Render_cases:
  "Render p = Inr out \<longleftrightarrow>
     (tx_HTML p \<noteq> '''' \<or> tx_Text p \<noteq> '''') \<and>
     out = \<lparr>rd_Subject = TrimSpace (tx_Subject p), rd_HTML = tx_HTML p,
            rd_Text = (if tx_Text p = '''' then htmlToText (tx_HTML p) else tx_Text p)\<rparr>"
  by (auto simp: Render_def Let_def)

section \<open>Properties\<close>

text \<open>
  The plain-text fallback is normalised, whatever the HTML: it has no two horizontal
  spaces in a row and no three newlines in a row, even after entities have been unescaped.
\<close>

theorem htmlToText_normalised:
  "ok_runs is_hspace 1 0 (htmlToText html) \<and> ok_runs is_newline 2 0 (htmlToText html)"
proof -
  define s where "s = replace_runs is_hspace 1 [SP] (unescape (strip_tags html))"
  have "ok_runs is_hspace 1 0 s"
    unfolding s_def by (rule ok_runs_replace) (simp_all add: is_hspace_def)
  then have "ok_runs is_hspace 1 0 (replace_runs is_newline 3 [NL, NL] s)"
    by (intro ok_runs_replace_other) (auto simp: is_newline_def is_hspace_def)
  moreover have "ok_runs is_newline 2 0 (replace_runs is_newline 3 [NL, NL] s)"
    by (rule ok_runs_replace) (simp_all add: is_newline_def)
  ultimately show ?thesis
    by (simp add: htmlToText_def Let_def s_def ok_runs_TrimSpace)
qed

end
