(* ===== verification/TransactionalEmail.thy ===== *)
theory TransactionalEmail
  imports Messaging PgDelivery Renderer
begin

text \<open>
  The transactional email worker: \<^verbatim>\<open>internal/worker/email/handler.go\<close>, lines 1 to 407. \<open>Handle\<close>
  is \<open>Handle_transactional\<close>; the part after rendering, which sends and settles, is
  \<open>send_and_settle\<close>.
\<close>

section \<open>Constants and validation\<close>

definition RetryDelays :: "int list" where
  "RetryDelays = [1 * Minute, 5 * Minute, 15 * Minute, 30 * Minute, 2 * Hour]"

definition MaxAttempts :: nat where
  "MaxAttempts = 6"

definition rateLimitWaitBudget :: int where
  "rateLimitWaitBudget = 5 * Second"

text \<open>The limiter key of a workspace, which the transactional and the campaign handler share.\<close>

definition ratelimit_key :: "string \<Rightarrow> string" where
  "ratelimit_key workspaceID = ''ratelimit:ses:'' @ workspaceID"

abbreviation SubjectSend :: string where "SubjectSend \<equiv> ''email.send.transactional''"
abbreviation SubjectEvents :: string where "SubjectEvents \<equiv> ''email.delivery.events''"
abbreviation SubjectDLQ :: string where "SubjectDLQ \<equiv> ''email.send.dlq''"

datatype invalid =
    MissingIDs | MissingRecipients | EmptyRecipient nat | EmptySender | EmptySubject | EmptyBody
  | UnsupportedProvider string

fun first_empty :: "nat \<Rightarrow> EmailAddress list \<Rightarrow> nat option" where
  "first_empty i [] = None"
| "first_empty i (a # as) = (if addr_Email a = '''' then Some i else first_empty (Suc i) as)"

definition validatePayload :: "TransactionalEmailPayload \<Rightarrow> invalid option" where
  "validatePayload p =
     (if tx_SendID p = '''' \<or> tx_WorkspaceID p = '''' \<or> tx_JobID p = '''' then Some MissingIDs
      else if tx_To p = [] then Some MissingRecipients
      else case first_empty 0 (tx_To p) of
        Some i \<Rightarrow> Some (EmptyRecipient i)
      | None \<Rightarrow>
          if addr_Email (tx_From p) = '''' then Some EmptySender
          else if tx_Subject p = '''' then Some EmptySubject
          else if tx_HTML p = '''' \<and> tx_Text p = '''' then Some EmptyBody
          else if tx_Provider p \<noteq> '''' \<and> tx_Provider p \<noteq> ''ses'' then Some (UnsupportedProvider (tx_Provider p))
          else None)"

definition extractEmails :: "EmailAddress list \<Rightarrow> string list" where
  "extractEmails addrs = map addr_Email addrs"

definition nextDelay :: "int \<Rightarrow> int" where
  "nextDelay attempt =
     (let idx = attempt - 1; idx = (if idx < 0 then 0 else idx) in
      if idx \<ge> int (length RetryDelays) then last RetryDelays else RetryDelays ! nat idx)"

section \<open>Events and the dead-letter queue\<close>

definition publishDeliveryEvent ::
    "TransactionalEmailPayload \<Rightarrow> string \<Rightarrow> string \<Rightarrow> string \<Rightarrow> (world, goerr + unit) state" where
  "publishDeliveryEvent p providerMessageID status reason = do {
     t \<leftarrow> time_now;
     Publish SubjectEvents
       (PDelivery \<lparr>ev_WorkspaceID = tx_WorkspaceID p, ev_SendID = tx_SendID p, ev_CampaignID = '''',
          ev_RecipientEmail = '''', ev_ProviderMessageID = providerMessageID, ev_Status = status,
          ev_Reason = reason, ev_Timestamp = t\<rparr>)
       (''delivery-'' @ tx_SendID p @ ''-'' @ status)
   }"

definition publishDLQ :: "TransactionalEmailPayload \<Rightarrow> string \<Rightarrow> nat \<Rightarrow> (world, unit) state" where
  "publishDLQ p reason attempt = do {
     t \<leftarrow> time_now;
     _ \<leftarrow> Publish SubjectDLQ
       (PTransactionalDLQ \<lparr>txdlq_Payload = p, txdlq_Reason = reason, txdlq_Attempts = attempt,
          txdlq_Timestamp = t\<rparr>)
       (''dlq-'' @ tx_SendID p);
     State_Monad.return ()
   }"

definition markFailedAndPublishEvent :: "TransactionalEmailPayload \<Rightarrow> string \<Rightarrow> (world, unit) state" where
  "markFailedAndPublishEvent p reason = do {
     _ \<leftarrow> UpdateEmailSendFailed (tx_SendID p) (tx_WorkspaceID p) reason;
     _ \<leftarrow> publishDeliveryEvent p '''' ''failed'' reason;
     State_Monad.return ()
   }"

section \<open>The handler\<close>

record EmailHandler =
  eh_limiter :: TokenBucket
  eh_classifier :: "goerr \<Rightarrow> bool"

definition NewHandler :: "TokenBucket \<Rightarrow> EmailHandler" where
  "NewHandler limiter = \<lparr>eh_limiter = limiter, eh_classifier = IsPermanentError\<rparr>"

definition send_input :: "TransactionalEmailPayload \<Rightarrow> Rendered \<Rightarrow> SendEmailInput" where
  "send_input p rendered = \<lparr>in_From = addr_Email (tx_From p), in_FromName = addr_Name (tx_From p),
     in_To = extractEmails (tx_To p),
     in_ReplyTo = (if tx_ReplyTo p \<noteq> '''' then [tx_ReplyTo p] else []),
     in_Subject = rd_Subject rendered, in_HTMLBody = rd_HTML rendered, in_TextBody = rd_Text rendered,
     in_Tags = tx_Tags p\<rparr>"

definition send_and_settle ::
    "EmailHandler \<Rightarrow> TransactionalEmailPayload \<Rightarrow> nat \<Rightarrow> Rendered \<Rightarrow> (world, hresult) state" where
  "send_and_settle h p attempt rendered = do {
     out \<leftarrow> SendEmail (send_input p rendered);
     case out of
       Inl sendErr \<Rightarrow> do {
         inc ''email_ses_failures_total'';
         if eh_classifier h sendErr then do {
           markFailedAndPublishEvent p (err_string sendErr);
           inc ''email_failed_total'';
           finish Ack
         } else if attempt \<ge> MaxAttempts then do {
           publishDLQ p (err_string sendErr) attempt;
           markFailedAndPublishEvent p (''max retries: '' @ err_string sendErr);
           inc ''email_failed_total'';
           inc ''email_dlq_total'';
           finish Term
         } else do {
           inc ''email_retries_total'';
           finish Nak
         }
       }
     | Inr messageID \<Rightarrow> do {
         _ \<leftarrow> UpdateEmailSendSent (tx_SendID p) (tx_WorkspaceID p) messageID;
         _ \<leftarrow> publishDeliveryEvent p messageID ''sent'' '''';
         inc ''email_sent_total'';
         finish Ack
       }
   }"

definition Handle_transactional ::
    "EmailHandler \<Rightarrow> TransactionalEmailPayload message \<Rightarrow> (world, hresult) state" where
  "Handle_transactional h msg = do {
     inc ''email_processed_total'';
     case Data msg of
       None \<Rightarrow> finish Term
     | Some p \<Rightarrow>
         if validatePayload p \<noteq> None then finish Term else do {
           st \<leftarrow> GetEmailSendStatus (tx_SendID p) (tx_WorkspaceID p);
           case st of
             Inl e \<Rightarrow> finish Nak
           | Inr status \<Rightarrow>
               if status = ''sent'' \<or> status = ''bounced'' then finish Ack else do {
                 (waited, rlErr) \<leftarrow> Acquire (eh_limiter h) (ratelimit_key (tx_WorkspaceID p)) rateLimitWaitBudget;
                 case rlErr of
                   Some e \<Rightarrow> do {
                     inc ''email_rate_limit_waits_total'';
                     finish Nak
                   }
                 | None \<Rightarrow> do {
                     (if waited > 0 then inc ''email_rate_limit_waits_total'' else State_Monad.return ());
                     upd \<leftarrow> UpdateEmailSendSending (tx_SendID p) (tx_WorkspaceID p);
                     case upd of
                       Inl e \<Rightarrow> finish Nak
                     | Inr _ \<Rightarrow>
                         (case Render p of
                            Inl err \<Rightarrow> do {
                              markFailedAndPublishEvent p (''render: '' @ err);
                              inc ''email_failed_total'';
                              finish Term
                            }
                          | Inr rendered \<Rightarrow> send_and_settle h p (attempt_of msg) rendered)
                   }
               }
         }
   }"

section \<open>The message contract\<close>

lemma tx_publish_frame [frame]:
  assumes "steady f" and "\<And>w p. f (w\<lparr>published := p\<rparr>) = f w"
  shows "preserves f (publishDeliveryEvent p m s r)" "preserves f (publishDLQ p r n)"
  unfolding publishDeliveryEvent_def publishDLQ_def by (intro frame assms)+

lemma tx_failed_frame [frame]:
  assumes "steady f" and "\<And>w p. f (w\<lparr>published := p\<rparr>) = f w" and "\<And>w d. f (w\<lparr>db := d\<rparr>) = f w"
  shows "preserves f (markFailedAndPublishEvent p r)"
  unfolding markFailedAndPublishEvent_def by (intro frame assms)

lemma Handle_transactional_settles: "settles_once (Handle_transactional h m)"
  unfolding Handle_transactional_def send_and_settle_def
  by (intro settle_rules frame; simp)

lemma Handle_transactional_env: "preserves env (Handle_transactional h m)"
  unfolding Handle_transactional_def send_and_settle_def
  by (intro frame; simp)

lemma send_and_settle_sends: "sends_once (send_and_settle h p n r)"
  unfolding send_and_settle_def
proof (rule sends_SendEmail, goal_cases)
  case (1 e)
  show ?case by (intro frame; simp)
next
  case (2 x)
  show ?case by (intro frame; simp)
next
  case (3 x w)
  show ?case unfolding sum.case by (intro wp_any) (simp add: wp_rules)
qed

lemma Handle_transactional_sends: "sends_once (Handle_transactional h m)"
  unfolding Handle_transactional_def
  by (intro send_rules send_and_settle_sends frame; simp)

interpretation transactional: single_send_handler "Handle_transactional h"
  by (rule single_send_handlerI)
    (rule Handle_transactional_settles Handle_transactional_env Handle_transactional_sends)+
section \<open>Rows only move forward\<close>

definition send_step :: "string \<Rightarrow> string \<Rightarrow> email_send_row \<Rightarrow> email_send_row \<Rightarrow> bool" where
  "send_step i ws r r' \<longleftrightarrow> r' = r \<or> (this_send i ws r \<and> this_send i ws r' \<and> es_status r \<noteq> ''bounced'' \<and>
     (es_status r = ''sent'' \<longrightarrow> es_status r' = ''sent''))"

definition sends_evolve :: "string \<Rightarrow> string \<Rightarrow> world \<Rightarrow> world \<Rightarrow> bool" where
  "sends_evolve i ws w w' \<longleftrightarrow> list_all2 (send_step i ws) (email_sends (db w)) (email_sends (db w'))"

lemma send_step_trans: "send_step i ws r s \<Longrightarrow> send_step i ws s t \<Longrightarrow> send_step i ws r t"
  by (auto simp: send_step_def)

interpretation evolve: guarantee "sends_evolve i ws"
proof
  show "sends_evolve i ws s s" for s
    by (simp add: sends_evolve_def list.rel_refl send_step_def)
  show "sends_evolve i ws s t \<Longrightarrow> sends_evolve i ws t u \<Longrightarrow> sends_evolve i ws s u" for s t u
    unfolding sends_evolve_def by (rule list_all2_trans [OF send_step_trans])
qed

lemma evolve_preserves:
  "preserves (\<lambda>w. email_sends (db w)) m \<Longrightarrow> state_io_rel (sends_evolve i ws) m"
  by (auto simp: state_io_rel_def sends_evolve_def preserves_def list.rel_refl send_step_def)

lemma evolve_update_where:
  "(\<And>r. P r \<Longrightarrow> send_step i ws r (f r)) \<Longrightarrow> list_all2 (send_step i ws) t (update_where P f t)"
  by (induction t) (auto simp: send_step_def)

lemma evolve_exec:
  "(\<And>t d. list_all2 (send_step i ws) (email_sends d) (email_sends (f t d))) \<Longrightarrow>
   state_io_rel (sends_evolve i ws) (exec f)"
  by (auto simp: state_io_rel_def sends_evolve_def exec_def call_def Let_def
      list.rel_refl send_step_def split: fault.split)

lemma evolve_updates:
  "state_io_rel (sends_evolve i ws) (UpdateEmailSendSending i ws)"
  "state_io_rel (sends_evolve i ws) (UpdateEmailSendSent i ws mid)"
  "state_io_rel (sends_evolve i ws) (UpdateEmailSendFailed i ws reason)"
  unfolding UpdateEmailSendSending_def UpdateEmailSendSent_def UpdateEmailSendFailed_def
  by (rule evolve_exec; simp add: mark_send_sending_def mark_send_sent_def mark_send_failed_def;
      rule evolve_update_where; auto simp: send_step_def this_send_def)+

lemma evolve_failed: "state_io_rel (sends_evolve (tx_SendID p) (tx_WorkspaceID p)) (markFailedAndPublishEvent p r)"
  unfolding markFailedAndPublishEvent_def
  by (intro evolve.guar_rules evolve_updates evolve_preserves frame; simp)

lemma evolve_Handle:
  assumes "Data m = Some p"
  shows "state_io_rel (sends_evolve (tx_SendID p) (tx_WorkspaceID p)) (Handle_transactional h m)"
  unfolding Handle_transactional_def send_and_settle_def assms option.case
  apply (intro evolve.guar_rules evolve_updates evolve_failed)
  apply (intro evolve_preserves frame; simp)+
  done



section \<open>The outcome without infrastructure faults\<close>

fun settle_spec :: "(goerr \<Rightarrow> bool) \<Rightarrow> nat \<Rightarrow> goerr + string option \<Rightarrow> disposition \<times> string \<times> string list" where
  "settle_spec permanent attempt (Inr mid) = (Ack, ''sent'', [SubjectEvents])"
| "settle_spec permanent attempt (Inl e) =
     (if permanent e then (Ack, ''failed'', [SubjectEvents])
      else if attempt < 6 then (Nak, ''sending'', [])
      else (Term, ''failed'', [SubjectDLQ, SubjectEvents]))"

lemma send_and_settle_outcome:
  assumes "reliable (env w)" and "validatePayload p = None"
    and "send_status (db w) (tx_SendID p) (tx_WorkspaceID p) = ''sending''"
    and "\<forall>k. ses_api (env w) k (ses_request (send_input p r)) = answer"
  shows "wp (send_and_settle h p n r) (\<lambda>_ w'.
    (let (dsp, status, subjects) = settle_spec (eh_classifier h) n answer in
       settled w' = settled w @ [dsp] \<and>
       send_status (db w') (tx_SendID p) (tx_WorkspaceID p) = status \<and>
       (\<exists>ms. published w' = published w @ ms \<and> map pm_Subject ms = subjects) \<and>
       mail w' = mail w @ (if isl answer then [] else [ses_request (send_input p r)]))) w"
proof -
  have v: "in_To (send_input p r) \<noteq> []" "in_From (send_input p r) \<noteq> ''''"
    using assms(2) by (auto simp: validatePayload_def send_input_def extractEmails_def split: if_splits option.splits)
  show ?thesis
    using assms(1,3,4)
    by (cases answer)
      (simp_all add: send_and_settle_def SendEmail_def v wp_rules send_status_marks
        UpdateEmailSendSent_def UpdateEmailSendFailed_def publishDeliveryEvent_def publishDLQ_def
        markFailedAndPublishEvent_def Publish_def MaxAttempts_def Let_def split: sum.split)
qed

lemma Acquire_keeps:
  "run_state (Acquire l key b) w = (r, w1) \<Longrightarrow>
   env w1 = env w \<and> db w1 = db w \<and> mail w1 = mail w \<and> published w1 = published w \<and> settled w1 = settled w"
  using preservesD [OF preserves_Acquire [of env], of l key b w]
    preservesD [OF preserves_Acquire [of db], of l key b w]
    preservesD [OF preserves_Acquire [of mail], of l key b w]
    preservesD [OF preserves_Acquire [of published], of l key b w]
    preservesD [OF preserves_Acquire [of settled], of l key b w]
  by simp

definition observed :: "TransactionalEmailPayload \<Rightarrow> world \<Rightarrow> world \<Rightarrow> disposition \<times> string \<times> string list \<Rightarrow> bool" where
  "observed p w w' = (\<lambda>(dsp, status, subjects).
     settled w' = settled w @ [dsp] \<and>
     send_status (db w') (tx_SendID p) (tx_WorkspaceID p) = status \<and>
     (\<exists>ms. published w' = published w @ ms \<and> map pm_Subject ms = subjects))"

lemma valid_Render: "validatePayload p = None \<Longrightarrow> \<exists>r. Render p = Inr r"
  by (auto simp: validatePayload_def Render_def Let_def split: if_splits option.splits)

text \<open>What the rate limiter answers when the handler asks it, after reading the status.\<close>

definition limiter_answer :: "EmailHandler \<Rightarrow> TransactionalEmailPayload \<Rightarrow> world \<Rightarrow> goerr option" where
  "limiter_answer h p w = snd (fst (run_state (do {
     inc ''email_processed_total'';
     _ \<leftarrow> GetEmailSendStatus (tx_SendID p) (tx_WorkspaceID p);
     Acquire (eh_limiter h) (ratelimit_key (tx_WorkspaceID p)) rateLimitWaitBudget
   }) w))"

lemma Handle_outcome:
  assumes "reliable (env w)" and "Data m = Some p" and "validatePayload p = None"
    and "status_in (send_status (db w) (tx_SendID p) (tx_WorkspaceID p)) [''queued'', ''failed'', ''sending'']"
    and "Render p = Inr r"
    and "\<forall>k. ses_api (env w) k (ses_request (send_input p r)) = answer"
  shows "wp (Handle_transactional h m) (\<lambda>_ w'.
    if limiter_answer h p w = None then
      observed p w w' (settle_spec (eh_classifier h) (attempt_of m) answer) \<and>
      mail w' = mail w @ (if isl answer then [] else [ses_request (send_input p r)])
    else settled w' = settled w @ [Nak] \<and> db w' = db w \<and> published w' = published w \<and> mail w' = mail w) w"
proof -
  define w0 where "w0 = step_clock (w\<lparr>metrics := (metrics w)(''email_processed_total'' := Suc (metrics w ''email_processed_total''))\<rparr>)"
  obtain waited rl w1 where a: "run_state (Acquire (eh_limiter h) (ratelimit_key (tx_WorkspaceID p))
      rateLimitWaitBudget) w0 = ((waited, rl), w1)"
    by (metis surj_pair)
  have lim: "limiter_answer h p w = rl"
    using assms(1) a by (simp add: limiter_answer_def GetEmailSendStatus_def query_def call_def w0_def inc_by_def)
  have w1: "env w1 = env w" "db w1 = db w" "mail w1 = mail w" "published w1 = published w" "settled w1 = settled w"
    using Acquire_keeps [OF a] by (simp_all add: w0_def)
  have acq: "wp (Acquire (eh_limiter h) (ratelimit_key (tx_WorkspaceID p)) rateLimitWaitBudget) Q w0 =
      Q (waited, rl) w1" for Q
    by (simp add: wp_def a)
  have go: "wp (send_and_settle h p (attempt_of m) r) (\<lambda>_ w'.
      observed p w w' (settle_spec (eh_classifier h) (attempt_of m) answer) \<and>
      mail w' = mail w @ (if isl answer then [] else [ses_request (send_input p r)])) w2"
    if "env w2 = env w" "mail w2 = mail w" "published w2 = published w" "settled w2 = settled w"
      "db w2 = mark_send_sending (tx_SendID p) (tx_WorkspaceID p) t (db w)" for w2 t
    using that assms
    by (intro wp_mono [OF send_and_settle_outcome [where answer = answer]])
      (auto simp: observed_def send_status_sending split: prod.split)
  have st: "send_status (db w) (tx_SendID p) (tx_WorkspaceID p) \<noteq> ''sent''"
    "send_status (db w) (tx_SendID p) (tx_WorkspaceID p) \<noteq> ''bounced''"
    using assms(4) by auto
  show ?thesis
  proof (cases rl)
    case None
    show ?thesis
      using assms(1-3) st
      apply (simp add: Handle_transactional_def wp_rules GetEmailSendStatus_def acq None lim
         w0_def [symmetric] w1 UpdateEmailSendSending_def Let_def assms(5))
      apply (auto simp: wp_rules w1 intro!: wp_mono [OF go])
      done
  next
    case (Some e)
    then show ?thesis
      using assms(1-3) st
      by (simp add: Handle_transactional_def wp_rules GetEmailSendStatus_def acq lim
         w0_def [symmetric] w1)
  qed
qed

abbreviation tx_status :: "TransactionalEmailPayload \<Rightarrow> world \<Rightarrow> string" where
  "tx_status p w \<equiv> send_status (db w) (tx_SendID p) (tx_WorkspaceID p)"

lemma send_and_settle_marks:
  assumes "reliable (env w)" and "tx_status p w = ''sending''"
  shows "wp (send_and_settle h p n r) (\<lambda>_ w'.
    mail w' = mail w \<and> status_in (tx_status p w') [''queued'', ''failed'', ''sending''] \<or>
    (\<exists>x. mail w' = mail w @ [x]) \<and> tx_status p w' = ''sent'') w"
  using assms
  by (auto simp: send_and_settle_def SendEmail_def wp_rules send_status_marks
      UpdateEmailSendSent_def UpdateEmailSendFailed_def publishDeliveryEvent_def publishDLQ_def
      markFailedAndPublishEvent_def Publish_def Let_def split: sum.split)

lemma Handle_marks:
  assumes "reliable (env w)" and "Data m = Some p"
    and "status_in (tx_status p w) [''queued'', ''failed'', ''sending'']"
  shows "wp (Handle_transactional h m) (\<lambda>_ w'.
    mail w' = mail w \<and> status_in (tx_status p w') [''queued'', ''failed'', ''sending''] \<or>
    (\<exists>x. mail w' = mail w @ [x]) \<and> tx_status p w' = ''sent'') w"
proof (cases "validatePayload p = None")
  case False
  with assms show ?thesis by (auto simp: Handle_transactional_def wp_rules)
next
  case True
  then obtain r where r: "Render p = Inr r" using valid_Render by blast
  define w0 where "w0 = step_clock (w\<lparr>metrics := (metrics w)(''email_processed_total'' := Suc (metrics w ''email_processed_total''))\<rparr>)"
  obtain waited rl w1 where a: "run_state (Acquire (eh_limiter h) (ratelimit_key (tx_WorkspaceID p))
      rateLimitWaitBudget) w0 = ((waited, rl), w1)"
    by (metis surj_pair)
  have w1: "env w1 = env w" "db w1 = db w" "mail w1 = mail w"
    using Acquire_keeps [OF a] by (simp_all add: w0_def)
  have acq: "wp (Acquire (eh_limiter h) (ratelimit_key (tx_WorkspaceID p)) rateLimitWaitBudget) Q w0 =
      Q (waited, rl) w1" for Q
    by (simp add: wp_def a)
  have go: "wp (send_and_settle h p n r) (\<lambda>_ w'.
    mail w' = mail w \<and> status_in (tx_status p w') [''queued'', ''failed'', ''sending''] \<or>
    (\<exists>x. mail w' = mail w @ [x]) \<and> tx_status p w' = ''sent'') w2"
    if "env w2 = env w" "mail w2 = mail w" "db w2 = mark_send_sending (tx_SendID p) (tx_WorkspaceID p) t (db w)"
    for w2 n t
    using that assms(1,3)
    by (intro wp_mono [OF send_and_settle_marks]) (auto simp: send_status_sending)
  have st: "tx_status p w \<noteq> ''sent''" "tx_status p w \<noteq> ''bounced''" using assms(3) by auto
  show ?thesis
    using assms st True
    by (cases rl) (auto simp: Handle_transactional_def wp_rules GetEmailSendStatus_def acq
         w0_def [symmetric] w1 UpdateEmailSendSending_def Let_def r
       simp del: status_in_simps intro!: go split: if_splits)
qed

lemma Handle_terminal:
  assumes "reliable (env w)" and "Data m = Some p" and "tx_status p w = ''sent'' \<or> tx_status p w = ''bounced''"
  shows "wp (Handle_transactional h m) (\<lambda>_ w'. mail w' = mail w \<and> db w' = db w \<and> published w' = published w) w"
  using assms by (cases "validatePayload p = None")
    (auto simp: Handle_transactional_def wp_rules GetEmailSendStatus_def)

definition deliver :: "EmailHandler \<Rightarrow> TransactionalEmailPayload message \<Rightarrow> world \<Rightarrow> world" where
  "deliver h m w = snd (run_state (dispatch (Handle_transactional h) m) w)"

lemma deliver_Handle: "deliver h m w = snd (run_state (Handle_transactional h m) w)"
  by (simp add: deliver_def transactional.dispatch_is_handler)

lemma env_deliver [simp]: "env (deliver h m w) = env w"
  using Handle_transactional_env by (auto simp: deliver_Handle)

lemma deliveries_idempotent:
  assumes "reliable (env w)" and "\<forall>m \<in> set ms. Data m = Some p"
    and "status_in (tx_status p w) [''queued'', ''failed'', ''sending'']"
  shows "\<exists>xs. mail (fold (deliver h) ms w) = mail w @ xs \<and> length xs \<le> 1 \<and>
    (xs \<noteq> [] \<longrightarrow> tx_status p (fold (deliver h) ms w) = ''sent'')"
proof -
  have sent: "mail (fold (deliver h) ms w) = mail w \<and> tx_status p (fold (deliver h) ms w) = ''sent''"
    if "reliable (env w)" "\<forall>m \<in> set ms. Data m = Some p" "tx_status p w = ''sent''" for w ms
    using that
  proof (induction ms arbitrary: w)
    case (Cons m ms)
    have "mail (deliver h m w) = mail w \<and> db (deliver h m w) = db w"
      using Handle_terminal [of w m p h] Cons.prems by (simp add: wp_def deliver_Handle)
    with Cons show ?case by simp
  qed simp
  show ?thesis
    using assms
  proof (induction ms arbitrary: w)
    case (Cons m ms)
    let ?w = "deliver h m w"
    have r: "reliable (env ?w)" using Cons.prems by simp
    have "mail ?w = mail w \<and> status_in (tx_status p ?w) [''queued'', ''failed'', ''sending''] \<or>
      (\<exists>x. mail ?w = mail w @ [x]) \<and> tx_status p ?w = ''sent''"
      using Handle_marks [of w m p h] Cons.prems by (simp add: wp_def deliver_Handle)
    then show ?case
    proof
      assume "mail ?w = mail w \<and> status_in (tx_status p ?w) [''queued'', ''failed'', ''sending'']"
      with Cons.IH [of ?w] Cons.prems r show ?thesis by simp
    next
      assume "(\<exists>x. mail ?w = mail w @ [x]) \<and> tx_status p ?w = ''sent''"
      with sent [of ?w ms] Cons.prems r show ?thesis by auto
    qed
  qed simp
qed

section \<open>Properties\<close>

definition sample_payload :: TransactionalEmailPayload where
  "sample_payload = \<lparr>tx_JobID = ''j'', tx_WorkspaceID = ''ws'', tx_SendID = ''s'',
     tx_To = [\<lparr>addr_Email = ''a@b'', addr_Name = ''''\<rparr>], tx_From = \<lparr>addr_Email = ''c@d'', addr_Name = ''C''\<rparr>,
     tx_ReplyTo = '''', tx_Subject = ''hi'', tx_HTML = '''', tx_Text = ''hello'', tx_Tags = [], tx_Provider = ''ses''\<rparr>"

definition sample_world :: world where
  "sample_world = quiet_world\<lparr>db := empty_pg\<lparr>email_sends := [\<lparr>es_send_id = ''s'', es_workspace_id = ''ws'',
     es_status = ''queued'', es_provider_message_id = None, es_failure_reason = None, es_updated_at = 0\<rparr>]\<rparr>\<rparr>"

lemma sample_simps [simp]:
  "env sample_world = quiet_env" "validatePayload sample_payload = None"
  "send_status (db sample_world) (tx_SendID sample_payload) (tx_WorkspaceID sample_payload) = ''queued''"
  by (simp_all add: sample_world_def sample_payload_def validatePayload_def quiet_world_def
      send_status_def this_send_def)

text \<open>
  Claim C1. At most one mail per message: however often JetStream redelivers a transactional message,
  with whatever attempt numbers, SES accepts at most one mail for it, in every environment in which
  a call that reports an error had no effect. A delivery that is acknowledged is the last one here.
\<close>

theorem transactional_at_most_one_mail:
  "errors_mean_nothing_done (env w) \<Longrightarrow>
   \<exists>xs. mail (redeliver (Handle_transactional h) data ks w) = mail w @ xs \<and> length xs \<le> 1"
  by (rule transactional.at_most_one_mail)

lemma transactional_at_most_one_mail_witness:
  "\<exists>xs. mail (redeliver (Handle_transactional (NewHandler (NewTokenBucket 14))) (Some sample_payload)
      [Some 1, Some 2] sample_world) = mail sample_world @ xs \<and> length xs \<le> 1"
  by (rule transactional_at_most_one_mail) simp

text \<open>
  Idempotence when acknowledgements are lost: without infrastructure faults, any number of
  deliveries of the same send, each run to its end even after an earlier one was acknowledged,
  leads to at most one mail, and after a mail the row says \<^verbatim>\<open>sent\<close>.
\<close>

theorem transactional_idempotent:
  assumes "reliable (env w)" and "\<forall>m \<in> set ms. Data m = Some p"
    and "status_in (tx_status p w) [''queued'', ''failed'', ''sending'']"
  shows "\<exists>xs. mail (fold (deliver h) ms w) = mail w @ xs \<and> length xs \<le> 1 \<and>
    (xs \<noteq> [] \<longrightarrow> tx_status p (fold (deliver h) ms w) = ''sent'')"
  using assms by (rule deliveries_idempotent)

lemma transactional_idempotent_witness:
  "\<exists>xs. mail (fold (deliver (NewHandler (NewTokenBucket 14)))
      [\<lparr>Data = Some sample_payload, NumDelivered = Some 1\<rparr>, \<lparr>Data = Some sample_payload, NumDelivered = Some 2\<rparr>]
      sample_world) = mail sample_world @ xs \<and> length xs \<le> 1 \<and>
    (xs \<noteq> [] \<longrightarrow> tx_status sample_payload (fold (deliver (NewHandler (NewTokenBucket 14)))
      [\<lparr>Data = Some sample_payload, NumDelivered = Some 1\<rparr>, \<lparr>Data = Some sample_payload, NumDelivered = Some 2\<rparr>]
      sample_world) = ''sent'')"
  by (rule transactional_idempotent) simp_all

text \<open>
  Claim C2. The handler refines its decision table: without infrastructure faults a valid message whose
  row may still be sent and that the rate limiter lets pass ends with exactly the disposition, row status and published
  events of \<open>settle_spec\<close>, and a mail exactly when SES accepts it. If, and only if, the limiter answers with an error,
  it is negatively acknowledged with nothing changed.
\<close>

theorem transactional_outcome:
  assumes "reliable (env w)" and "Data m = Some p" and "validatePayload p = None"
    and "status_in (tx_status p w) [''queued'', ''failed'', ''sending'']"
    and "Render p = Inr r"
    and "\<forall>k. ses_api (env w) k (ses_request (send_input p r)) = answer"
  shows "wp (Handle_transactional h m) (\<lambda>_ w'.
    if limiter_answer h p w = None then
      observed p w w' (settle_spec (eh_classifier h) (attempt_of m) answer) \<and>
      mail w' = mail w @ (if isl answer then [] else [ses_request (send_input p r)])
    else settled w' = settled w @ [Nak] \<and> db w' = db w \<and> published w' = published w \<and> mail w' = mail w) w"
  using assms by (rule Handle_outcome)

lemma sample_admitted: "limiter_answer (NewHandler (NewTokenBucket 14)) sample_payload sample_world = None"
  by code_simp

lemma transactional_outcome_witness:
  "wp (Handle_transactional (NewHandler (NewTokenBucket 14)) \<lparr>Data = Some sample_payload, NumDelivered = Some 1\<rparr>)
    (\<lambda>_ w'. observed sample_payload sample_world w' (Ack, ''sent'', [SubjectEvents]) \<and>
      mail w' = [ses_request (send_input sample_payload
        \<lparr>rd_Subject = ''hi'', rd_HTML = '''', rd_Text = ''hello''\<rparr>)]) sample_world"
proof -
  have r: "Render sample_payload = Inr \<lparr>rd_Subject = ''hi'', rd_HTML = '''', rd_Text = ''hello''\<rparr>"
    by code_simp
  have "mail sample_world = []" "published sample_world = []" "settled sample_world = []"
    by (simp_all add: sample_world_def quiet_world_def)
  then show ?thesis
    using transactional_outcome [of sample_world "\<lparr>Data = Some sample_payload, NumDelivered = Some 1\<rparr>"
      sample_payload _ "Inr (Some ''mid'')" "NewHandler (NewTokenBucket 14)", OF _ _ _ _ r]
    by (simp add: sample_admitted)
qed

text \<open>
  In every environment, faults included, handling a message changes no row but its own,
  leaves a bounced row alone and never takes \<^verbatim>\<open>sent\<close> back.
\<close>

theorem transactional_rows_forward:
  assumes "Data m = Some p"
  shows "sends_evolve (tx_SendID p) (tx_WorkspaceID p) w (snd (run_state (Handle_transactional h m) w))"
  using evolve_Handle [OF assms, of h] by (auto simp: state_io_rel_def)

lemma transactional_rows_forward_witness:
  "sends_evolve ''s'' ''ws'' sample_world
    (snd (run_state (Handle_transactional (NewHandler (NewTokenBucket 14))
      \<lparr>Data = Some sample_payload, NumDelivered = None\<rparr>) sample_world))"
  using transactional_rows_forward [of "\<lparr>Data = Some sample_payload, NumDelivered = None\<rparr>" sample_payload
      sample_world "NewHandler (NewTokenBucket 14)"]
  by (simp add: sample_payload_def)

text \<open>
  A delivery that the rate limiter turns away, or that cannot reach it, leaves no trace,
  whatever its attempt number: on the last attempt too the message is negatively acknowledged with
  no dead-letter message, no event and the row unchanged, so JetStream, whose delivery limit is then
  reached, drops it silently.
\<close>

theorem limiter_error_leaves_no_trace:
  assumes "fault (env w) (tick w) = NoFault" and "Data m = Some p" and "validatePayload p = None"
    and "tx_status p w \<noteq> ''sent'' \<and> tx_status p w \<noteq> ''bounced''"
    and "\<forall>w1. env w1 = env w \<and> redis w1 = redis w \<and> tick w1 = Suc (tick w) \<longrightarrow>
      snd (fst (run_state (Acquire (eh_limiter h) (ratelimit_key (tx_WorkspaceID p)) rateLimitWaitBudget) w1)) \<noteq> None"
  shows "wp (Handle_transactional h m) (\<lambda>_ w'. settled w' = settled w @ [Nak] \<and> db w' = db w \<and>
    published w' = published w \<and> mail w' = mail w) w"
proof -
  define w0 where "w0 = step_clock (w\<lparr>metrics := (metrics w)(''email_processed_total'' := Suc (metrics w ''email_processed_total''))\<rparr>)"
  obtain waited rl w1 where a: "run_state (Acquire (eh_limiter h) (ratelimit_key (tx_WorkspaceID p))
      rateLimitWaitBudget) w0 = ((waited, rl), w1)"
    by (metis surj_pair)
  have "env w0 = env w \<and> redis w0 = redis w \<and> tick w0 = Suc (tick w)" by (simp add: w0_def)
  from assms(5) [rule_format, OF this] have "rl \<noteq> None" by (simp add: a)
  moreover have "wp (Acquire (eh_limiter h) (ratelimit_key (tx_WorkspaceID p)) rateLimitWaitBudget) Q w0 =
      Q (waited, rl) w1" for Q
    by (simp add: wp_def a)
  moreover have "db w1 = db w" "mail w1 = mail w" "published w1 = published w" "settled w1 = settled w"
    using Acquire_keeps [OF a] by (simp_all add: w0_def)
  ultimately show ?thesis
    using assms(1-4)
    by (cases rl) (simp_all add: Handle_transactional_def wp_rules GetEmailSendStatus_def w0_def [symmetric])
qed

definition redis_down_world :: world where
  "redis_down_world = sample_world\<lparr>env := quiet_env\<lparr>fault :=
     (\<lambda>k. if k = 0 then NoFault else FailBefore (Err ''connection refused''))\<rparr>\<rparr>"

lemma limiter_error_leaves_no_trace_witness:
  "attempt_of \<lparr>Data = Some sample_payload, NumDelivered = Some 6\<rparr> = MaxAttempts \<and>
   wp (Handle_transactional (NewHandler (NewTokenBucket 14)) \<lparr>Data = Some sample_payload, NumDelivered = Some 6\<rparr>)
    (\<lambda>_ w'. settled w' = settled redis_down_world @ [Nak] \<and> db w' = db redis_down_world \<and>
      published w' = published redis_down_world \<and> mail w' = mail redis_down_world) redis_down_world"
proof
  show "attempt_of \<lparr>Data = Some sample_payload, NumDelivered = Some 6\<rparr> = MaxAttempts"
    by (simp add: attempt_of_def MaxAttempts_def)
  have e: "env redis_down_world = quiet_env\<lparr>fault :=
     (\<lambda>k. if k = 0 then NoFault else FailBefore (Err ''connection refused''))\<rparr>"
    and t: "tick redis_down_world = 0" and d: "db redis_down_world = db sample_world"
    by (simp_all add: redis_down_world_def sample_world_def quiet_world_def)
  have "snd (fst (run_state (Acquire l k b) w1)) \<noteq> None"
    if "env w1 = env redis_down_world" "tick w1 = Suc 0" for l k b w1
    using that by (simp add: Acquire_def Acquire_loop.simps TryAcquire_def call_def time_now_def e)
  then show "wp (Handle_transactional (NewHandler (NewTokenBucket 14)) \<lparr>Data = Some sample_payload, NumDelivered = Some 6\<rparr>)
    (\<lambda>_ w'. settled w' = settled redis_down_world @ [Nak] \<and> db w' = db redis_down_world \<and>
      published w' = published redis_down_world \<and> mail w' = mail redis_down_world) redis_down_world"
    by (intro limiter_error_leaves_no_trace [where p = sample_payload]) (simp_all add: e t d)
qed

end
