(* ===== verification/CampaignChunk.thy ===== *)
theory CampaignChunk
  imports TransactionalEmail
begin

text \<open>
  The campaign chunk worker: \<^verbatim>\<open>internal/worker/email/handler.go\<close>, from line 408. \<open>Handle\<close> is
  \<open>Handle_chunk\<close>; its loop over the recipients is \<open>chunk_loop\<close>, its last part, which decides what
  happens to the chunk, is \<open>chunk_disposition\<close>.
\<close>

section \<open>Validation and messages\<close>

abbreviation SubjectCampaignDLQ :: string where "SubjectCampaignDLQ \<equiv> ''campaign.send.dlq''"

datatype invalid_chunk =
    ChunkMissingIDs | NoRecipients | ChunkEmptySender | ChunkEmptySubject | ChunkEmptyBody
  | RecipientIncomplete nat

fun first_incomplete :: "nat \<Rightarrow> CampaignChunkRecipient list \<Rightarrow> nat option" where
  "first_incomplete i [] = None"
| "first_incomplete i (r # rs) =
     (if ccr_RecipientID r = '''' \<or> ccr_Email r = '''' then Some i else first_incomplete (Suc i) rs)"

definition validateCampaignChunk :: "CampaignChunkPayload \<Rightarrow> invalid_chunk option" where
  "validateCampaignChunk p =
     (if cc_CampaignID p = '''' \<or> cc_WorkspaceID p = '''' \<or> cc_ChunkID p = '''' then Some ChunkMissingIDs
      else if cc_Recipients p = [] then Some NoRecipients
      else if addr_Email (cc_Sender p) = '''' then Some ChunkEmptySender
      else if cc_Subject p = '''' then Some ChunkEmptySubject
      else if cc_HTML p = '''' \<and> cc_Text p = '''' then Some ChunkEmptyBody
      else map_option RecipientIncomplete (first_incomplete 0 (cc_Recipients p)))"

definition replyToList :: "string \<Rightarrow> string list" where
  "replyToList replyTo = (if replyTo = '''' then [] else [replyTo])"

definition publishDeliveryEvent_chunk ::
    "CampaignChunkPayload \<Rightarrow> string \<Rightarrow> string \<Rightarrow> string \<Rightarrow> string \<Rightarrow> (world, unit) state" where
  "publishDeliveryEvent_chunk chunk recipientEmail providerMessageID status reason = do {
     t \<leftarrow> time_now;
     _ \<leftarrow> Publish SubjectEvents
       (PDelivery \<lparr>ev_WorkspaceID = cc_WorkspaceID chunk, ev_SendID = '''',
          ev_CampaignID = cc_CampaignID chunk, ev_RecipientEmail = recipientEmail,
          ev_ProviderMessageID = providerMessageID, ev_Status = status, ev_Reason = reason, ev_Timestamp = t\<rparr>)
       (''delivery-'' @ cc_CampaignID chunk @ ''-'' @ recipientEmail @ ''-'' @ status);
     State_Monad.return ()
   }"

definition publishCampaignDLQ :: "CampaignChunkPayload \<Rightarrow> string \<Rightarrow> nat \<Rightarrow> (world, unit) state" where
  "publishCampaignDLQ chunk reason attempt = do {
     t \<leftarrow> time_now;
     _ \<leftarrow> Publish SubjectCampaignDLQ
       (PCampaignDLQ \<lparr>dlq_Payload = chunk, dlq_Reason = reason, dlq_Attempts = attempt, dlq_Timestamp = t\<rparr>)
       (''dlq-'' @ cc_ChunkID chunk);
     State_Monad.return ()
   }"

section \<open>One recipient\<close>

datatype recipientOutcome = OSent | ODuplicate | OPermanent | OTransient string

definition chunk_input :: "CampaignChunkPayload \<Rightarrow> CampaignChunkRecipient \<Rightarrow> Rendered \<Rightarrow> SendEmailInput" where
  "chunk_input chunk r rendered = \<lparr>in_From = addr_Email (cc_Sender chunk),
     in_FromName = addr_Name (cc_Sender chunk), in_To = [ccr_Email r],
     in_ReplyTo = replyToList (cc_ReplyTo chunk), in_Subject = rd_Subject rendered,
     in_HTMLBody = rd_HTML rendered, in_TextBody = rd_Text rendered,
     in_Tags = [(''campaign_id'', cc_CampaignID chunk)]\<rparr>"

definition processRecipient ::
    "EmailHandler \<Rightarrow> CampaignChunkPayload \<Rightarrow> CampaignChunkRecipient \<Rightarrow> Rendered \<Rightarrow>
     (world, recipientOutcome) state" where
  "processRecipient h chunk r rendered = do {
     st \<leftarrow> GetCampaignRecipientStatus (ccr_RecipientID r) (cc_WorkspaceID chunk);
     case st of
       Inl err \<Rightarrow> State_Monad.return (OTransient (err_string err))
     | Inr status \<Rightarrow>
         if status = ''sent'' \<or> status = ''bounced'' then State_Monad.return ODuplicate else do {
           (_, rlErr) \<leftarrow> Acquire (eh_limiter h) (ratelimit_key (cc_WorkspaceID chunk)) rateLimitWaitBudget;
           case rlErr of
             Some e \<Rightarrow> do {
               inc ''email_rate_limit_waits_total'';
               State_Monad.return (OTransient ''rate limit'')
             }
           | None \<Rightarrow> do {
               upd \<leftarrow> MarkCampaignRecipientSending (ccr_RecipientID r) (cc_WorkspaceID chunk);
               case upd of
                 Inl err \<Rightarrow> State_Monad.return (OTransient (err_string err))
               | Inr _ \<Rightarrow> do {
                   out \<leftarrow> SendEmail (chunk_input chunk r rendered);
                   case out of
                     Inl sendErr \<Rightarrow> do {
                       inc ''email_ses_failures_total'';
                       if eh_classifier h sendErr then do {
                         _ \<leftarrow> MarkCampaignRecipientFailed (ccr_RecipientID r) (cc_WorkspaceID chunk) (err_string sendErr);
                         publishDeliveryEvent_chunk chunk (ccr_Email r) '''' ''failed'' (err_string sendErr);
                         inc ''campaign_emails_failed_total'';
                         State_Monad.return OPermanent
                       } else State_Monad.return (OTransient (err_string sendErr))
                     }
                   | Inr messageID \<Rightarrow> do {
                       _ \<leftarrow> MarkCampaignRecipientSent (ccr_RecipientID r) (cc_WorkspaceID chunk) messageID;
                       publishDeliveryEvent_chunk chunk (ccr_Email r) messageID ''sent'' '''';
                       inc ''campaign_emails_sent_total'';
                       State_Monad.return OSent
                     }
                 }
             }
         }
   }"

section \<open>The chunk\<close>

record chunkResult =
  cr_sent :: nat
  cr_permanentFailed :: nat
  cr_transientFailed :: nat
  cr_transientReason :: string

definition chunkResult0 :: chunkResult where
  "chunkResult0 = \<lparr>cr_sent = 0, cr_permanentFailed = 0, cr_transientFailed = 0, cr_transientReason = ''''\<rparr>"

fun chunk_loop ::
    "EmailHandler \<Rightarrow> CampaignChunkPayload \<Rightarrow> Rendered \<Rightarrow> CampaignChunkRecipient list \<Rightarrow> chunkResult \<Rightarrow>
     CampaignChunkRecipient list \<Rightarrow> (world, chunkResult \<times> CampaignChunkRecipient list) state" where
  "chunk_loop h chunk rendered [] res transient = State_Monad.return (res, transient)"
| "chunk_loop h chunk rendered (r # rs) res transient = do {
     stop \<leftarrow> ctx_err;
     if stop then chunk_loop h chunk rendered rs res (transient @ [r]) else do {
       outcome \<leftarrow> processRecipient h chunk r rendered;
       case outcome of
         OSent \<Rightarrow> chunk_loop h chunk rendered rs (res\<lparr>cr_sent := cr_sent res + 1\<rparr>) transient
       | ODuplicate \<Rightarrow> chunk_loop h chunk rendered rs res transient
       | OPermanent \<Rightarrow>
           chunk_loop h chunk rendered rs (res\<lparr>cr_permanentFailed := cr_permanentFailed res + 1\<rparr>) transient
       | OTransient reason \<Rightarrow>
           chunk_loop h chunk rendered rs
             (res\<lparr>cr_transientFailed := cr_transientFailed res + 1, cr_transientReason := reason\<rparr>)
             (transient @ [r])
     }
   }"

text \<open>The loop shared by the last attempt and by \<open>failAllRecipients\<close>: it counts the rows it marked.\<close>

fun fail_recipients ::
    "CampaignChunkPayload \<Rightarrow> string \<Rightarrow> string \<Rightarrow> CampaignChunkRecipient list \<Rightarrow> nat \<Rightarrow> (world, nat) state" where
  "fail_recipients chunk reason event_reason [] failed = State_Monad.return failed"
| "fail_recipients chunk reason event_reason (r # rs) failed = do {
     m \<leftarrow> MarkCampaignRecipientFailed (ccr_RecipientID r) (cc_WorkspaceID chunk) reason;
     case m of
       Inl e \<Rightarrow> fail_recipients chunk reason event_reason rs failed
     | Inr _ \<Rightarrow> do {
         publishDeliveryEvent_chunk chunk (ccr_Email r) '''' ''failed'' event_reason;
         fail_recipients chunk reason event_reason rs (failed + 1)
       }
   }"

definition count_failed :: "CampaignChunkPayload \<Rightarrow> nat \<Rightarrow> (world, unit) state" where
  "count_failed chunk failed =
     (if failed > 0 then do {
        _ \<leftarrow> IncrementCampaignCounts (cc_CampaignID chunk) (cc_WorkspaceID chunk) 0 failed;
        _ \<leftarrow> MarkCampaignComplete (cc_CampaignID chunk) (cc_WorkspaceID chunk);
        State_Monad.return ()
      } else State_Monad.return ())"

definition failAllRecipients :: "CampaignChunkPayload \<Rightarrow> string \<Rightarrow> (world, unit) state" where
  "failAllRecipients chunk reason = do {
     failed \<leftarrow> fail_recipients chunk reason reason (cc_Recipients chunk) 0;
     count_failed chunk failed
   }"

text \<open>\<open>None\<close> when the counts could not be added: the handler then stops with a \<open>Nak\<close>.\<close>

definition apply_progress :: "CampaignChunkPayload \<Rightarrow> chunkResult \<Rightarrow> (world, unit option) state" where
  "apply_progress chunk res =
     (if cr_sent res > 0 \<or> cr_permanentFailed res > 0 then do {
        progress \<leftarrow> IncrementCampaignCounts (cc_CampaignID chunk) (cc_WorkspaceID chunk)
                     (cr_sent res) (cr_permanentFailed res);
        case progress of
          Inl e \<Rightarrow> State_Monad.return None
        | Inr pr \<Rightarrow>
            if pr_SentCount pr + pr_FailedCount pr \<ge> pr_TotalRecipients pr \<and> pr_TotalRecipients pr > 0 then do {
              completed \<leftarrow> MarkCampaignComplete (cc_CampaignID chunk) (cc_WorkspaceID chunk);
              (case completed of
                 Inl e \<Rightarrow> State_Monad.return ()
               | Inr b \<Rightarrow> if b then inc ''campaign_completed_total'' else State_Monad.return ());
              State_Monad.return (Some ())
            } else State_Monad.return (Some ())
      } else State_Monad.return (Some ()))"

definition chunk_disposition ::
    "CampaignChunkPayload \<Rightarrow> nat \<Rightarrow> chunkResult \<Rightarrow> CampaignChunkRecipient list \<Rightarrow> (world, hresult) state" where
  "chunk_disposition chunk attempt res transient =
     (if transient \<noteq> [] then
        if attempt \<ge> MaxAttempts then do {
          finalFailed \<leftarrow> fail_recipients chunk (''max retries: '' @ cr_transientReason res)
                          (cr_transientReason res) transient 0;
          count_failed chunk finalFailed;
          publishCampaignDLQ chunk (cr_transientReason res) attempt;
          inc ''campaign_chunk_dlq_total'';
          finish Term
        } else do {
          inc ''campaign_chunk_retries_total'';
          finish Nak
        }
      else finish Ack)"

definition chunk_template :: "CampaignChunkPayload \<Rightarrow> TransactionalEmailPayload" where
  "chunk_template p = \<lparr>tx_JobID = '''', tx_WorkspaceID = '''', tx_SendID = '''', tx_To = [],
     tx_From = \<lparr>addr_Email = '''', addr_Name = ''''\<rparr>, tx_ReplyTo = '''', tx_Subject = cc_Subject p,
     tx_HTML = cc_HTML p, tx_Text = cc_Text p, tx_Tags = [], tx_Provider = ''''\<rparr>"

definition Handle_chunk :: "EmailHandler \<Rightarrow> CampaignChunkPayload message \<Rightarrow> (world, hresult) state" where
  "Handle_chunk h msg =
     (case Data msg of
        None \<Rightarrow> finish Term
      | Some p \<Rightarrow>
          if validateCampaignChunk p \<noteq> None then finish Term
          else
            (case Render (chunk_template p) of
               Inl err \<Rightarrow> do {
                 failAllRecipients p (''render: '' @ err);
                 finish Term
               }
             | Inr rendered \<Rightarrow> do {
                 (res, transient) \<leftarrow> chunk_loop h p rendered (cc_Recipients p) chunkResult0 [];
                 progress \<leftarrow> apply_progress p res;
                 case progress of
                   None \<Rightarrow> finish Nak
                 | Some _ \<Rightarrow> chunk_disposition p (attempt_of msg) res transient
               }))"
section \<open>The message contract\<close>

lemma chunk_publish_frame [frame]:
  assumes "steady f" and "\<And>w p. f (w\<lparr>published := p\<rparr>) = f w"
  shows "preserves f (publishDeliveryEvent_chunk c a b s r)" "preserves f (publishCampaignDLQ c r n)"
  unfolding publishDeliveryEvent_chunk_def publishCampaignDLQ_def by (intro frame assms)+

lemma preserves_case_outcome [frame]:
  "preserves f a \<Longrightarrow> preserves f b \<Longrightarrow> preserves f c \<Longrightarrow> (\<And>r. preserves f (d r)) \<Longrightarrow>
   preserves f (case v of OSent \<Rightarrow> a | ODuplicate \<Rightarrow> b | OPermanent \<Rightarrow> c | OTransient r \<Rightarrow> d r)"
  by (cases v) auto

lemma chunk_fail_frame [frame]:
  assumes "steady f" and "\<And>w p. f (w\<lparr>published := p\<rparr>) = f w" and "\<And>w d. f (w\<lparr>db := d\<rparr>) = f w"
  shows "preserves f (fail_recipients c a b rs n)"
proof (induction rs arbitrary: n)
  case Nil
  show ?case unfolding fail_recipients.simps by (rule preserves_return)
next
  case (Cons r rs)
  show ?case unfolding fail_recipients.simps by (intro frame assms Cons.IH)
qed

lemma chunk_count_frame [frame]:
  assumes "steady f" and "\<And>w d. f (w\<lparr>db := d\<rparr>) = f w"
  shows "preserves f (count_failed c n)" "preserves f (apply_progress c res)"
  unfolding count_failed_def apply_progress_def by (intro frame assms)+

lemma chunk_failAll_frame [frame]:
  assumes "steady f" and "\<And>w p. f (w\<lparr>published := p\<rparr>) = f w" and "\<And>w d. f (w\<lparr>db := d\<rparr>) = f w"
  shows "preserves f (failAllRecipients c a)"
  unfolding failAllRecipients_def by (intro frame assms)

lemma processRecipient_frame [frame]:
  assumes "steady f" and "\<And>w p. f (w\<lparr>published := p\<rparr>) = f w" and "\<And>w d. f (w\<lparr>db := d\<rparr>) = f w"
    and "\<And>w r. f (w\<lparr>redis := r\<rparr>) = f w" and "\<And>w m. f (w\<lparr>mail := m\<rparr>) = f w"
  shows "preserves f (processRecipient h c r rd)"
  unfolding processRecipient_def by (intro frame assms)

lemma chunk_loop_frame [frame]:
  assumes "steady f" and "\<And>w p. f (w\<lparr>published := p\<rparr>) = f w" and "\<And>w d. f (w\<lparr>db := d\<rparr>) = f w"
    and "\<And>w r. f (w\<lparr>redis := r\<rparr>) = f w" and "\<And>w m. f (w\<lparr>mail := m\<rparr>) = f w"
  shows "preserves f (chunk_loop h c rd rs res tr)"
proof (induction rs arbitrary: res tr)
  case Nil
  show ?case unfolding chunk_loop.simps by (rule preserves_return)
next
  case (Cons r rs)
  show ?case unfolding chunk_loop.simps by (intro frame assms Cons.IH)
qed

lemma settles_chunk_disposition [settle_rules]: "settles_once (chunk_disposition c n res tr)"
  unfolding chunk_disposition_def by (intro settle_rules frame; simp)

lemma Handle_chunk_settles: "settles_once (Handle_chunk h m)"
  unfolding Handle_chunk_def by (intro settle_rules frame; simp)

interpretation chunk: total_handler "Handle_chunk h"
  by (rule total_handlerI) (rule Handle_chunk_settles)

lemma Handle_chunk_env: "preserves env (Handle_chunk h m)"
  unfolding Handle_chunk_def chunk_disposition_def by (intro frame; simp)

section \<open>Accounting without infrastructure faults\<close>

lemma find_recipient_other:
  "i \<noteq> j \<Longrightarrow> (\<And>r. cr_id (f r) = cr_id r) \<Longrightarrow>
   find (this_recipient j ws') (update_where (\<lambda>r. this_recipient i ws r \<and> P r) f t) =
   find (this_recipient j ws') t"
  by (rule find_update_where_other) (auto simp: this_recipient_def)

lemma recipient_status_other:
  assumes "i \<noteq> j"
  shows "recipient_status (mark_recipient_sending i ws t d) j ws' = recipient_status d j ws'"
    "recipient_status (mark_recipient_sent i ws mid t d) j ws' = recipient_status d j ws'"
    "recipient_status (mark_recipient_failed i ws rsn t d) j ws' = recipient_status d j ws'"
  using assms
  by (auto simp: recipient_status_def mark_recipient_sending_def mark_recipient_sent_def
      mark_recipient_failed_def find_recipient_other)

lemma campaigns_mark_recipient [simp]:
  "campaigns (mark_recipient_sending i ws t d) = campaigns d"
  "campaigns (mark_recipient_sent i ws mid t d) = campaigns d"
  "campaigns (mark_recipient_failed i ws rsn t d) = campaigns d"
  by (simp_all add: mark_recipient_sending_def mark_recipient_sent_def mark_recipient_failed_def)

definition rstat :: "CampaignChunkPayload \<Rightarrow> CampaignChunkRecipient \<Rightarrow> world \<Rightarrow> string" where
  "rstat chunk r w = recipient_status (db w) (ccr_RecipientID r) (cc_WorkspaceID chunk)"

definition others_same :: "CampaignChunkPayload \<Rightarrow> CampaignChunkRecipient \<Rightarrow> world \<Rightarrow> world \<Rightarrow> bool" where
  "others_same chunk r w w' \<longleftrightarrow> (\<forall>r'. ccr_RecipientID r' \<noteq> ccr_RecipientID r \<longrightarrow> rstat chunk r' w' = rstat chunk r' w)"

lemma processRecipient_accounting:
  assumes "reliable (env w)" and "rstat chunk r w \<noteq> ''''"
  shows "wp (processRecipient h chunk r rd) (\<lambda>out w'. campaigns (db w') = campaigns (db w) \<and>
     others_same chunk r w w' \<and>
     (if out = OSent then length (mail w') = Suc (length (mail w)) \<and> rstat chunk r w \<noteq> ''sent'' \<and> rstat chunk r w' = ''sent''
      else mail w' = mail w \<and> rstat chunk r w' \<noteq> '''' \<and> (rstat chunk r w' = ''sent'' \<longleftrightarrow> rstat chunk r w = ''sent''))) w"
proof -
  define w0 where "w0 = step_clock w"
  obtain waited rl w1 where a: "run_state (Acquire (eh_limiter h) (ratelimit_key (cc_WorkspaceID chunk))
      rateLimitWaitBudget) w0 = ((waited, rl), w1)"
    by (metis surj_pair)
  have w1: "env w1 = env w" "db w1 = db w" "mail w1 = mail w"
    using Acquire_keeps [OF a] by (simp_all add: w0_def)
  have w0: "db w0 = db w" "mail w0 = mail w" by (simp_all add: w0_def)
  have acq: "wp (Acquire (eh_limiter h) (ratelimit_key (cc_WorkspaceID chunk)) rateLimitWaitBudget) Q w0 =
      Q (waited, rl) w1" for Q
    by (simp add: wp_def a)
  show ?thesis
    using assms
    by (cases rl) (auto simp: processRecipient_def wp_rules GetCampaignRecipientStatus_def acq
         w0_def [symmetric] w0 w1 MarkCampaignRecipientSending_def MarkCampaignRecipientSent_def
         MarkCampaignRecipientFailed_def publishDeliveryEvent_chunk_def Publish_def SendEmail_def
         chunk_input_def others_same_def rstat_def recipient_status_marks recipient_status_other
       split: if_splits sum.split)
qed

definition sent_rows :: "CampaignChunkPayload \<Rightarrow> CampaignChunkRecipient list \<Rightarrow> world \<Rightarrow> nat" where
  "sent_rows chunk rs w = length (filter (\<lambda>r. rstat chunk r w = ''sent'') rs)"

definition rows_present :: "CampaignChunkPayload \<Rightarrow> world \<Rightarrow> bool" where
  "rows_present chunk w \<longleftrightarrow> (\<forall>r \<in> set (cc_Recipients chunk). rstat chunk r w \<noteq> '''')"

lemma sent_rows_cong:
  "(\<And>r. r \<in> set rs \<Longrightarrow> rstat chunk r w' = ''sent'' \<longleftrightarrow> rstat chunk r w = ''sent'') \<Longrightarrow>
   sent_rows chunk rs w' = sent_rows chunk rs w"
  unfolding sent_rows_def by (rule arg_cong [where f = length], rule filter_cong) simp_all

lemma sent_rows_step:
  assumes "distinct (map ccr_RecipientID rs)" and "r \<in> set rs" and "others_same chunk r w w'"
    and "rstat chunk r w \<noteq> ''sent''" and "rstat chunk r w' = ''sent''"
  shows "sent_rows chunk rs w' = Suc (sent_rows chunk rs w)"
  using assms(1,2)
proof (induction rs)
  case (Cons a rs)
  show ?case
  proof (cases "a = r")
    case True
    have "sent_rows chunk rs w' = sent_rows chunk rs w"
    proof (rule sent_rows_cong)
      fix q assume "q \<in> set rs"
      then have "ccr_RecipientID q \<in> set (map ccr_RecipientID rs)" by simp
      then have "ccr_RecipientID q \<noteq> ccr_RecipientID r" using Cons.prems True by auto
      then show "rstat chunk q w' = ''sent'' \<longleftrightarrow> rstat chunk q w = ''sent''"
        using assms(3) by (simp add: others_same_def)
    qed
    with True assms(4,5) show ?thesis by (simp add: sent_rows_def)
  next
    case False
    then have r: "r \<in> set rs" using Cons.prems by simp
    then have "ccr_RecipientID a \<noteq> ccr_RecipientID r" using Cons.prems by auto
    then have "rstat chunk a w' = rstat chunk a w" using assms(3) by (simp add: others_same_def)
    with Cons r show ?thesis by (simp add: sent_rows_def)
  qed
qed simp

text \<open>The accounts of a chunk between two worlds: mails, rows that say \<^verbatim>\<open>sent\<close> and a counter.\<close>

definition balanced :: "CampaignChunkPayload \<Rightarrow> world \<Rightarrow> world \<Rightarrow> bool" where
  "balanced chunk w w' \<longleftrightarrow> rows_present chunk w' \<and>
     length (mail w') + sent_rows chunk (cc_Recipients chunk) w =
     length (mail w) + sent_rows chunk (cc_Recipients chunk) w'"

lemma balanced_trans: "balanced chunk w w1 \<Longrightarrow> balanced chunk w1 w2 \<Longrightarrow> balanced chunk w w2"
  by (simp add: balanced_def)

lemma balanced_same:
  "rows_present chunk w \<Longrightarrow> mail w' = mail w \<Longrightarrow>
   (\<And>r. r \<in> set (cc_Recipients chunk) \<Longrightarrow> rstat chunk r w' \<noteq> '''' \<and>
      (rstat chunk r w' = ''sent'' \<longleftrightarrow> rstat chunk r w = ''sent'')) \<Longrightarrow> balanced chunk w w'"
  by (simp add: balanced_def rows_present_def sent_rows_cong [of _ chunk w' w])

lemma balanced_step:
  assumes "distinct (map ccr_RecipientID (cc_Recipients chunk))" and "r \<in> set (cc_Recipients chunk)"
    and "rows_present chunk w" and "others_same chunk r w w'"
    and "if out = OSent then length (mail w') = Suc (length (mail w)) \<and> rstat chunk r w \<noteq> ''sent'' \<and> rstat chunk r w' = ''sent''
      else mail w' = mail w \<and> rstat chunk r w' \<noteq> '''' \<and> (rstat chunk r w' = ''sent'' \<longleftrightarrow> rstat chunk r w = ''sent'')"
  shows "balanced chunk w w'"
proof -
  have o: "rstat chunk q w' = rstat chunk q w" if "q \<in> set (cc_Recipients chunk)" "q \<noteq> r" for q
    using that assms(1,2,4) by (auto simp: others_same_def distinct_map inj_on_def)
  show ?thesis
  proof (cases "out = OSent")
    case True
    with assms(5) have t: "length (mail w') = Suc (length (mail w))" "rstat chunk r w \<noteq> ''sent''"
      "rstat chunk r w' = ''sent''" by simp_all
    have "rows_present chunk w'"
      unfolding rows_present_def
    proof
      fix q assume "q \<in> set (cc_Recipients chunk)"
      then show "rstat chunk q w' \<noteq> ''''"
        using o [of q] t(3) assms(3) by (cases "q = r") (auto simp: rows_present_def)
    qed
    with t sent_rows_step [OF assms(1,2,4) t(2,3)] show ?thesis by (simp add: balanced_def)
  next
    case False
    with assms(5) have f: "mail w' = mail w" "rstat chunk r w' \<noteq> ''''"
      "rstat chunk r w' = ''sent'' \<longleftrightarrow> rstat chunk r w = ''sent''" by auto
    show ?thesis
    proof (rule balanced_same [OF assms(3) f(1)])
      fix q assume "q \<in> set (cc_Recipients chunk)"
      then show "rstat chunk q w' \<noteq> '''' \<and> (rstat chunk q w' = ''sent'' \<longleftrightarrow> rstat chunk q w = ''sent'')"
        using o [of q] f assms(3) by (cases "q = r") (auto simp: rows_present_def)
    qed
  qed
qed

lemma balanced_tick: "rows_present chunk w \<Longrightarrow> balanced chunk w (w\<lparr>tick := k\<rparr>)"
  by (rule balanced_same) (simp_all add: rows_present_def rstat_def)

lemma chunk_loop_accounting:
  assumes "reliable (env w)" and "distinct (map ccr_RecipientID (cc_Recipients chunk))"
    and "set rs \<subseteq> set (cc_Recipients chunk)" and "rows_present chunk w"
  shows "wp (chunk_loop h chunk rd rs res tr) (\<lambda>(res', tr') w'. campaigns (db w') = campaigns (db w) \<and>
     balanced chunk w w' \<and> cr_sent res' + length (mail w) = cr_sent res + length (mail w') \<and>
     set tr' \<subseteq> set tr \<union> set rs) w"
  using assms
proof (induction rs arbitrary: w res tr)
  case Nil
  then show ?case by (simp add: wp_rules balanced_def)
next
  case (Cons r rs)
  let ?w = "w\<lparr>tick := Suc (tick w)\<rparr>"
  have bw: "balanced chunk w ?w" by (rule balanced_tick) (rule Cons.prems)
  have pw: "rows_present chunk ?w" using bw by (simp add: balanced_def)
  have r: "r \<in> set (cc_Recipients chunk)" and rs: "set rs \<subseteq> set (cc_Recipients chunk)"
    using Cons.prems by auto
  show ?case
  proof (cases "cancelled (env w) (tick w)")
    case True
    then show ?thesis
      using bw by (simp add: wp_rules, intro wp_mono [OF Cons.IH])
        (use Cons.prems pw rs in \<open>auto dest: balanced_trans\<close>)
  next
    case False
    have present: "rstat chunk r ?w \<noteq> ''''" using pw r by (simp add: rows_present_def)
    have rel: "reliable (env ?w)" using Cons.prems by simp
    have envp: "wp (processRecipient h chunk r rd) (\<lambda>_ w'. env w' = env ?w) ?w"
      by (rule preserves_wp) (rule processRecipient_frame; simp)
    have step: "wp (case out of
         OSent \<Rightarrow> chunk_loop h chunk rd rs (res\<lparr>cr_sent := cr_sent res + 1\<rparr>) tr
       | ODuplicate \<Rightarrow> chunk_loop h chunk rd rs res tr
       | OPermanent \<Rightarrow> chunk_loop h chunk rd rs (res\<lparr>cr_permanentFailed := cr_permanentFailed res + 1\<rparr>) tr
       | OTransient reason \<Rightarrow> chunk_loop h chunk rd rs
             (res\<lparr>cr_transientFailed := cr_transientFailed res + 1, cr_transientReason := reason\<rparr>) (tr @ [r]))
       (\<lambda>(res', tr') w'. campaigns (db w') = campaigns (db w) \<and>
     balanced chunk w w' \<and> cr_sent res' + length (mail w) = cr_sent res + length (mail w') \<and>
     set tr' \<subseteq> set tr \<union> set (r # rs)) w1"
      if "env w1 = env ?w" "campaigns (db w1) = campaigns (db ?w)" "others_same chunk r ?w w1"
        "if out = OSent then length (mail w1) = Suc (length (mail ?w)) \<and> rstat chunk r ?w \<noteq> ''sent'' \<and> rstat chunk r w1 = ''sent''
      else mail w1 = mail ?w \<and> rstat chunk r w1 \<noteq> '''' \<and> (rstat chunk r w1 = ''sent'' \<longleftrightarrow> rstat chunk r ?w = ''sent'')"
      for out w1
    proof -
      have b: "balanced chunk ?w w1" by (rule balanced_step [OF Cons.prems(2) r pw that(3,4)])
      have b': "balanced chunk w w1" by (rule balanced_trans [OF bw b])
      have p1: "rows_present chunk w1" using b by (simp add: balanced_def)
      have rel1: "reliable (env w1)" using that(1) Cons.prems(1) by simp
      note IH = wp_mono [OF Cons.IH [OF rel1 Cons.prems(2) rs p1]]
      show ?thesis
        using that(2,4) b'
        by (cases out) (simp_all, (rule IH; auto dest: balanced_trans)+)
    qed
    show ?thesis
      unfolding chunk_loop.simps wp_bind wp_ctx_err
      using False
      by (simp only: if_False wp_bind)
        (rule wp_mono [OF wp_conj [OF envp processRecipient_accounting [OF rel present]]], rule step; simp)
  qed
qed

definition campaign_sent :: "CampaignChunkPayload \<Rightarrow> world \<Rightarrow> int option" where
  "campaign_sent chunk w = map_option cp_sent_count (find_campaign (db w) (cc_CampaignID chunk) (cc_WorkspaceID chunk))"

lemma find_campaign_counts:
  "find (this_campaign c ws) (update_where (this_campaign c ws)
      (\<lambda>r. r\<lparr>cp_sent_count := cp_sent_count r + s, cp_failed_count := cp_failed_count r + n, cp_updated_at := t\<rparr>) cs) =
   map_option (\<lambda>r. r\<lparr>cp_sent_count := cp_sent_count r + s, cp_failed_count := cp_failed_count r + n, cp_updated_at := t\<rparr>)
     (find (this_campaign c ws) cs)"
  by (subst find_update_where) (auto intro!: map_option_cong dest: find_SomeD)

text \<open>From \<open>w\<close>, only the campaign's counters moved, and \<open>sent_count\<close> is now \<open>k\<close>.\<close>

definition counted :: "CampaignChunkPayload \<Rightarrow> world \<Rightarrow> int \<Rightarrow> world \<Rightarrow> bool" where
  "counted chunk w k w' \<longleftrightarrow> env w' = env w \<and> mail w' = mail w \<and>
     campaign_recipients (db w') = campaign_recipients (db w) \<and> campaign_sent chunk w' = Some k"

lemma wp_Increment:
  assumes "reliable (env w)" and "counted chunk w k w1"
  shows "wp (IncrementCampaignCounts (cc_CampaignID chunk) (cc_WorkspaceID chunk) s n)
    (\<lambda>out w'. \<not> isl out \<and> counted chunk w (k + int s) w') w1"
proof -
  obtain r where r: "find_campaign (db w1) (cc_CampaignID chunk) (cc_WorkspaceID chunk) = Some r" "cp_sent_count r = k"
    using assms(2) by (auto simp: counted_def campaign_sent_def)
  show ?thesis
    using assms r
    by (simp add: IncrementCampaignCounts_def wp_rules increment_counts_def Let_def find_campaign_def
        find_campaign_counts counted_def campaign_sent_def)
qed

lemma wp_Complete:
  assumes "reliable (env w)" and "counted chunk w k w1"
  shows "wp (MarkCampaignComplete (cc_CampaignID chunk) (cc_WorkspaceID chunk)) (\<lambda>out. counted chunk w k) w1"
proof -
  have "map_option cp_sent_count (find (this_campaign c ws) (update_where (completable c ws)
      (\<lambda>r. r\<lparr>cp_status := ''completed'', cp_completed_at := Some t, cp_updated_at := t\<rparr>) cs)) =
    map_option cp_sent_count (find (this_campaign c ws) cs)" for c ws t cs
    by (subst find_update_where) (auto simp: completable_def option.map_comp comp_def intro!: option.map_cong)
  then show ?thesis
    using assms
    by (simp add: MarkCampaignComplete_def wp_rules complete_campaign_def Let_def find_campaign_def
        counted_def campaign_sent_def del: map_option_eq_Some)
qed

text \<open>What settling the progress of a chunk leaves alone.\<close>

definition same_books :: "CampaignChunkPayload \<Rightarrow> world \<Rightarrow> world \<Rightarrow> bool" where
  "same_books chunk w w' \<longleftrightarrow> env w' = env w \<and> mail w' = mail w \<and>
     (\<forall>r. rstat chunk r w \<noteq> '''' \<longrightarrow> rstat chunk r w' \<noteq> '''' \<and>
        (rstat chunk r w' = ''sent'' \<longleftrightarrow> rstat chunk r w = ''sent''))"

lemma rstat_recipients: "campaign_recipients (db w') = campaign_recipients (db w) \<Longrightarrow> rstat chunk r w' = rstat chunk r w"
  by (simp add: rstat_def recipient_status_def)

lemma counted_books: "counted chunk w k w' \<Longrightarrow> same_books chunk w w' \<and> campaign_sent chunk w' = Some k"
  using rstat_recipients [of w' w chunk] by (simp add: counted_def same_books_def)

lemma counted_refl: "campaign_sent chunk w = Some k \<Longrightarrow> counted chunk w k w"
  by (simp add: counted_def)

lemma counted_inc: "counted chunk w k w' \<Longrightarrow> counted chunk w k (w'\<lparr>metrics := m\<rparr>)"
  by (simp add: counted_def campaign_sent_def)

lemma apply_progress_accounting:
  assumes "reliable (env w)" and "campaign_sent chunk w = Some n"
  shows "wp (apply_progress chunk res) (\<lambda>out w'. out = Some () \<and> same_books chunk w w' \<and>
    campaign_sent chunk w' = Some (n + int (cr_sent res))) w"
proof -
  let ?k = "n + int (cr_sent res)"
  have fin: "wp (MarkCampaignComplete (cc_CampaignID chunk) (cc_WorkspaceID chunk))
      (\<lambda>x. wp (State_Monad.bind (case x of Inl e \<Rightarrow> State_Monad.return ()
                | Inr b \<Rightarrow> if b then inc ''campaign_completed_total'' else State_Monad.return ())
          (\<lambda>_. State_Monad.return (Some ()))) (\<lambda>out w'. out = Some () \<and> counted chunk w ?k w')) w1"
    if "counted chunk w ?k w1" for w1
    by (rule wp_mono [OF wp_Complete [OF assms(1) that]])
      (simp add: wp_rules counted_inc split: sum.split)
  have "wp (apply_progress chunk res) (\<lambda>out w'. out = Some () \<and> counted chunk w ?k w') w"
  proof (cases "cr_sent res > 0 \<or> cr_permanentFailed res > 0")
    case False
    then show ?thesis using counted_refl [OF assms(2)] by (simp add: apply_progress_def wp_rules)
  next
    case True
    have go: "wp (case out of Inl e \<Rightarrow> State_Monad.return None
        | Inr pr \<Rightarrow>
            if pr_SentCount pr + pr_FailedCount pr \<ge> pr_TotalRecipients pr \<and> pr_TotalRecipients pr > 0 then do {
              completed \<leftarrow> MarkCampaignComplete (cc_CampaignID chunk) (cc_WorkspaceID chunk);
              (case completed of
                 Inl e \<Rightarrow> State_Monad.return ()
               | Inr b \<Rightarrow> if b then inc ''campaign_completed_total'' else State_Monad.return ());
              State_Monad.return (Some ())
            } else State_Monad.return (Some ()))
        (\<lambda>out w'. out = Some () \<and> counted chunk w ?k w') w1"
      if "\<not> isl out \<and> counted chunk w ?k w1" for out :: "goerr + CampaignProgress" and w1
    proof (cases out)
      case (Inr pr)
      have "counted chunk w ?k w1" using that by simp
      then show ?thesis
        unfolding Inr sum.case wp_if wp_bind [of "MarkCampaignComplete c s" for c s] wp_return
        using fin [of w1] by simp
    qed (use that in simp)
    show ?thesis
      unfolding apply_progress_def if_P [OF True] wp_bind [of "IncrementCampaignCounts a b c d" for a b c d]
      by (rule wp_mono [OF wp_Increment [OF assms(1) counted_refl [OF assms(2)]]]) (rule go)
  qed
  then show ?thesis by (rule wp_mono) (simp add: counted_books)
qed

lemma same_books_trans: "same_books chunk w w1 \<Longrightarrow> same_books chunk w1 w2 \<Longrightarrow> same_books chunk w w2"
  by (simp add: same_books_def)

lemma mark_failed_books:
  assumes "reliable (env w)"
  shows "wp (MarkCampaignRecipientFailed i (cc_WorkspaceID chunk) reason) (\<lambda>out w'.
    same_books chunk w w' \<and> campaigns (db w') = campaigns (db w)) w"
proof -
  have "rstat chunk r w \<noteq> '''' \<longrightarrow> recipient_status (mark_recipient_failed i (cc_WorkspaceID chunk) reason t (db w))
        (ccr_RecipientID r) (cc_WorkspaceID chunk) \<noteq> '''' \<and>
      (recipient_status (mark_recipient_failed i (cc_WorkspaceID chunk) reason t (db w))
        (ccr_RecipientID r) (cc_WorkspaceID chunk) = ''sent'' \<longleftrightarrow> rstat chunk r w = ''sent'')" for r t
    by (cases "i = ccr_RecipientID r") (auto simp: rstat_def recipient_status_failed recipient_status_other)
  then show ?thesis
    using assms by (simp add: MarkCampaignRecipientFailed_def wp_rules same_books_def rstat_def)
qed

lemma publish_books:
  "wp (publishDeliveryEvent_chunk chunk' a b s r) (\<lambda>_ w'. same_books chunk w w' \<and> campaigns (db w') = campaigns (db w)) w"
proof -
  have p: "preserves (\<lambda>w. (env w, mail w, db w)) (publishDeliveryEvent_chunk chunk' a b s r)"
    by (intro frame) (simp_all add: steady_def)
  show ?thesis by (rule wp_mono [OF preserves_wp [OF p]]) (auto simp: same_books_def rstat_def)
qed

lemma fail_recipients_books:
  assumes "reliable (env w)"
  shows "wp (fail_recipients chunk reason er rs n) (\<lambda>_ w'.
    same_books chunk w w' \<and> campaigns (db w') = campaigns (db w)) w"
  using assms
proof (induction rs arbitrary: w n)
  case Nil
  then show ?case by (simp add: wp_rules same_books_def)
next
  case (Cons r rs)
  have IH: "wp (fail_recipients chunk reason er rs n) (\<lambda>_ w'.
      same_books chunk w w' \<and> campaigns (db w') = campaigns (db w)) w1"
    if "same_books chunk w w1 \<and> campaigns (db w1) = campaigns (db w)" for w1 n
    using that Cons.prems
    by (intro wp_mono [OF Cons.IH]) (auto simp: same_books_def)
  show ?case
    unfolding fail_recipients.simps wp_bind
    apply (rule wp_mono [OF mark_failed_books [OF Cons.prems]])
    subgoal for out w1
      apply (cases out)
      subgoal by (simp, rule IH)
      subgoal
        apply (simp add: wp_bind)
        apply (rule wp_mono [OF publish_books [of _ _ _ _ _ chunk]])
        apply (rule IH)
        apply (simp only:)
        apply (meson same_books_trans)
        done
      done
    done
qed

lemma count_failed_books:
  assumes "reliable (env w)" and "campaign_sent chunk w = Some k"
  shows "wp (count_failed chunk n) (\<lambda>_ w'. same_books chunk w w' \<and> campaign_sent chunk w' = Some k) w"
proof (rule wp_mono)
  show "wp (count_failed chunk n) (\<lambda>_. counted chunk w k) w"
  proof (cases "n > 0")
    case False
    then show ?thesis using counted_refl [OF assms(2)] by (simp add: count_failed_def wp_rules)
  next
    case True
    have "wp (MarkCampaignComplete (cc_CampaignID chunk) (cc_WorkspaceID chunk))
        (\<lambda>x. wp (State_Monad.return ()) (\<lambda>_. counted chunk w k)) w1"
      if "counted chunk w k w1" for w1
      by (rule wp_mono [OF wp_Complete [OF assms(1) that]]) (simp add: wp_return)
    with wp_Increment [OF assms(1) counted_refl [OF assms(2)], of 0 n] show ?thesis
      unfolding count_failed_def if_P [OF True] wp_bind by (elim wp_mono) simp
  qed
qed (rule counted_books)

lemma publish_dlq_books:
  "wp (publishCampaignDLQ chunk' r n) (\<lambda>_ w'. same_books chunk w w' \<and> campaigns (db w') = campaigns (db w)) w"
proof -
  have p: "preserves (\<lambda>w. (env w, mail w, db w)) (publishCampaignDLQ chunk' r n)"
    by (intro frame) (simp_all add: steady_def)
  show ?thesis by (rule wp_mono [OF preserves_wp [OF p]]) (auto simp: same_books_def rstat_def)
qed

text \<open>Chaining parts that keep the books and the campaign's \<open>sent_count\<close>.\<close>

definition books_kept :: "CampaignChunkPayload \<Rightarrow> (world, 'a) state \<Rightarrow> bool" where
  "books_kept chunk m \<longleftrightarrow> (\<forall>w k. reliable (env w) \<longrightarrow> campaign_sent chunk w = Some k \<longrightarrow>
     wp m (\<lambda>_ w'. same_books chunk w w' \<and> campaign_sent chunk w' = Some k) w)"

named_theorems books

lemma books_bind [books]:
  assumes "books_kept chunk m" and "\<And>x. books_kept chunk (f x)"
  shows "books_kept chunk (State_Monad.bind m f)"
  unfolding books_kept_def wp_bind
proof (intro allI impI)
  fix w :: world and k assume w: "reliable (env w)" "campaign_sent chunk w = Some k"
  have go: "wp (f x) (\<lambda>_ w'. same_books chunk w w' \<and> campaign_sent chunk w' = Some k) w1"
    if "same_books chunk w w1 \<and> campaign_sent chunk w1 = Some k" for x w1
  proof -
    have "reliable (env w1)" using that w by (simp add: same_books_def)
    then have "wp (f x) (\<lambda>_ w'. same_books chunk w1 w' \<and> campaign_sent chunk w' = Some k) w1"
      using assms(2) [unfolded books_kept_def] that by blast
    then show ?thesis by (rule wp_mono) (use that same_books_trans in blast)
  qed
  show "wp m (\<lambda>x. wp (f x) (\<lambda>_ w'. same_books chunk w w' \<and> campaign_sent chunk w' = Some k)) w"
    by (rule wp_mono [OF assms(1) [unfolded books_kept_def, rule_format, OF w]]) (rule go)
qed

lemma books_return [books]: "books_kept chunk (State_Monad.return x)"
  by (simp add: books_kept_def wp_return same_books_def)

lemma books_inc [books]: "books_kept chunk (inc_by c n)"
  by (simp add: books_kept_def wp_inc_by same_books_def campaign_sent_def rstat_def)

lemma books_finish [books]: "books_kept chunk (finish d)"
  by (simp add: books_kept_def wp_finish same_books_def campaign_sent_def rstat_def)

lemma books_if [books]: "books_kept chunk m \<Longrightarrow> books_kept chunk n \<Longrightarrow> books_kept chunk (if b then m else n)"
  by simp

lemma books_parts [books]:
  "books_kept chunk (count_failed chunk n)"
  "books_kept chunk (fail_recipients chunk reason er rs n)"
  "books_kept chunk (publishCampaignDLQ chunk reason n)"
proof -
  show "books_kept chunk (count_failed chunk n)"
    unfolding books_kept_def by (blast intro: count_failed_books)
  show "books_kept chunk (fail_recipients chunk reason er rs n)"
    unfolding books_kept_def by (intro allI impI, rule wp_mono [OF fail_recipients_books]) (simp_all add: campaign_sent_def find_campaign_def)
  show "books_kept chunk (publishCampaignDLQ chunk reason n)"
    unfolding books_kept_def by (intro allI impI, rule wp_mono [OF publish_dlq_books [where chunk = chunk]]) (simp add: campaign_sent_def find_campaign_def)
qed

lemma books_disposition: "books_kept chunk (chunk_disposition chunk n res tr)"
  unfolding chunk_disposition_def by (intro books)

lemma books_failAll: "books_kept chunk (failAllRecipients chunk r)"
  unfolding failAllRecipients_def by (intro books)

text \<open>The books of a chunk: rows, mails and the campaign's \<open>sent_count\<close> move together.\<close>

definition in_step :: "CampaignChunkPayload \<Rightarrow> world \<Rightarrow> world \<Rightarrow> bool" where
  "in_step chunk w w' \<longleftrightarrow> balanced chunk w w' \<and> (\<exists>k k'. campaign_sent chunk w = Some k \<and> campaign_sent chunk w' = Some k' \<and>
     k' + int (length (mail w)) = k + int (length (mail w')))"

lemma in_step_trans: "in_step chunk w w1 \<Longrightarrow> in_step chunk w1 w2 \<Longrightarrow> in_step chunk w w2"
  unfolding in_step_def using balanced_trans by fastforce

lemma books_in_step:
  "rows_present chunk w \<Longrightarrow> same_books chunk w w' \<Longrightarrow> campaign_sent chunk w = Some k \<Longrightarrow>
   campaign_sent chunk w' = Some k \<Longrightarrow> in_step chunk w w'"
  by (auto simp: in_step_def same_books_def rows_present_def intro!: balanced_same)

lemma Handle_chunk_in_step:
  assumes "reliable (env w)" and "Data m = Some chunk" and "distinct (map ccr_RecipientID (cc_Recipients chunk))"
    and "rows_present chunk w" and "campaign_sent chunk w = Some k"
  shows "wp (Handle_chunk h m) (\<lambda>_. in_step chunk w) w"
proof (cases "validateCampaignChunk chunk = None")
  case False
  have "books_kept chunk (Handle_chunk h m)"
    using False assms(2) by (simp add: Handle_chunk_def books_finish)
  then show ?thesis
    unfolding books_kept_def using assms books_in_step by (blast intro: wp_mono)
next
  case valid: True
  show ?thesis
  proof (cases "Render (chunk_template chunk)")
    case (Inl e)
    have "books_kept chunk (Handle_chunk h m)"
      unfolding Handle_chunk_def assms(2) option.case using valid Inl
      by (simp, intro books books_failAll)
    then show ?thesis
      unfolding books_kept_def using assms books_in_step by (blast intro: wp_mono)
  next
    case (Inr rd)
    let ?P = "\<lambda>(res', tr') w'. campaigns (db w') = campaigns (db w) \<and>
     balanced chunk w w' \<and> cr_sent res' + length (mail w) = cr_sent chunkResult0 + length (mail w') \<and>
     set tr' \<subseteq> set [] \<union> set (cc_Recipients chunk)"
    have loop: "wp (chunk_loop h chunk rd (cc_Recipients chunk) chunkResult0 []) (\<lambda>x w'. ?P x w' \<and> env w' = env w) w"
      by (rule wp_conj [OF chunk_loop_accounting [OF assms(1,3) subset_refl assms(4)] preserves_wp])
        (rule chunk_loop_frame; simp)
    have tail: "wp (apply_progress chunk res) (\<lambda>progress. wp (case progress of None \<Rightarrow> finish Nak
        | Some _ \<Rightarrow> chunk_disposition chunk (attempt_of m) res tr) (\<lambda>_. in_step chunk w)) w1"
      if "?P (res, tr) w1" and "env w1 = env w" for res tr w1
    proof -
      have s1: "campaign_sent chunk w1 = Some k" using that(1) assms(5) by (simp add: campaign_sent_def find_campaign_def)
      have b1: "balanced chunk w w1" and p1: "rows_present chunk w1"
        and c1: "int (cr_sent res) + int (length (mail w)) = int (length (mail w1))"
        using that(1) by (auto simp: balanced_def chunkResult0_def)
      have rel1: "reliable (env w1)" using that(2) assms(1) by simp
      have last: "wp (chunk_disposition chunk (attempt_of m) res tr) (\<lambda>_. in_step chunk w) w2"
        if w2: "same_books chunk w1 w2 \<and> campaign_sent chunk w2 = Some (k + int (cr_sent res))" for w2
      proof -
        have b2: "balanced chunk w1 w2"
          using w2 p1 by (intro balanced_same) (auto simp: same_books_def rows_present_def)
        have "in_step chunk w w2"
          unfolding in_step_def
          using balanced_trans [OF b1 b2] assms(5) w2 c1 by (simp add: same_books_def)
        moreover have "rows_present chunk w2" using b2 by (simp add: balanced_def)
        moreover have "reliable (env w2)" using w2 rel1 by (simp add: same_books_def)
        ultimately show ?thesis
          using books_disposition [of chunk "attempt_of m" res tr] w2 unfolding books_kept_def
          by (blast intro: wp_mono books_in_step in_step_trans)
      qed
      show ?thesis
        by (rule wp_mono [OF apply_progress_accounting [OF rel1 s1]]) (simp add: last)
    qed
    show ?thesis
      unfolding Handle_chunk_def assms(2) option.case
      using valid Inr tail
      by (simp add: wp_bind [of "chunk_loop a b c d e f" for a b c d e f])
        (rule wp_mono [OF loop], auto simp: wp_bind split: prod.splits)
  qed
qed

definition deliver_chunk :: "EmailHandler \<Rightarrow> CampaignChunkPayload message \<Rightarrow> world \<Rightarrow> world" where
  "deliver_chunk h m w = snd (run_state (dispatch (Handle_chunk h) m) w)"

lemma chunk_books:
  assumes "reliable (env w)" and "\<forall>m \<in> set ms. Data m = Some chunk"
    and "distinct (map ccr_RecipientID (cc_Recipients chunk))"
    and "rows_present chunk w" and "campaign_sent chunk w = Some k"
  shows "in_step chunk w (fold (deliver_chunk h) ms w)"
  using assms
proof (induction ms arbitrary: w k)
  case Nil
  then show ?case by (auto simp: in_step_def balanced_def)
next
  case (Cons m ms)
  have s: "in_step chunk w (deliver_chunk h m w)"
    using Handle_chunk_in_step [of w m chunk k h] Cons.prems
    by (simp add: deliver_chunk_def chunk.dispatch_is_handler wp_def)
  moreover have "env (deliver_chunk h m w) = env w"
    using Handle_chunk_env by (auto simp: deliver_chunk_def chunk.dispatch_is_handler)
  moreover obtain k' where "campaign_sent chunk (deliver_chunk h m w) = Some k'"
    using s by (auto simp: in_step_def)
  ultimately have "in_step chunk (deliver_chunk h m w) (fold (deliver_chunk h) ms (deliver_chunk h m w))"
    using Cons.prems by (intro Cons.IH [of _ k']) (auto simp: in_step_def balanced_def)
  with s show ?case using in_step_trans by simp
qed

section \<open>Campaign and recipient rows in every environment\<close>

definition campaign_step :: "campaign_row \<Rightarrow> campaign_row \<Rightarrow> bool" where
  "campaign_step r r' \<longleftrightarrow>
     cp_id r' = cp_id r \<and> cp_workspace_id r' = cp_workspace_id r \<and> cp_total_recipients r' = cp_total_recipients r \<and>
     cp_sent_count r \<le> cp_sent_count r' \<and> cp_failed_count r \<le> cp_failed_count r' \<and>
     (cp_completed_at r' = cp_completed_at r \<and> cp_status r' = cp_status r \<or>
      cp_completed_at r = None \<and> cp_completed_at r' \<noteq> None \<and> cp_status r' = ''completed'' \<and>
      0 < cp_total_recipients r' \<and> cp_total_recipients r' \<le> cp_sent_count r' + cp_failed_count r')"

lemma campaign_step_refl: "campaign_step r r"
  by (simp add: campaign_step_def)

lemma campaign_step_trans: "campaign_step r s \<Longrightarrow> campaign_step s t \<Longrightarrow> campaign_step r t"
  by (auto simp: campaign_step_def)

definition recipient_step :: "CampaignChunkPayload \<Rightarrow> recipient_row \<Rightarrow> recipient_row \<Rightarrow> bool" where
  "recipient_step chunk r r' \<longleftrightarrow> r' = r \<or>
     (cr_workspace_id r = cc_WorkspaceID chunk \<and> cr_id r \<in> set (map ccr_RecipientID (cc_Recipients chunk)) \<and>
      cr_workspace_id r' = cr_workspace_id r \<and> cr_id r' = cr_id r \<and> cr_status r \<noteq> ''bounced'' \<and>
      (cr_status r = ''sent'' \<longrightarrow> cr_status r' = ''sent''))"

lemma recipient_step_trans: "recipient_step c r s \<Longrightarrow> recipient_step c s t \<Longrightarrow> recipient_step c r t"
  by (auto simp: recipient_step_def)

definition chunk_evolve :: "CampaignChunkPayload \<Rightarrow> world \<Rightarrow> world \<Rightarrow> bool" where
  "chunk_evolve chunk w w' \<longleftrightarrow> list_all2 campaign_step (campaigns (db w)) (campaigns (db w')) \<and>
     list_all2 (recipient_step chunk) (campaign_recipients (db w)) (campaign_recipients (db w'))"

lemma chunk_evolve_same:
  "campaigns (db w') = campaigns (db w) \<Longrightarrow> campaign_recipients (db w') = campaign_recipients (db w) \<Longrightarrow>
   chunk_evolve c w w'"
  by (simp add: chunk_evolve_def list.rel_refl campaign_step_refl recipient_step_def)

interpretation chunk_guar: guarantee "chunk_evolve c"
proof
  show "chunk_evolve c s s" for s
    by (rule chunk_evolve_same) simp_all
  show "chunk_evolve c s u" if "chunk_evolve c s t" "chunk_evolve c t u" for s t u
    using that unfolding chunk_evolve_def
    by (elim conjE, intro conjI list_all2_trans [OF campaign_step_trans, where bs = "campaigns (db t)"]
        list_all2_trans [OF recipient_step_trans, where bs = "campaign_recipients (db t)"])
qed

lemma evolve_db_same:
  "preserves db m \<Longrightarrow> state_io_rel (chunk_evolve c) m"
  by (simp add: state_io_rel_def preserves_def chunk_evolve_same split: prod.split)

lemma evolve_recipient_exec:
  assumes "i \<in> set (map ccr_RecipientID (cc_Recipients c))"
  shows "state_io_rel (chunk_evolve c) (MarkCampaignRecipientSending i (cc_WorkspaceID c))"
    "state_io_rel (chunk_evolve c) (MarkCampaignRecipientSent i (cc_WorkspaceID c) mid)"
    "state_io_rel (chunk_evolve c) (MarkCampaignRecipientFailed i (cc_WorkspaceID c) rsn)"
proof -
  have k: "list_all2 (recipient_step c) t (update_where (\<lambda>r. this_recipient i (cc_WorkspaceID c) r \<and> P r) f t)"
    if "\<And>r. P r \<Longrightarrow> cr_status r \<noteq> ''bounced''" "\<And>r. cr_id (f r) = cr_id r \<and> cr_workspace_id (f r) = cr_workspace_id r"
      "\<And>r. P r \<Longrightarrow> cr_status r = ''sent'' \<Longrightarrow> cr_status (f r) = ''sent''" for P f t
    by (rule list_all2_update_where) (use that assms in \<open>auto simp: recipient_step_def this_recipient_def\<close>)
  have e: "state_io_rel (chunk_evolve c) (exec g)"
    if "\<And>t d. campaigns (g t d) = campaigns d"
      "\<And>t d. list_all2 (recipient_step c) (campaign_recipients d) (campaign_recipients (g t d))" for g
    using that by (auto simp: state_io_rel_def exec_def call_def Let_def chunk_evolve_def list.rel_refl
        campaign_step_refl recipient_step_def split: fault.split)
  show "state_io_rel (chunk_evolve c) (MarkCampaignRecipientSending i (cc_WorkspaceID c))"
    unfolding MarkCampaignRecipientSending_def by (rule e) (auto simp: mark_recipient_sending_def intro!: k)
  show "state_io_rel (chunk_evolve c) (MarkCampaignRecipientSent i (cc_WorkspaceID c) mid)"
    unfolding MarkCampaignRecipientSent_def by (rule e) (auto simp: mark_recipient_sent_def intro!: k)
  show "state_io_rel (chunk_evolve c) (MarkCampaignRecipientFailed i (cc_WorkspaceID c) rsn)"
    unfolding MarkCampaignRecipientFailed_def by (rule e) (auto simp: mark_recipient_failed_def intro!: k)
qed

lemma evolve_counts:
  "state_io_rel (chunk_evolve c) (IncrementCampaignCounts i ws s n)"
  "state_io_rel (chunk_evolve c) (MarkCampaignComplete i ws)"
proof -
  have e: "state_io_rel (chunk_evolve c) (exec_returning g)"
    if "\<And>t d. campaign_recipients (snd (g t d)) = campaign_recipients d"
      "\<And>t d. list_all2 campaign_step (campaigns d) (campaigns (snd (g t d)))"
    for g :: "int \<Rightarrow> pg \<Rightarrow> (goerr + 'a) \<times> pg"
    using that by (auto simp: state_io_rel_def exec_returning_def call_def Let_def chunk_evolve_def list.rel_refl
        campaign_step_refl recipient_step_def case_prod_beta split: fault.split)
  show "state_io_rel (chunk_evolve c) (IncrementCampaignCounts i ws s n)"
    unfolding IncrementCampaignCounts_def
    by (rule e) (auto simp: increment_counts_def Let_def campaign_step_def split: option.split
        intro!: list_all2_update_where)
  show "state_io_rel (chunk_evolve c) (MarkCampaignComplete i ws)"
    unfolding MarkCampaignComplete_def
    by (rule e) (auto simp: complete_campaign_def completable_def campaign_step_def intro!: list_all2_update_where)
qed

lemma guar_case_outcome:
  "state_io_rel R a \<Longrightarrow> state_io_rel R b \<Longrightarrow> state_io_rel R c \<Longrightarrow> (\<And>r. state_io_rel R (d r)) \<Longrightarrow>
   state_io_rel R (case v of OSent \<Rightarrow> a | ODuplicate \<Rightarrow> b | OPermanent \<Rightarrow> c | OTransient r \<Rightarrow> d r)"
  by (cases v) auto

lemma evolve_processRecipient:
  assumes "r \<in> set (cc_Recipients c)"
  shows "state_io_rel (chunk_evolve c) (processRecipient h c r rd)"
proof -
  have i: "ccr_RecipientID r \<in> set (map ccr_RecipientID (cc_Recipients c))" using assms by simp
  show ?thesis
    unfolding processRecipient_def
    by (intro chunk_guar.guar_rules evolve_recipient_exec i; intro evolve_db_same frame; simp)
qed

lemma evolve_chunk_loop:
  "set rs \<subseteq> set (cc_Recipients c) \<Longrightarrow> state_io_rel (chunk_evolve c) (chunk_loop h c rd rs res tr)"
proof (induction rs arbitrary: res tr)
  case Nil
  show ?case unfolding chunk_loop.simps by (rule chunk_guar.guar_return)
next
  case (Cons r rs)
  then have "set rs \<subseteq> set (cc_Recipients c)" "r \<in> set (cc_Recipients c)" by auto
  then show ?case unfolding chunk_loop.simps
    by (intro chunk_guar.guar_rules guar_case_outcome Cons.IH evolve_processRecipient; simp?)
      (intro evolve_db_same frame; simp)
qed

lemma evolve_fail_recipients:
  "set rs \<subseteq> set (cc_Recipients c) \<Longrightarrow> state_io_rel (chunk_evolve c) (fail_recipients c a b rs n)"
proof (induction rs arbitrary: n)
  case Nil
  show ?case unfolding fail_recipients.simps by (rule chunk_guar.guar_return)
next
  case (Cons r rs)
  then have s: "set rs \<subseteq> set (cc_Recipients c)" "ccr_RecipientID r \<in> set (map ccr_RecipientID (cc_Recipients c))" by auto
  then show ?case unfolding fail_recipients.simps
    by (intro chunk_guar.guar_rules Cons.IH evolve_recipient_exec s; intro evolve_db_same frame; simp)
qed

lemma evolve_count_failed: "state_io_rel (chunk_evolve c) (count_failed c n)"
  unfolding count_failed_def by (intro chunk_guar.guar_rules evolve_counts)

lemma evolve_apply_progress: "state_io_rel (chunk_evolve c) (apply_progress c res)"
  unfolding apply_progress_def
  by (intro chunk_guar.guar_rules evolve_counts; intro evolve_db_same frame; simp)

lemma evolve_chunk_disposition:
  "set tr \<subseteq> set (cc_Recipients c) \<Longrightarrow> state_io_rel (chunk_evolve c) (chunk_disposition c n res tr)"
  unfolding chunk_disposition_def
  by (intro chunk_guar.guar_rules evolve_fail_recipients evolve_count_failed; simp?)
    (intro evolve_db_same frame; simp)+

lemma chunk_loop_transient: "wp (chunk_loop h c rd rs res tr) (\<lambda>x _. set (snd x) \<subseteq> set tr \<union> set rs) w"
proof (induction rs arbitrary: res tr w)
  case Nil
  show ?case by (simp add: wp_return)
next
  case (Cons r rs)
  have step: "set tr' \<subseteq> insert r (set tr) \<Longrightarrow>
    wp (chunk_loop h c rd rs res' tr') (\<lambda>x _. set (snd x) \<subseteq> set tr \<union> set (r # rs)) w'" for res' tr' w'
    by (rule wp_mono [OF Cons.IH]) auto
  show ?case
    unfolding chunk_loop.simps
  proof (rule wp_any, goal_cases)
    case (1 stop w1)
    show ?case
    proof (cases stop)
      case True
      then show ?thesis unfolding if_P [OF True] by (intro step) auto
    next
      case False
      show ?thesis
        unfolding if_not_P [OF False]
      proof (rule wp_any, goal_cases)
        case (1 out w2)
        show ?case by (cases out) (simp_all only: recipientOutcome.case, (rule step; auto)+)
      qed
    qed
  qed
qed

lemma evolve_Handle_chunk:
  assumes "Data m = Some c"
  shows "state_io_rel (chunk_evolve c) (Handle_chunk h m)"
proof -
  have tail: "state_io_rel (chunk_evolve c) (case x of (res, tr) \<Rightarrow> do {
      progress \<leftarrow> apply_progress c res;
      case progress of None \<Rightarrow> finish Nak | Some _ \<Rightarrow> chunk_disposition c (attempt_of m) res tr })"
    if "set (snd x) \<subseteq> set (cc_Recipients c)" for x
  proof (cases x)
    case (Pair res tr)
    then show ?thesis
      using that unfolding Pair prod.case
      by (intro chunk_guar.guar_rules evolve_apply_progress evolve_chunk_disposition; simp?)
        (intro evolve_db_same frame; simp)
  qed
  have loop: "state_io_rel (chunk_evolve c) (State_Monad.bind (chunk_loop h c rd (cc_Recipients c) chunkResult0 [])
      (\<lambda>x. case x of (res, tr) \<Rightarrow> do {
        progress \<leftarrow> apply_progress c res;
        case progress of None \<Rightarrow> finish Nak | Some _ \<Rightarrow> chunk_disposition c (attempt_of m) res tr }))" for rd
    by (rule chunk_guar.guar_bind_wp [OF evolve_chunk_loop [OF subset_refl] _ tail])
      (rule wp_mono [OF chunk_loop_transient], simp_all)
  have fa: "state_io_rel (chunk_evolve c) (failAllRecipients c x)" for x
    unfolding failAllRecipients_def
    by (intro chunk_guar.guar_rules evolve_fail_recipients evolve_count_failed subset_refl)
  show ?thesis
    unfolding Handle_chunk_def assms option.case
    by (intro chunk_guar.guar_if chunk_guar.guar_case_sum loop)
      ((intro chunk_guar.guar_bind fa)?; intro evolve_db_same frame; simp)+
qed

section \<open>Properties\<close>

definition two_chunk :: CampaignChunkPayload where
  "two_chunk = \<lparr>cc_CampaignID = ''c'', cc_WorkspaceID = ''w'', cc_ChunkID = ''k'',
    cc_Sender = \<lparr>addr_Email = ''s'', addr_Name = ''''\<rparr>, cc_ReplyTo = '''', cc_Subject = ''x'',
    cc_HTML = '''', cc_Text = ''t'',
    cc_Recipients = [\<lparr>ccr_RecipientID = ''a'', ccr_Email = ''a'', ccr_Name = ''''\<rparr>,
                     \<lparr>ccr_RecipientID = ''b'', ccr_Email = ''b'', ccr_Name = ''''\<rparr>]\<rparr>"

definition two_world :: "(nat \<Rightarrow> ses_message \<Rightarrow> goerr + string option) \<Rightarrow> (nat \<Rightarrow> fault) \<Rightarrow> world" where
  "two_world api f = quiet_world\<lparr>env := quiet_env\<lparr>ses_api := api, fault := f\<rparr>, db := empty_pg\<lparr>
   campaigns := [\<lparr>cp_id = ''c'', cp_workspace_id = ''w'', cp_status = ''sending'', cp_total_recipients = 2,
     cp_sent_count = 0, cp_failed_count = 0, cp_started_at = Some 0, cp_completed_at = None, cp_failure_reason = None,
     cp_scheduled_at = None, cp_deleted_at = None, cp_segment_id = None, cp_sender_email = None, cp_sender_name = None,
     cp_reply_to = None, cp_subject = None, cp_html_body = None, cp_text_body = None, cp_updated_at = 0\<rparr>],
   campaign_recipients := map (\<lambda>i. \<lparr>cr_id = i, cr_campaign_id = ''c'', cr_workspace_id = ''w'', cr_contact_id = i,
     cr_email = i, cr_name = None, cr_status = ''queued'', cr_provider_message_id = None, cr_failure_reason = None,
     cr_sent_at = None, cr_created_at = 0, cr_updated_at = 0\<rparr>) [''a'', ''b'']\<rparr>\<rparr>"

abbreviation two_handler :: EmailHandler where
  "two_handler \<equiv> NewHandler (NewTokenBucket 14)"

text \<open>
  Claim C5. The books of a chunk balance. Without infrastructure faults, after any number of
  deliveries of a chunk, whatever SES answered and wherever the context was cancelled, the number of
  mails SES accepted, the number of recipient rows that became \<^verbatim>\<open>sent\<close> and the growth of the
  campaign's \<^verbatim>\<open>sent_count\<close> are the same; in particular no recipient gets a second mail.
\<close>

theorem chunk_books_balance:
  assumes "reliable (env w)" and "\<forall>m \<in> set ms. Data m = Some chunk"
    and "distinct (map ccr_RecipientID (cc_Recipients chunk))"
    and "rows_present chunk w" and "campaign_sent chunk w = Some k"
  shows "in_step chunk w (fold (deliver_chunk h) ms w)"
  using assms by (rule chunk_books)

lemma chunk_books_balance_witness:
  "in_step two_chunk (two_world (\<lambda>_ _. Inr None) (\<lambda>_. NoFault))
    (fold (deliver_chunk two_handler)
      [\<lparr>Data = Some two_chunk, NumDelivered = Some 1\<rparr>, \<lparr>Data = Some two_chunk, NumDelivered = Some 2\<rparr>]
      (two_world (\<lambda>_ _. Inr None) (\<lambda>_. NoFault)))"
proof (rule chunk_books_balance)
  show "reliable (env (two_world (\<lambda>_ _. Inr None) (\<lambda>_. NoFault)))"
    by (simp add: two_world_def reliable_def)
  show "rows_present two_chunk (two_world (\<lambda>_ _. Inr None) (\<lambda>_. NoFault))"
    by (simp add: rows_present_def rstat_def recipient_status_def two_world_def two_chunk_def this_recipient_def)
  show "campaign_sent two_chunk (two_world (\<lambda>_ _. Inr None) (\<lambda>_. NoFault)) = Some 0"
    by (simp add: campaign_sent_def find_campaign_def this_campaign_def two_world_def two_chunk_def)
qed (simp_all add: two_chunk_def)

text \<open>
  Claim C7. In every environment, faults included, handling a chunk moves rows forward only: a recipient
  outside the chunk and a bounced one keep their row, \<^verbatim>\<open>sent\<close> is never taken back, the counters
  never go down, and a campaign is completed at most once and only when its counts cover its total.
\<close>

theorem chunk_rows_forward:
  assumes "Data m = Some chunk"
  shows "chunk_evolve chunk w (snd (run_state (Handle_chunk h m) w))"
  using evolve_Handle_chunk [OF assms, of h] by (simp add: state_io_rel_def)

lemma chunk_rows_forward_witness:
  "chunk_evolve two_chunk (two_world (\<lambda>_ _. Inr None) (\<lambda>_. FailBefore ContextError))
    (snd (run_state (Handle_chunk two_handler \<lparr>Data = Some two_chunk, NumDelivered = Some 6\<rparr>)
      (two_world (\<lambda>_ _. Inr None) (\<lambda>_. FailBefore ContextError))))"
  by (rule chunk_rows_forward) simp

text \<open>The status and counts of the campaigns, the recipients' statuses, and what became of the deliveries.\<close>

definition chunk_summary :: "world \<Rightarrow> (string \<times> int \<times> int) list \<times> string list \<times> disposition list" where
  "chunk_summary w = (map (\<lambda>r. (cp_status r, cp_sent_count r, cp_failed_count r)) (campaigns (db w)),
     map cr_status (campaign_recipients (db w)), settled w)"

text \<open>The database fails once, when the counts of the first delivery are added.\<close>

definition lost_count :: world where
  "lost_count = fold (deliver_chunk two_handler)
     [\<lparr>Data = Some two_chunk, NumDelivered = Some 1\<rparr>, \<lparr>Data = Some two_chunk, NumDelivered = Some 2\<rparr>]
     (two_world (\<lambda>_ _. Inr None) (\<lambda>k. if k = 14 then FailBefore (Err ''deadlock'') else NoFault))"

text \<open>
  A failed counter update loses the counts: when adding the counts of a chunk fails once, the
  chunk is negatively acknowledged so as to retry, but the redelivery finds every recipient already
  sent and acknowledges with nothing to count, so the campaign never completes.
\<close>

theorem chunk_lost_count:
  "chunk_summary lost_count = ([(''sending'', 0, 0)], [''sent'', ''sent''], [Nak, Ack])"
  by code_simp

end
