(* ===== verification/Keyset.thy ===== *)
theory Keyset
  imports PgDelivery
begin

text \<open>
  Keyset pagination, the interface behind \<^verbatim>\<open>FetchSegmentContactsBatch\<close> and
  \<^verbatim>\<open>StreamContactsForEval\<close>: a page is the first rows after a key in key order. The locale states
  what the SQL promises, and proves once what the loops that page through it need: the next page
  starts where the last one ended, and every page makes progress.
\<close>

locale keyset_source =
  fixes fetch :: "string \<Rightarrow> nat \<Rightarrow> 'r list"
    and key :: "'r \<Rightarrow> string"
    and all :: "'r list"
  assumes sorted_all: "sorted (map key all)"
    and fetch_law: "fetch a n = take n (filter (\<lambda>r. after_key a (key r)) all)"
    and key_nonempty: "key r \<noteq> ''''"
begin

lemma fetch_first: "fetch '''' n = take n all"
  by (simp add: fetch_law after_key_def)

lemma fetch_next:
  assumes "distinct (map key all)" and "all = pre @ rest" and "pre \<noteq> []"
  shows "fetch (key (last pre)) n = take n rest"
proof -
  have l: "last pre \<in> set pre" using assms(3) by simp
  have "filter (\<lambda>r. after_key (key (last pre)) (key r)) rest = rest"
  proof (rule filter_True, rule ballI)
    fix r assume r: "r \<in> set rest"
    have "key (last pre) \<le> key r" using sorted_all assms(2) l r by (simp add: sorted_append)
    moreover have "key (last pre) \<in> key ` set pre" using l by simp
    then have "key (last pre) \<noteq> key r" using assms(1,2) r by (auto simp: image_iff)
    ultimately show "after_key (key (last pre)) (key r)" by (simp add: after_key_def order_less_le)
  qed
  moreover have "filter (\<lambda>r. after_key (key (last pre)) (key r)) pre = []"
  proof (rule filter_False, rule ballI)
    fix r assume r: "r \<in> set pre"
    have "pre = butlast pre @ [last pre]" using assms(3) by simp
    then have "r = last pre \<or> r \<in> set (butlast pre)" using r by (metis in_set_butlast_appendI list.set_intros(1)
          Un_iff empty_iff empty_set set_ConsD set_append)
    moreover have "sorted (map key (butlast pre @ [last pre]))"
      using sorted_all assms(2,3) by (simp add: sorted_append)
    ultimately have "key r \<le> key (last pre)" by (auto simp: sorted_append)
    then show "\<not> after_key (key (last pre)) (key r)" using key_nonempty by (auto simp: after_key_def)
  qed
  ultimately show ?thesis by (simp add: fetch_law assms(2))
qed

lemma fetch_progress:
  assumes "fetch a n \<noteq> []"
  shows "length (filter (\<lambda>r. after_key (key (last (fetch a n))) (key r)) all)
    < length (filter (\<lambda>r. after_key a (key r)) all)"
proof -
  let ?l = "last (fetch a n)"
  have "?l \<in> set (fetch a n)" using assms by simp
  then have l: "?l \<in> set all" "after_key a (key ?l)" by (auto simp: fetch_law dest!: in_set_takeD)
  have imp: "after_key a (key r)" if "after_key (key ?l) (key r)" for r
    using that l(2) key_nonempty by (auto simp: after_key_def)
  have "filter (\<lambda>r. after_key (key ?l) (key r)) all
      = filter (\<lambda>r. after_key (key ?l) (key r)) (filter (\<lambda>r. after_key a (key r)) all)"
    using imp by (induction all) auto
  moreover have "length (filter (\<lambda>r. after_key (key ?l) (key r)) (filter (\<lambda>r. after_key a (key r)) all))
      < length (filter (\<lambda>r. after_key a (key r)) all)"
    by (rule length_filter_less [of ?l]) (use l key_nonempty in \<open>auto simp: after_key_def\<close>)
  ultimately show ?thesis by simp
qed

end

text \<open>A paging loop hands on the list of all rows in pieces of the page size.\<close>

function chunks :: "nat \<Rightarrow> 'a list \<Rightarrow> 'a list list" where
  "chunks n xs = (if n = 0 \<or> xs = [] then [] else take n xs # chunks n (drop n xs))"
  by pat_completeness auto
termination by (relation "measure (\<lambda>(n, xs). length xs)") auto

declare chunks.simps [simp del]

lemma chunks_Nil [simp]: "chunks n [] = []"
  by (simp add: chunks.simps)

lemma chunks_step: "0 < n \<Longrightarrow> xs \<noteq> [] \<Longrightarrow> chunks n xs = take n xs # chunks n (drop n xs)"
  by (simp add: chunks.simps)

lemma concat_chunks: "0 < n \<Longrightarrow> concat (chunks n xs) = xs"
  by (induction n xs rule: chunks.induct) (subst chunks.simps, auto)

lemma chunks_sizes: "c \<in> set (chunks n xs) \<Longrightarrow> c \<noteq> [] \<and> length c \<le> n"
proof (induction n xs rule: chunks.induct)
  case (1 n xs)
  then show ?case by (subst (asm) (2) chunks.simps) (auto split: if_splits)
qed

lemma map_chunks: "chunks n (map f xs) = map (map f) (chunks n xs)"
proof (induction n xs rule: chunks.induct)
  case (1 n xs)
  then show ?case
    by (cases "n = 0 \<or> xs = []") (simp_all add: chunks.simps [of n "map f xs"] chunks.simps [of n xs] take_map drop_map)
qed

section \<open>The segment-resolved stream\<close>

definition segment_contacts :: "string \<Rightarrow> string \<Rightarrow> pg \<Rightarrow> contact_row list" where
  "segment_contacts workspaceID segmentID d = sort_key id_text (filter (eligible workspaceID segmentID d) (contacts d))"

interpretation segment_keys: keyset_source
  "\<lambda>a n. segment_page workspaceID segmentID a n d" id_text "segment_contacts workspaceID segmentID d"
proof
  show "sorted (map id_text (segment_contacts workspaceID segmentID d))"
    by (simp add: segment_contacts_def)
  show "segment_page workspaceID segmentID a n d =
      take n (filter (\<lambda>r. after_key a (id_text r)) (segment_contacts workspaceID segmentID d))" for a n
    by (simp add: segment_page_def segment_contacts_def filter_sort conj_commute)
  show "id_text r \<noteq> ''''" for r
    by (simp add: id_text_def)
qed

end
