(* ===== verification/CampaignStart.thy ===== *)
theory CampaignStart
  imports CampaignChunk Keyset
begin

text \<open>
  The campaign start worker and the campaign scheduler: \<^verbatim>\<open>internal/worker/email/batcher.go\<close> and
  \<^verbatim>\<open>internal/worker/email/campaign_scheduler.go\<close>. The batcher pages through the segment
  (\<open>StreamAndChunk_loop\<close>), stores the recipients and publishes one chunk job per page.
\<close>

section \<open>The batcher\<close>

abbreviation SubjectCampaignStart :: string where "SubjectCampaignStart \<equiv> ''campaign.send.start''"
abbreviation SubjectCampaignChunk :: string where "SubjectCampaignChunk \<equiv> ''campaign.send.chunk''"

text \<open>\<open>NewBatcher\<close>: the chunk size it keeps.\<close>

definition batcher_chunk_size :: "int \<Rightarrow> nat" where
  "batcher_chunk_size chunkSize = (if chunkSize < 1 then 500 else nat chunkSize)"

definition chunk_id :: "string \<Rightarrow> nat \<Rightarrow> string" where
  "chunk_id campaignID i = campaignID @ ''-chunk-'' @ show_nat i"

definition chunk_payload :: "CampaignStartPayload \<Rightarrow> nat \<Rightarrow> CampaignRecipientRow list \<Rightarrow> CampaignChunkPayload" where
  "chunk_payload p i recipients = \<lparr>cc_CampaignID = cs_CampaignID p, cc_WorkspaceID = cs_WorkspaceID p,
     cc_ChunkID = chunk_id (cs_CampaignID p) i, cc_Sender = cs_Sender p, cc_ReplyTo = cs_ReplyTo p,
     cc_Subject = cs_Subject p, cc_HTML = cs_HTML p, cc_Text = cs_Text p,
     cc_Recipients = map (\<lambda>r. \<lparr>ccr_RecipientID = r_ID r, ccr_Email = r_Email r, ccr_Name = r_Name r\<rparr>) recipients\<rparr>"

definition publish_chunk ::
    "CampaignStartPayload \<Rightarrow> nat \<Rightarrow> CampaignRecipientRow list \<Rightarrow> (world, goerr + unit) state" where
  "publish_chunk p i recipients = do {
     inc_by ''campaign_recipients_resolved_total'' (length recipients);
     x \<leftarrow> Publish SubjectCampaignChunk (PCampaignChunk (chunk_payload p i recipients))
            (chunk_id (cs_CampaignID p) i);
     case x of
       Inl e \<Rightarrow> State_Monad.return (Inl (Wrap (''publish chunk '' @ show_nat i) e))
     | Inr _ \<Rightarrow> do { inc ''campaign_chunks_created_total''; State_Monad.return (Inr ()) }
   }"

text \<open>What remains to be streamed after a key, in the database of a world.\<close>

definition unseen :: "CampaignStartPayload \<Rightarrow> string \<Rightarrow> pg \<Rightarrow> contact_row list" where
  "unseen p afterID d =
     filter (\<lambda>r. after_key afterID (id_text r)) (segment_contacts (cs_WorkspaceID p) (cs_SegmentID p) d)"

lemma scan_contacts_ids:
  "scan_contacts rows = Inr cs \<Longrightarrow> map c_ID cs = map id_text rows"
  by (induction rows arbitrary: cs) (auto split: option.splits sum.splits)

lemma segment_contacts_cong:
  "contacts d' = contacts d \<Longrightarrow> segment_memberships d' = segment_memberships d \<Longrightarrow>
   segment_contacts ws seg d' = segment_contacts ws seg d"
  unfolding segment_contacts_def
  by (rule arg_cong [where f = "sort_key id_text"], rule filter_cong) (simp_all add: eligible_def)

definition people :: "world \<Rightarrow> contact_row list \<times> membership_row list" where
  "people w = (contacts (db w), segment_memberships (db w))"

lemma steady_people [simp]: "steady people"
  by (simp add: steady_def people_def)

lemma people_frame [frame]:
  "preserves people (BulkInsertCampaignRecipients a b cts)" "preserves people (publish_chunk p i rs)"
  unfolding BulkInsertCampaignRecipients_def publish_chunk_def
  by (intro frame; simp add: people_def)+

lemma Fetch_rows:
  assumes "run_state (FetchSegmentContactsBatch ws seg after n) w = (Inr cs, w1)"
  shows "people w1 = people w \<and> map c_ID cs = map id_text (segment_page ws seg after n (db w))"
proof -
  have "people (snd (run_state (FetchSegmentContactsBatch ws seg after n) w)) = people w"
    by (rule preservesD) (rule frame, simp)
  moreover have "scan_contacts (segment_page ws seg after n (db w)) = Inr cs"
    using assms by (auto simp: FetchSegmentContactsBatch_def query_def call_def Let_def
        split: fault.splits prod.splits sum.splits)
  ultimately show ?thesis using assms scan_contacts_ids by simp
qed

lemma batch_progress:
  assumes "run_state (FetchSegmentContactsBatch (cs_WorkspaceID p) (cs_SegmentID p) afterID n) w = (Inr cs, w1)"
    and "cs \<noteq> []" and "people w0 = people w" and "people w2 = people w1"
  shows "length (unseen p (c_ID (last cs)) (db w2)) < length (unseen p afterID (db w0))"
proof -
  let ?d = "db w"
  have ids: "map c_ID cs = map id_text (segment_page (cs_WorkspaceID p) (cs_SegmentID p) afterID n ?d)"
    and pe: "people w1 = people w"
    using Fetch_rows [OF assms(1)] by simp_all
  have ne: "segment_page (cs_WorkspaceID p) (cs_SegmentID p) afterID n ?d \<noteq> []"
    using ids assms(2) by auto
  have "c_ID (last cs) = id_text (last (segment_page (cs_WorkspaceID p) (cs_SegmentID p) afterID n ?d))"
    using ids assms(2) ne by (metis last_map)
  then have "length (unseen p (c_ID (last cs)) ?d) < length (unseen p afterID ?d)"
    using segment_keys.fetch_progress [OF ne] by (simp add: unseen_def)
  moreover have "unseen p k (db w2) = unseen p k ?d" "unseen p k (db w0) = unseen p k ?d" for k
    using assms(3,4) pe segment_contacts_cong [of "db w2" ?d] segment_contacts_cong [of "db w0" ?d]
    by (simp_all add: unseen_def people_def)
  ultimately show ?thesis by simp
qed

lemma people_state:
  "run_state (BulkInsertCampaignRecipients a b cts) w = (x, w1) \<Longrightarrow> people w1 = people w"
  "run_state (publish_chunk p i rs) w = (y, w1) \<Longrightarrow> people w1 = people w"
  "run_state ctx_err w = (z, w1) \<Longrightarrow> people w1 = people w"
  using preservesD [OF people_frame(1), of a b cts w] preservesD [OF people_frame(2), of p i rs w]
    preservesD [OF preserves_ctx_err [OF steady_people], of w]
  by simp_all

function StreamAndChunk_loop ::
    "nat \<Rightarrow> CampaignStartPayload \<Rightarrow> string \<Rightarrow> nat \<Rightarrow> nat \<Rightarrow> world \<Rightarrow> (nat \<times> nat \<times> goerr option) \<times> world" where
  "StreamAndChunk_loop sz p afterID tot idx w =
     (case run_state ctx_err w of (stop, w0) \<Rightarrow>
        if stop then ((tot, idx, Some ContextError), w0)
        else
          (case run_state (FetchSegmentContactsBatch (cs_WorkspaceID p) (cs_SegmentID p) afterID sz) w0 of
             (Inl e, w1) \<Rightarrow> ((tot, idx, Some (Wrap ''fetch contacts'' e)), w1)
           | (Inr cs, w1) \<Rightarrow>
               if cs = [] then ((tot, idx, None), w1)
               else
                 (case run_state (BulkInsertCampaignRecipients (cs_CampaignID p) (cs_WorkspaceID p) cs) w1 of
                    (Inl e, w2) \<Rightarrow>
                      ((tot, idx, Some (Wrap (''insert recipients (chunk '' @ show_nat idx @ '')'') e)), w2)
                  | (Inr recipients, w2) \<Rightarrow>
                      (case run_state (publish_chunk p idx recipients) w2 of
                         (Inl e, w3) \<Rightarrow> ((tot, idx, Some e), w3)
                       | (Inr _, w3) \<Rightarrow>
                           if length cs < sz
                           then ((tot + length recipients, Suc idx, None), w3)
                           else StreamAndChunk_loop sz p (c_ID (last cs)) (tot + length recipients) (Suc idx) w3))))"
  by pat_completeness auto
termination
proof (relation "measure (\<lambda>(sz, p, afterID, tot, idx, w). length (unseen p afterID (db w)))", goal_cases)
  case 1
  show ?case by simp
next
  case (2 sz p afterID tot idx w stop w0 r1 w1 cs r2 w2 rcps r3 w3 u)
  have "people w0 = people w" using people_state(3) [OF 2(1) [symmetric]] .
  moreover have "people w3 = people w1" using people_state(1) [OF 2(6) [symmetric]] people_state(2) [OF 2(8) [symmetric]] by simp
  ultimately show ?case using batch_progress [of p afterID sz w0 cs w1 w w3] 2 by simp
qed

declare StreamAndChunk_loop.simps [simp del]

definition StreamAndChunk :: "nat \<Rightarrow> CampaignStartPayload \<Rightarrow> (world, nat \<times> nat \<times> goerr option) state" where
  "StreamAndChunk sz p = State (StreamAndChunk_loop sz p '''' 0 0)"

section \<open>The start handler\<close>

datatype invalid_start = StartMissingIDs | StartEmptySender | StartEmptySubject | StartEmptyBody

definition validateCampaignStart :: "CampaignStartPayload \<Rightarrow> invalid_start option" where
  "validateCampaignStart p =
     (if cs_JobID p = '''' \<or> cs_WorkspaceID p = '''' \<or> cs_CampaignID p = '''' \<or> cs_SegmentID p = ''''
      then Some StartMissingIDs
      else if addr_Email (cs_Sender p) = '''' then Some StartEmptySender
      else if cs_Subject p = '''' then Some StartEmptySubject
      else if cs_HTML p = '''' \<and> cs_Text p = '''' then Some StartEmptyBody
      else None)"

definition Handle_start :: "nat \<Rightarrow> CampaignStartPayload message \<Rightarrow> (world, hresult) state" where
  "Handle_start chunkSize msg = do {
     inc ''campaign_processed_total'';
     case Data msg of
       None \<Rightarrow> finish Term
     | Some p \<Rightarrow>
         if validateCampaignStart p \<noteq> None then finish Term else do {
           st \<leftarrow> GetCampaignStatus (cs_CampaignID p) (cs_WorkspaceID p);
           case st of
             Inl e \<Rightarrow> finish Nak
           | Inr status \<Rightarrow>
               if status = ''completed'' \<or> status = ''failed'' then finish Ack else do {
                 (tot, nchunks, err) \<leftarrow> StreamAndChunk chunkSize p;
                 case err of
                   Some e \<Rightarrow> finish Nak
                 | None \<Rightarrow>
                     if tot = 0 then do {
                       r \<leftarrow> MarkCampaignCompleteEmpty (cs_CampaignID p) (cs_WorkspaceID p);
                       case r of
                         Inl e \<Rightarrow> finish Nak
                       | Inr _ \<Rightarrow> do { inc ''campaign_completed_total''; finish Ack }
                     } else do {
                       r \<leftarrow> UpdateCampaignStarted (cs_CampaignID p) (cs_WorkspaceID p) tot;
                       case r of
                         Inl e \<Rightarrow> finish Nak
                       | Inr _ \<Rightarrow> finish Ack
                     }
               }
         }
   }"

section \<open>The scheduler\<close>

definition campaignSchedulerBatch :: nat where
  "campaignSchedulerBatch = 20"

definition start_payload :: "string \<Rightarrow> DueCampaign \<Rightarrow> CampaignStartPayload" where
  "start_payload jobID c = \<lparr>cs_JobID = jobID, cs_WorkspaceID = du_WorkspaceID c, cs_CampaignID = du_ID c,
     cs_SegmentID = du_SegmentID c, cs_Sender = \<lparr>addr_Email = du_SenderEmail c, addr_Name = du_SenderName c\<rparr>,
     cs_ReplyTo = du_ReplyTo c, cs_Subject = du_Subject c, cs_HTML = du_HTMLBody c, cs_Text = du_TextBody c\<rparr>"

definition fire :: "DueCampaign \<Rightarrow> (world, unit) state" where
  "fire c = do {
     jobID \<leftarrow> new_uuid;
     _ \<leftarrow> Publish SubjectCampaignStart (PCampaignStart (start_payload jobID c)) jobID;
     State_Monad.return ()
   }"

fun fire_all :: "DueCampaign list \<Rightarrow> (world, unit) state" where
  "fire_all [] = State_Monad.return ()"
| "fire_all (c # cs) = do { fire c; fire_all cs }"

definition poll_campaigns :: "(world, unit) state" where
  "poll_campaigns = do {
     r \<leftarrow> GetDueCampaigns campaignSchedulerBatch;
     case r of
       Inl e \<Rightarrow> State_Monad.return ()
     | Inr cs \<Rightarrow> fire_all cs
   }"

section \<open>The message contract\<close>

lemma publish_chunk_frame [frame]:
  "steady f \<Longrightarrow> (\<And>w p. f (w\<lparr>published := p\<rparr>) = f w) \<Longrightarrow> preserves f (publish_chunk p i rs)"
  unfolding publish_chunk_def by (intro frame)

lemma StreamAndChunk_loop_frame:
  assumes "steady f" and "\<And>w p. f (w\<lparr>published := p\<rparr>) = f w" and "\<And>w d. f (w\<lparr>db := d\<rparr>) = f w"
  shows "f (snd (StreamAndChunk_loop sz p a t i w)) = f w"
proof (induction sz p a t i w rule: StreamAndChunk_loop.induct)
  case (1 sz p a t i w)
  have b: "f w1 = f w0" if "run_state (BulkInsertCampaignRecipients x y z) w0 = (r, w1)" for x y z w0 w1 r
    using preservesD [OF pg_delivery_frame(14) [of f x y z], of w0] assms that by simp
  have c: "f w1 = f w0" if "run_state (publish_chunk x y z) w0 = (r, w1)" for x y z w0 w1 r
    using preservesD [OF publish_chunk_frame [of f x y z], of w0] assms that by simp
  have d: "f w1 = f w0" if "run_state (FetchSegmentContactsBatch x y z n) w0 = (r, w1)" for x y z n w0 w1 r
    using preservesD [OF pg_delivery_reads(4) [of f x y z n], of w0] assms that by simp
  have e: "f w1 = f w0" if "run_state ctx_err w0 = (r, w1)" for w0 w1 r
    using preservesD [OF preserves_ctx_err [of f], of w0] assms that by simp
  show ?case
    by (subst StreamAndChunk_loop.simps)
      (auto split: prod.split sum.split dest!: b c d e simp: 1)
qed

lemma StreamAndChunk_frame [frame]:
  assumes "steady f" and "\<And>w p. f (w\<lparr>published := p\<rparr>) = f w" and "\<And>w d. f (w\<lparr>db := d\<rparr>) = f w"
  shows "preserves f (StreamAndChunk sz p)"
  using assms by (simp add: preserves_def StreamAndChunk_def StreamAndChunk_loop_frame)

lemma Handle_start_settles: "settles_once (Handle_start n m)"
  unfolding Handle_start_def by (intro settle_rules frame; simp)

interpretation start: total_handler "Handle_start n"
  by (rule total_handlerI) (rule Handle_start_settles)
section \<open>Coverage\<close>

text \<open>
  What identifies a recipient row, and the row a recipient of a chunk stands for: the row of its
  contact in its campaign.
\<close>

definition row_key :: "recipient_row \<Rightarrow> string \<times> string \<times> string \<times> string \<times> string" where
  "row_key r = (cr_id r, cr_campaign_id r, cr_contact_id r, cr_email r, coalesce (cr_name r) '''')"

definition stands_for ::
    "CampaignStartPayload \<Rightarrow> recipient_row list \<Rightarrow> Contact \<Rightarrow> CampaignRecipientRow \<Rightarrow> bool" where
  "stands_for p rs ct row \<longleftrightarrow>
     (r_ID row, cs_CampaignID p, c_ID ct, r_Email row, r_Name row) \<in> row_key ` set rs"

definition rows_kept :: "recipient_row list \<Rightarrow> recipient_row list \<Rightarrow> bool" where
  "rows_kept rs rs' \<longleftrightarrow> row_key ` set rs \<subseteq> row_key ` set rs'"

lemma stands_for_mono: "rows_kept rs rs' \<Longrightarrow> stands_for p rs ct row \<Longrightarrow> stands_for p rs' ct row"
  by (auto simp: rows_kept_def stands_for_def)

lemma rows_kept_trans: "rows_kept a b \<Longrightarrow> rows_kept b c \<Longrightarrow> rows_kept a c"
  by (auto simp: rows_kept_def)

lemma upsert_recipient_row:
  assumes "upsert_recipient t i (cs_CampaignID p) ws ct rs = (row, rs')"
  shows "rows_kept rs rs' \<and> stands_for p rs' ct row"
proof (cases "find (\<lambda>r. cr_campaign_id r = cs_CampaignID p \<and> cr_contact_id r = c_ID ct) rs")
  case None
  with assms show ?thesis
    by (auto simp: upsert_recipient_def Let_def rows_kept_def stands_for_def row_key_def recipient_of_def)
next
  case (Some r)
  let ?f = "\<lambda>r. r\<lparr>cr_updated_at := t\<rparr>"
  let ?P = "\<lambda>r. cr_campaign_id r = cs_CampaignID p \<and> cr_contact_id r = c_ID ct"
  have k: "row_key (?f q) = row_key q" for q by (simp add: row_key_def)
  have im: "row_key ` set (update_where ?P ?f rs) = row_key ` set rs"
    by (induction rs) (simp_all add: k)
  have r: "r \<in> set rs" "?P r" using find_SomeD [OF Some] by simp_all
  have "row = recipient_of r" "rs' = update_where ?P ?f rs"
    using assms Some by (simp_all add: upsert_recipient_def Let_def)
  moreover have "row_key r \<in> row_key ` set rs" using r by simp
  ultimately show ?thesis
    using r im by (simp add: rows_kept_def stands_for_def recipient_of_def row_key_def)
qed

lemma insert_recipients_rows:
  assumes "reliable (env w)"
  shows "wp (insert_recipients (cs_CampaignID p) ws cts rs) (\<lambda>x w'. env w' = env w \<and>
    (\<exists>out rs'. x = Inr (out, rs') \<and> rows_kept rs rs' \<and> list_all2 (stands_for p rs') cts out)) w"
  using assms
proof (induction cts arbitrary: rs w)
  case Nil
  then show ?case by (simp add: wp_return rows_kept_def)
next
  case (Cons ct cts)
  let ?w1 = "step_clock (w\<lparr>uuid_next := Suc (uuid_next w)\<rparr>)"
  obtain row rs1 where u: "upsert_recipient (now ?w1) (uuids (env w) (uuid_next w)) (cs_CampaignID p) ws ct rs = (row, rs1)"
    by (metis surj_pair)
  have up: "rows_kept rs rs1" "stands_for p rs1 ct row" using upsert_recipient_row [OF u] by simp_all
  have "reliable (env ?w1)" using Cons.prems by simp
  from Cons.IH [OF this, of rs1]
  have "wp (insert_recipients (cs_CampaignID p) ws cts rs1) (\<lambda>x w'. env w' = env w \<and>
    (\<exists>out rs'. x = Inr (out, rs') \<and> rows_kept rs rs' \<and> stands_for p rs' ct row \<and> list_all2 (stands_for p rs') cts out)) ?w1"
    by (rule wp_mono) (auto intro: rows_kept_trans [OF up(1)] stands_for_mono [OF _ up(2)])
  then show ?case
    using Cons.prems u by (simp add: wp_rules) (elim wp_mono, auto simp: wp_rules)
qed

lemma Bulk_rows:
  assumes "reliable (env w)"
  shows "wp (BulkInsertCampaignRecipients (cs_CampaignID p) ws cts) (\<lambda>x w'. env w' = env w \<and>
    (\<exists>out. x = Inr out \<and> rows_kept (campaign_recipients (db w)) (campaign_recipients (db w')) \<and>
      list_all2 (stands_for p (campaign_recipients (db w'))) cts out)) w"
proof (cases "cts = []")
  case True
  then show ?thesis by (simp add: BulkInsertCampaignRecipients_def wp_rules rows_kept_def)
next
  case False
  have "reliable (env (step_clock w))" using assms by simp
  from insert_recipients_rows [OF this, of p ws cts "campaign_recipients (db w)"] False assms show ?thesis
    by (simp add: BulkInsertCampaignRecipients_def wp_rules) (elim wp_mono, auto simp: wp_rules)
qed

definition chunk_msg :: "CampaignStartPayload \<Rightarrow> nat \<Rightarrow> CampaignRecipientRow list \<Rightarrow> pubmsg" where
  "chunk_msg p i rows = \<lparr>pm_Subject = SubjectCampaignChunk, pm_Payload = PCampaignChunk (chunk_payload p i rows),
     pm_MsgID = chunk_id (cs_CampaignID p) i\<rparr>"

fun chunk_msgs :: "CampaignStartPayload \<Rightarrow> nat \<Rightarrow> CampaignRecipientRow list list \<Rightarrow> pubmsg list" where
  "chunk_msgs p i [] = []"
| "chunk_msgs p i (rows # rest) = chunk_msg p i rows # chunk_msgs p (Suc i) rest"

definition contact_of :: "contact_row \<Rightarrow> Contact" where
  "contact_of c = \<lparr>c_ID = id_text c, c_Email = the (ct_email c), c_Name = coalesce (ct_first_name c) ''''\<rparr>"

lemma scan_contacts_ok: "\<forall>c \<in> set rows. ct_email c \<noteq> None \<Longrightarrow> scan_contacts rows = Inr (map contact_of rows)"
  by (induction rows) (auto simp: contact_of_def)

text \<open>The recipients published for the contacts \<open>cts\<close>, from chunk \<open>i\<close> on.\<close>

definition covers :: "CampaignStartPayload \<Rightarrow> nat \<Rightarrow> nat \<Rightarrow> Contact list \<Rightarrow> world \<Rightarrow> world \<Rightarrow> bool" where
  "covers p sz i cts w w' \<longleftrightarrow> (\<exists>rows. published w' = published w @ chunk_msgs p i rows \<and>
     list_all2 (list_all2 (stands_for p (campaign_recipients (db w')))) (chunks sz cts) rows)"

lemma covers_Nil: "published w' = published w \<Longrightarrow> covers p sz i [] w w'"
  by (auto simp: covers_def intro!: exI [of _ "[]"])

lemma covers_step:
  assumes "0 < sz" and "cts \<noteq> []"
    and "published w1 = published w @ [chunk_msg p i rows]"
    and "list_all2 (stands_for p (campaign_recipients (db w1))) (take sz cts) rows"
    and "rows_kept (campaign_recipients (db w1)) (campaign_recipients (db w'))"
    and "covers p sz (Suc i) (drop sz cts) w1 w'"
  shows "covers p sz i cts w w'"
proof -
  obtain rest where r: "published w' = published w1 @ chunk_msgs p (Suc i) rest"
    "list_all2 (list_all2 (stands_for p (campaign_recipients (db w')))) (chunks sz (drop sz cts)) rest"
    using assms(6) by (auto simp: covers_def)
  have "list_all2 (stands_for p (campaign_recipients (db w'))) (take sz cts) rows"
    using assms(4) by (rule list_all2_mono) (rule stands_for_mono [OF assms(5)])
  with r assms(1-3) show ?thesis
    unfolding covers_def by (intro exI [of _ "rows # rest"]) (simp add: chunks_step)
qed

lemma Bulk_campaigns: "preserves (\<lambda>w. campaigns (db w)) (BulkInsertCampaignRecipients a b cts)"
  unfolding BulkInsertCampaignRecipients_def by (intro frame; simp)

lemma wp_publish_chunk:
  assumes "reliable (env w)"
  shows "wp (publish_chunk p i rows) (\<lambda>x w'. x = Inr () \<and> env w' = env w \<and> db w' = db w \<and>
    published w' = published w @ [chunk_msg p i rows]) w"
  using assms by (simp add: publish_chunk_def wp_rules Publish_def chunk_msg_def)

lemma loop_covers:
  assumes "reliable (env w)" and "\<forall>k. \<not> cancelled (env w) k" and "0 < sz"
    and "segment_contacts (cs_WorkspaceID p) (cs_SegmentID p) (db w) = pre @ rest"
    and "distinct (map id_text (pre @ rest))"
    and "after = (if pre = [] then '''' else id_text (last pre))"
    and "\<forall>c \<in> set rest. ct_email c \<noteq> None"
  shows "\<exists>w'. StreamAndChunk_loop sz p after tot i w =
      ((tot + length rest, i + length (chunks sz rest), None), w') \<and> env w' = env w \<and>
      campaigns (db w') = campaigns (db w) \<and>
      rows_kept (campaign_recipients (db w)) (campaign_recipients (db w')) \<and>
      covers p sz i (map contact_of rest) w w'"
  using assms
proof (induction "length rest" arbitrary: pre rest after tot i w rule: less_induct)
  case less
  let ?all = "segment_contacts (cs_WorkspaceID p) (cs_SegmentID p) (db w)"
  define w0 where "w0 = w\<lparr>tick := Suc (tick w)\<rparr>"
  define w1 where "w1 = step_clock w0"
  have c: "run_state ctx_err w = (False, w0)" using less.prems(2) by (simp add: ctx_err_def w0_def)
  have d1: "db w1 = db w" "env w1 = env w" "published w1 = published w" by (simp_all add: w1_def w0_def)
  have page: "segment_page (cs_WorkspaceID p) (cs_SegmentID p) after sz (db w) = take sz rest"
  proof (cases "pre = []")
    case True
    then show ?thesis using segment_keys.fetch_first less.prems(4,6) by simp
  next
    case False
    then show ?thesis
      using segment_keys.fetch_next [of "cs_WorkspaceID p" "cs_SegmentID p" "db w" pre rest sz] less.prems(4-6) by simp
  qed
  let ?cs = "map contact_of (take sz rest)"
  have f: "run_state (FetchSegmentContactsBatch (cs_WorkspaceID p) (cs_SegmentID p) after sz) w0 = (Inr ?cs, w1)"
    using less.prems(1,7) scan_contacts_ok [of "take sz rest"] page
    by (auto simp: FetchSegmentContactsBatch_def query_def call_def w1_def w0_def dest: in_set_takeD)
  show ?case
  proof (cases "rest = []")
    case True
    then show ?thesis
      using d1 by (simp add: StreamAndChunk_loop.simps c f covers_Nil rows_kept_def)
  next
    case False
    then have ne: "?cs \<noteq> []" using less.prems(3) by simp
    have "reliable (env w1)" using d1 less.prems(1) by simp
    from Bulk_rows [OF this, of p "cs_WorkspaceID p" ?cs] obtain out w2 where
      b: "run_state (BulkInsertCampaignRecipients (cs_CampaignID p) (cs_WorkspaceID p) ?cs) w1 = (Inr out, w2)"
      and b2: "env w2 = env w" "rows_kept (campaign_recipients (db w)) (campaign_recipients (db w2))"
        "list_all2 (stands_for p (campaign_recipients (db w2))) ?cs out"
      using d1 by (auto simp: wp_def) (metis prod.collapse)
    have keep: "people w2 = people w" "campaigns (db w2) = campaigns (db w)" "published w2 = published w"
      using people_state(1) [OF b] preservesD [OF Bulk_campaigns, of "cs_CampaignID p" "cs_WorkspaceID p" ?cs w1] b d1
        preservesD [OF pg_delivery_frame(14) [of published], of "cs_CampaignID p" "cs_WorkspaceID p" ?cs w1]
      by (simp_all add: people_def)
    have "reliable (env w2)" using b2(1) less.prems(1) by simp
    from wp_publish_chunk [OF this, of p i out] obtain w3 where
      q: "run_state (publish_chunk p i out) w2 = (Inr (), w3)"
      and q2: "env w3 = env w2" "db w3 = db w2" "published w3 = published w2 @ [chunk_msg p i out]"
      by (auto simp: wp_def) (metis prod.collapse)
    have lo: "length out = length (take sz rest)" using list_all2_lengthD [OF b2(3)] by simp
    have st: "list_all2 (stands_for p (campaign_recipients (db w3))) (take sz (map contact_of rest)) out"
      using b2(3) q2(2) by (simp add: take_map)
    show ?thesis
    proof (cases "length (take sz rest) < sz")
      case True
      then have t: "take sz rest = rest" by (simp add: not_less)
      have "covers p sz i (map contact_of rest) w w3"
        by (rule covers_step [OF less.prems(3) _ _ st])
          (use False t q2 keep(3) in \<open>auto simp: rows_kept_def intro!: covers_Nil\<close>)
      then show ?thesis
        using True t False lo q2 keep b2 less.prems(3) ne
        by (intro exI [of _ w3])
          (simp add: StreamAndChunk_loop.simps [of _ _ after] c f [unfolded t] b [unfolded t] q chunks_step)
    next
      case more: False
      have sc: "segment_contacts (cs_WorkspaceID p) (cs_SegmentID p) (db w3) = (pre @ take sz rest) @ drop sz rest"
        using segment_contacts_cong [of "db w3" "db w"] keep(1) q2(2) less.prems(4) by (simp add: people_def)
      have l: "c_ID (last ?cs) = id_text (last (pre @ take sz rest))"
        using ne by (simp add: last_map contact_of_def)
      have dr: "\<forall>c \<in> set (drop sz rest). ct_email c \<noteq> None"
        using less.prems(7) by (meson in_set_dropD)
      have "length (drop sz rest) < length rest" using False less.prems(3) by simp
      from less.hyps [OF this, of w3 "pre @ take sz rest" "c_ID (last ?cs)" "tot + length out" "Suc i"]
      obtain w' where r: "StreamAndChunk_loop sz p (c_ID (last ?cs)) (tot + length out) (Suc i) w3 =
          ((tot + length out + length (drop sz rest), Suc i + length (chunks sz (drop sz rest)), None), w')"
        and r2: "env w' = env w3" "campaigns (db w') = campaigns (db w3)"
          "rows_kept (campaign_recipients (db w3)) (campaign_recipients (db w'))"
          "covers p sz (Suc i) (map contact_of (drop sz rest)) w3 w'"
        using less.prems(1-6) dr sc l q2(1) b2(1) False by auto
      have "covers p sz i (map contact_of rest) w w'"
        by (rule covers_step [OF less.prems(3) _ _ st r2(3)])
          (use False q2(3) keep(3) r2(4) in \<open>simp_all add: drop_map\<close>)
      moreover have "StreamAndChunk_loop sz p after tot i w = StreamAndChunk_loop sz p (c_ID (last ?cs)) (tot + length out) (Suc i) w3"
        using more ne by (simp add: StreamAndChunk_loop.simps [of _ _ after] c f b q)
      ultimately show ?thesis
        using r r2 q2 keep(2) b2(1,2) lo False less.prems(3) more rows_kept_trans
        by (intro exI [of _ w']) (auto simp: chunks_step)
    qed
  qed
qed

lemma StreamAndChunk_covers:
  assumes "reliable (env w)" and "\<forall>k. \<not> cancelled (env w) k" and "0 < sz"
    and "distinct (map id_text (segment_contacts (cs_WorkspaceID p) (cs_SegmentID p) (db w)))"
    and "\<forall>c \<in> set (segment_contacts (cs_WorkspaceID p) (cs_SegmentID p) (db w)). ct_email c \<noteq> None"
  shows "wp (StreamAndChunk sz p) (\<lambda>x w'. (\<exists>n. x = (length (segment_contacts (cs_WorkspaceID p) (cs_SegmentID p) (db w)), n, None)) \<and>
      env w' = env w \<and> campaigns (db w') = campaigns (db w) \<and> settled w' = settled w \<and>
      covers p sz 0 (map contact_of (segment_contacts (cs_WorkspaceID p) (cs_SegmentID p) (db w))) w w') w"
proof -
  let ?all = "segment_contacts (cs_WorkspaceID p) (cs_SegmentID p) (db w)"
  obtain w' where l: "StreamAndChunk_loop sz p '''' 0 0 w = ((0 + length ?all, 0 + length (chunks sz ?all), None), w')"
    "env w' = env w" "campaigns (db w') = campaigns (db w)" "covers p sz 0 (map contact_of ?all) w w'"
    using loop_covers [OF assms(1-3), of p "[]" ?all "''''" 0 0] assms(4,5) by auto
  have "settled w' = settled w"
    using StreamAndChunk_loop_frame [of settled sz p "''''" 0 0 w] l(1) by simp
  with l show ?thesis by (simp add: StreamAndChunk_def wp_State)
qed

definition same_counts :: "campaign_row \<Rightarrow> campaign_row \<Rightarrow> bool" where
  "same_counts r r' \<longleftrightarrow> cp_sent_count r' = cp_sent_count r \<and> cp_failed_count r' = cp_failed_count r \<and>
     cp_completed_at r' = cp_completed_at r"

lemma start_campaign_find:
  assumes "find_campaign d c ws = Some r" and "status_in (cp_status r) [''queued'', ''sending'']"
  shows "\<exists>r'. find_campaign (start_campaign c ws n t d) c ws = Some r' \<and> cp_status r' = ''sending'' \<and>
    cp_total_recipients r' = int n \<and> same_counts r r'"
  using assms by (simp add: find_campaign_def start_campaign_def find_update_sub same_counts_def)

lemma Handle_start_covers:
  assumes "reliable (env w)" and "\<forall>k. \<not> cancelled (env w) k" and "0 < sz" and "Data m = Some p"
    and "validateCampaignStart p = None"
    and "find_campaign (db w) (cs_CampaignID p) (cs_WorkspaceID p) = Some r"
    and "status_in (cp_status r) [''queued'', ''sending'']"
    and "contacts_seg = segment_contacts (cs_WorkspaceID p) (cs_SegmentID p) (db w)"
    and "contacts_seg \<noteq> []" and "distinct (map id_text contacts_seg)"
    and "\<forall>c \<in> set contacts_seg. ct_email c \<noteq> None"
  shows "wp (Handle_start sz m) (\<lambda>_ w'. settled w' = settled w @ [Ack] \<and>
    covers p sz 0 (map contact_of contacts_seg) w w' \<and>
    (\<exists>r'. find_campaign (db w') (cs_CampaignID p) (cs_WorkspaceID p) = Some r' \<and> cp_status r' = ''sending'' \<and>
       cp_total_recipients r' = int (length contacts_seg) \<and> same_counts r r')) w"
proof -
  define w1 where "w1 = step_clock (w\<lparr>metrics := (metrics w)(''campaign_processed_total'' := Suc (metrics w ''campaign_processed_total''))\<rparr>)"
  have w1: "env w1 = env w" "db w1 = db w" "published w1 = published w" "settled w1 = settled w"
    by (simp_all add: w1_def)
  have st: "cp_status r \<noteq> ''completed''" "cp_status r \<noteq> ''failed''" using assms(7) by auto
  have s: "wp (StreamAndChunk sz p) (\<lambda>x w'. (\<exists>n. x = (length contacts_seg, n, None)) \<and>
      env w' = env w \<and> campaigns (db w') = campaigns (db w) \<and> settled w' = settled w \<and>
      covers p sz 0 (map contact_of contacts_seg) w1 w') w1"
    using StreamAndChunk_covers [of w1 sz p] assms w1 by simp
  have tail: "wp (case x of (tot, nchunks, err) \<Rightarrow> case err of
        Some e \<Rightarrow> finish Nak
      | None \<Rightarrow> if tot = 0 then do {
            r \<leftarrow> MarkCampaignCompleteEmpty (cs_CampaignID p) (cs_WorkspaceID p);
            case r of Inl e \<Rightarrow> finish Nak | Inr _ \<Rightarrow> do { inc ''campaign_completed_total''; finish Ack } }
          else do {
            r \<leftarrow> UpdateCampaignStarted (cs_CampaignID p) (cs_WorkspaceID p) tot;
            case r of Inl e \<Rightarrow> finish Nak | Inr _ \<Rightarrow> finish Ack })
    (\<lambda>_ w'. settled w' = settled w @ [Ack] \<and> covers p sz 0 (map contact_of contacts_seg) w w' \<and>
      (\<exists>r'. find_campaign (db w') (cs_CampaignID p) (cs_WorkspaceID p) = Some r' \<and> cp_status r' = ''sending'' \<and>
         cp_total_recipients r' = int (length contacts_seg) \<and> same_counts r r')) w2"
    if x: "(\<exists>n. x = (length contacts_seg, n, None)) \<and> env w2 = env w \<and> campaigns (db w2) = campaigns (db w) \<and>
      settled w2 = settled w \<and> covers p sz 0 (map contact_of contacts_seg) w1 w2" for x w2
  proof -
    have "find_campaign (db w2) (cs_CampaignID p) (cs_WorkspaceID p) = Some r"
      using x assms(6) by (simp add: find_campaign_def)
    from start_campaign_find [OF this assms(7)] x show ?thesis
      using assms(1,9)
      by (auto simp: wp_rules UpdateCampaignStarted_def Let_def w1 start_campaign_def covers_def)
  qed
  show ?thesis
    using assms(1,4,5,6) st
    by (simp add: Handle_start_def wp_rules GetCampaignStatus_def w1_def [symmetric])
      (rule wp_mono [OF s], rule tail, simp)
qed

lemma scan_null_email: "c \<in> set rows \<Longrightarrow> ct_email c = None \<Longrightarrow> scan_contacts rows = Inl scan_null"
  by (induction rows) (auto split: option.split sum.split)

lemma StreamAndChunk_null_email:
  assumes "reliable (env w)" and "\<forall>k. \<not> cancelled (env w) k"
    and "c \<in> set (segment_page (cs_WorkspaceID p) (cs_SegmentID p) '''' sz (db w))" and "ct_email c = None"
  shows "wp (StreamAndChunk sz p) (\<lambda>x w'. x = (0, 0, Some (Wrap ''fetch contacts'' scan_null)) \<and> db w' = db w \<and>
    published w' = published w \<and> settled w' = settled w) w"
  using assms scan_null_email [OF assms(3,4)]
  by (simp add: StreamAndChunk_def wp_State StreamAndChunk_loop.simps ctx_err_def FetchSegmentContactsBatch_def
      query_def call_def)

lemma null_email:
  assumes "reliable (env w)" and "\<forall>k. \<not> cancelled (env w) k" and "Data m = Some p"
    and "validateCampaignStart p = None"
    and "find_campaign (db w) (cs_CampaignID p) (cs_WorkspaceID p) = Some r"
    and "status_in (cp_status r) [''queued'', ''sending'']"
    and "c \<in> set (segment_page (cs_WorkspaceID p) (cs_SegmentID p) '''' sz (db w))" and "ct_email c = None"
  shows "wp (Handle_start sz m) (\<lambda>_ w'. settled w' = settled w @ [Nak] \<and> db w' = db w \<and> published w' = published w) w"
proof -
  define w1 where "w1 = step_clock (w\<lparr>metrics := (metrics w)(''campaign_processed_total'' := Suc (metrics w ''campaign_processed_total''))\<rparr>)"
  have w1: "env w1 = env w" "db w1 = db w" "published w1 = published w" "settled w1 = settled w"
    by (simp_all add: w1_def)
  have st: "cp_status r \<noteq> ''completed''" "cp_status r \<noteq> ''failed''" using assms(6) by auto
  have s: "wp (StreamAndChunk sz p) (\<lambda>x w'. x = (0, 0, Some (Wrap ''fetch contacts'' scan_null)) \<and> db w' = db w1 \<and>
    published w' = published w1 \<and> settled w' = settled w1) w1"
    by (rule StreamAndChunk_null_email) (use assms w1 in auto)
  show ?thesis
    using assms(1,3,4,5) st
    by (simp add: Handle_start_def wp_rules GetCampaignStatus_def w1_def [symmetric])
      (rule wp_mono [OF s], simp add: wp_rules w1)
qed

section \<open>The scheduler's runs\<close>

definition due_now :: "int \<Rightarrow> pg \<Rightarrow> campaign_row list" where
  "due_now t d = take campaignSchedulerBatch
     (sort_key (\<lambda>r. coalesce (cp_scheduled_at r) 0) (filter (due t) (campaigns d)))"

lemma due_now_subset: "r \<in> set (due_now t d) \<Longrightarrow> r \<in> set (campaigns d) \<and> due t r"
  by (auto simp: due_now_def dest: in_set_takeD)

lemma take_sort_key_least:
  assumes "r \<in> set (take n (sort_key f xs))" and "s \<in> set xs" and "s \<notin> set (take n (sort_key f xs))"
  shows "f r \<le> f s"
proof -
  have "s \<in> set (drop n (sort_key f xs))"
    using assms(2,3) by (metis UnE append_take_drop_id set_append set_sort)
  moreover have "sorted (map f (take n (sort_key f xs) @ drop n (sort_key f xs)))" by simp
  ultimately show ?thesis using assms(1) unfolding map_append sorted_append by auto
qed

text \<open>The start job of a campaign, from its row.\<close>

definition start_job :: "string \<Rightarrow> campaign_row \<Rightarrow> pubmsg" where
  "start_job job r = \<lparr>pm_Subject = ''campaign.send.start'', pm_Payload = PCampaignStart
     \<lparr>cs_JobID = job, cs_WorkspaceID = cp_workspace_id r, cs_CampaignID = cp_id r,
      cs_SegmentID = coalesce (cp_segment_id r) [],
      cs_Sender = \<lparr>addr_Email = coalesce (cp_sender_email r) [], addr_Name = coalesce (cp_sender_name r) []\<rparr>,
      cs_ReplyTo = coalesce (cp_reply_to r) [], cs_Subject = coalesce (cp_subject r) [],
      cs_HTML = coalesce (cp_html_body r) [], cs_Text = coalesce (cp_text_body r) []\<rparr>, pm_MsgID = job\<rparr>"

definition started_row :: "int \<Rightarrow> campaign_row \<Rightarrow> campaign_row" where
  "started_row t r = r\<lparr>cp_status := ''sending'', cp_started_at := Some (coalesce (cp_started_at r) t), cp_updated_at := t\<rparr>"

lemma fire_all_messages:
  assumes "reliable (env w)"
  shows "wp (fire_all (map due_of rs)) (\<lambda>_ w'. db w' = db w \<and> (\<exists>jobs. length jobs = length rs \<and>
    published w' = published w @ map2 start_job jobs rs)) w"
  using assms
proof (induction rs arbitrary: w)
  case Nil
  then show ?case by (simp add: wp_return)
next
  case (Cons r rs)
  let ?j = "uuids (env w) (uuid_next w)"
  let ?w1 = "step_clock (w\<lparr>uuid_next := Suc (uuid_next w)\<rparr>)\<lparr>published := published w @ [start_job ?j r]\<rparr>"
  have "reliable (env ?w1)" using Cons.prems by simp
  from Cons.IH [OF this] have "wp (fire_all (map due_of rs)) (\<lambda>_ w'. db w' = db w \<and> (\<exists>jobs. length jobs = length (r # rs) \<and>
    published w' = published w @ map2 start_job jobs (r # rs))) ?w1"
  proof (rule wp_mono, elim conjE exE, intro conjI)
    fix x w' jobs
    assume a: "db w' = db ?w1" "length jobs = length rs" "published w' = published ?w1 @ map2 start_job jobs rs"
    show "db w' = db w" using a by simp
    show "\<exists>jobs. length jobs = length (r # rs) \<and> published w' = published w @ map2 start_job jobs (r # rs)"
      using a by (intro exI [of _ "?j # jobs"]) simp
  qed
  moreover have "start_job ?j r = \<lparr>pm_Subject = SubjectCampaignStart, pm_Payload = PCampaignStart (start_payload ?j (due_of r)), pm_MsgID = ?j\<rparr>"
    by (simp add: start_job_def start_payload_def due_of_def)
  ultimately show ?case using Cons.prems by (simp add: fire_def wp_rules Publish_def)
qed

lemma GetDue_run:
  assumes "fault (env w) (tick w) = NoFault" and "t = now (step_clock w)"
  shows "run_state (GetDueCampaigns campaignSchedulerBatch) w =
    (Inr (map due_of (filter (\<lambda>r. cp_id r \<in> cp_id ` set (due_now t (db w))) (campaigns (db w)))),
     (step_clock w)\<lparr>db := (db w)\<lparr>campaigns :=
       update_where (\<lambda>r. cp_id r \<in> cp_id ` set (due_now t (db w))) (started_row t) (campaigns (db w))\<rparr>\<rparr>)"
proof -
  have "(\<lambda>r. r\<lparr>cp_status := ''sending'', cp_started_at := Some (coalesce (cp_started_at r) t), cp_updated_at := t\<rparr>) = started_row t"
    by (simp add: fun_eq_iff started_row_def)
  then show ?thesis
    using assms by (simp add: GetDueCampaigns_def exec_returning_def call_def take_due_def Let_def due_now_def)
qed

lemma same_row: "distinct (map f xs) \<Longrightarrow> r \<in> set xs \<Longrightarrow> set ys \<subseteq> set xs \<Longrightarrow> f r \<in> f ` set ys \<longleftrightarrow> r \<in> set ys"
  by (auto simp: distinct_map dest: inj_onD)

lemma poll_fires:
  assumes "reliable (env w)" and "distinct (map cp_id (campaigns (db w)))" and "t = now (step_clock w)"
    and "rs = filter (\<lambda>r. r \<in> set (due_now t (db w))) (campaigns (db w))"
  shows "wp poll_campaigns (\<lambda>_ w'. (\<exists>jobs. length jobs = length rs \<and> published w' = published w @ map2 start_job jobs rs) \<and>
      campaigns (db w') = map (\<lambda>r. if r \<in> set rs then started_row t r else r) (campaigns (db w))) w"
proof -
  let ?P = "\<lambda>r. cp_id r \<in> cp_id ` set (due_now t (db w))"
  have P: "?P r \<longleftrightarrow> r \<in> set (due_now t (db w))" if "r \<in> set (campaigns (db w))" for r
    by (rule same_row [OF assms(2) that]) (use due_now_subset in blast)
  then have rs: "filter ?P (campaigns (db w)) = rs" unfolding assms(4) by (auto intro: filter_cong)
  have up: "update_where ?P (started_row t) (campaigns (db w)) = map (\<lambda>r. if r \<in> set rs then started_row t r else r) (campaigns (db w))"
    unfolding update_where_def assms(4) using P by (intro map_cong) auto
  let ?w1 = "(step_clock w)\<lparr>db := (db w)\<lparr>campaigns := map (\<lambda>r. if r \<in> set rs then started_row t r else r) (campaigns (db w))\<rparr>\<rparr>"
  have run: "run_state (GetDueCampaigns campaignSchedulerBatch) w = (Inr (map due_of rs), ?w1)"
    using GetDue_run [OF _ assms(3)] assms(1) unfolding rs up by simp
  have "reliable (env ?w1)" using assms(1) by simp
  from fire_all_messages [OF this, of rs] show ?thesis
    by (simp add: poll_campaigns_def wp_bind wp_def [of "GetDueCampaigns n" for n] run) (erule wp_mono, simp)
qed

lemma due_batch:
  assumes "distinct (map cp_id (campaigns d))" and "D = filter (due t) (campaigns d)"
    and "rs = filter (\<lambda>r. r \<in> set (due_now t d)) (campaigns d)"
  shows "distinct rs" and "set rs \<subseteq> set D" and "length rs = min 20 (length D)"
    and "\<forall>r \<in> set rs. \<forall>s \<in> set D - set rs. the (cp_scheduled_at r) \<le> the (cp_scheduled_at s)"
proof -
  let ?f = "\<lambda>r. coalesce (cp_scheduled_at r) (0::int)"
  have now: "due_now t d = take 20 (sort_key ?f D)" by (simp add: due_now_def campaignSchedulerBatch_def assms(2))
  have dc: "distinct (campaigns d)" using assms(1) by (simp add: distinct_map)
  then show dr: "distinct rs" by (simp add: assms(3))
  have "set (due_now t d) \<subseteq> set (campaigns d)" using due_now_subset by blast
  then have sr: "set rs = set (due_now t d)" by (auto simp: assms(3))
  show "set rs \<subseteq> set D" unfolding sr now using set_take_subset [of 20 "sort_key ?f D"] by simp
  have "distinct (due_now t d)" unfolding now using dc assms(2) by simp
  with dr sr have "length rs = length (due_now t d)" by (metis distinct_card)
  then show "length rs = min 20 (length D)" by (simp add: now)
  show "\<forall>r \<in> set rs. \<forall>s \<in> set D - set rs. the (cp_scheduled_at r) \<le> the (cp_scheduled_at s)"
  proof (intro ballI)
    fix r s assume r: "r \<in> set rs" and s: "s \<in> set D - set rs"
    have "?f r \<le> ?f s"
      using r s unfolding sr now by (intro take_sort_key_least [where xs = D and n = 20]) auto
    moreover have "cp_scheduled_at r \<noteq> None" "cp_scheduled_at s \<noteq> None"
      using r s \<open>set rs \<subseteq> set D\<close> assms(2) by (auto simp: due_def split: option.splits)
    ultimately show "the (cp_scheduled_at r) \<le> the (cp_scheduled_at s)" by auto
  qed
qed

lemma fire_all_unpublished:
  "\<forall>k \<ge> tick w. \<exists>e. fault (env w) k = FailBefore e \<Longrightarrow>
   wp (fire_all cs) (\<lambda>_ w'. db w' = db w \<and> published w' = published w) w"
proof (induction cs arbitrary: w)
  case (Cons c cs)
  then obtain e where "fault (env w) (tick w) = FailBefore e" by auto
  with Cons.prems Cons.IH [of "step_clock (w\<lparr>uuid_next := Suc (uuid_next w)\<rparr>)"] show ?case
    by (simp add: fire_def wp_rules Publish_def)
qed (simp add: wp_return)

lemma poll_loses:
  assumes "fault (env w) (tick w) = NoFault" and "\<forall>k > tick w. \<exists>e. fault (env w) k = FailBefore e"
    and "r \<in> set (due_now (now (step_clock w)) (db w))"
  shows "wp poll_campaigns (\<lambda>_ w'. published w' = published w \<and>
    (\<forall>r' \<in> set (campaigns (db w')). cp_id r' = cp_id r \<longrightarrow> (\<forall>t. \<not> due t r'))) w"
proof -
  let ?w1 = "step_clock w" and ?P = "\<lambda>x. cp_id x \<in> cp_id ` set (due_now (now (step_clock w)) (db w))"
  define d where "d = (db w)\<lparr>campaigns := update_where ?P (started_row (now ?w1)) (campaigns (db w))\<rparr>"
  obtain cs where run: "run_state (GetDueCampaigns campaignSchedulerBatch) w = (Inr cs, ?w1\<lparr>db := d\<rparr>)"
    unfolding d_def using GetDue_run [OF assms(1) refl] by blast
  have d: "\<forall>r' \<in> set (campaigns d). cp_id r' = cp_id r \<longrightarrow> cp_status r' = ''sending''"
    using assms(3) by (auto simp: d_def update_where_def started_row_def)
  have "\<forall>k \<ge> tick (?w1\<lparr>db := d\<rparr>). \<exists>e. fault (env (?w1\<lparr>db := d\<rparr>)) k = FailBefore e"
    using assms(2) by simp
  from fire_all_unpublished [OF this, of cs] show ?thesis
    unfolding poll_campaigns_def wp_bind wp_def [of "GetDueCampaigns n" for n] run
    by (simp, elim wp_mono) (use d in \<open>auto simp: due_def\<close>)
qed

section \<open>Properties\<close>

definition sample_contact :: "char \<Rightarrow> string option \<Rightarrow> contact_row" where
  "sample_contact c e = \<lparr>ct_id = Uuid c '''', ct_workspace_id = ''w'', ct_user_id = None, ct_anonymous_id = None,
     ct_email = e, ct_first_name = None, ct_last_name = None, ct_phone = None, ct_status = ''active'',
     ct_is_suppressed = None, ct_is_email_valid = None, ct_lifecycle_stage = None, ct_lead_score = None,
     ct_properties = None, ct_traits = None, ct_created_at = 0, ct_updated_at = 0, ct_deleted_at = None\<rparr>"

definition sample_campaign :: "string \<Rightarrow> campaign_row" where
  "sample_campaign status = \<lparr>cp_id = ''c'', cp_workspace_id = ''w'', cp_status = status, cp_total_recipients = 0,
     cp_sent_count = 0, cp_failed_count = 0, cp_started_at = None, cp_completed_at = None, cp_failure_reason = None,
     cp_scheduled_at = Some 0, cp_deleted_at = None, cp_segment_id = Some ''g'', cp_sender_email = None, cp_sender_name = None,
     cp_reply_to = None, cp_subject = None, cp_html_body = None, cp_text_body = None, cp_updated_at = 0\<rparr>"

definition start_world :: "string \<Rightarrow> string option \<Rightarrow> world" where
  "start_world status e = quiet_world\<lparr>db := empty_pg\<lparr>
     contacts := [sample_contact CHR ''z'' (Some ''z@x''), sample_contact CHR ''k'' e, sample_contact CHR ''a'' (Some ''a@x'')],
     segment_memberships := map (\<lambda>i. \<lparr>sm_segment_id = ''g'', sm_workspace_id = ''w'', sm_contact_id = i, sm_created_at = 0\<rparr>)
       [''a'', ''k'', ''z''],
     campaigns := [sample_campaign status]\<rparr>\<rparr>"

definition sample_start :: CampaignStartPayload where
  "sample_start = \<lparr>cs_JobID = ''j'', cs_WorkspaceID = ''w'', cs_CampaignID = ''c'', cs_SegmentID = ''g'',
     cs_Sender = \<lparr>addr_Email = ''s'', addr_Name = ''''\<rparr>, cs_ReplyTo = '''', cs_Subject = ''x'', cs_HTML = '''', cs_Text = ''t''\<rparr>"

lemma start_world_simps:
  "env (start_world status e) = quiet_env" "validateCampaignStart sample_start = None"
  "find_campaign (db (start_world status e)) (cs_CampaignID sample_start) (cs_WorkspaceID sample_start) = Some (sample_campaign status)"
  "campaigns (db (start_world status e)) = [sample_campaign status]" "cp_status (sample_campaign status) = status"
  by (simp_all add: start_world_def sample_start_def validateCampaignStart_def quiet_world_def find_campaign_def
      this_campaign_def sample_campaign_def)

lemma start_world_contacts:
  "segment_contacts (cs_WorkspaceID sample_start) (cs_SegmentID sample_start) (db (start_world status e)) =
     [sample_contact CHR ''a'' (Some ''a@x''), sample_contact CHR ''k'' e, sample_contact CHR ''z'' (Some ''z@x'')]"
  by (simp add: segment_contacts_def eligible_def sample_start_def start_world_def sample_contact_def id_text_def
      less_eq_char_def less_char_def)

text \<open>
  Claim C12. A campaign start covers its segment exactly. Without faults, a valid start job for a queued or
  sending campaign whose eligible contacts all have an email ends acknowledged; the published chunk
  jobs, with deterministic ids \<^verbatim>\<open><campaign>-chunk-<i>\<close>, cut the eligible contacts, in key order, into pieces of
  the chunk size with one recipient per contact, each the stored recipient row of that contact; and
  the campaign's total is the number of contacts.
\<close>

theorem start_covers_segment:
  assumes "reliable (env w)" and "\<forall>k. \<not> cancelled (env w) k" and "0 < sz" and "Data m = Some p"
    and "validateCampaignStart p = None"
    and "find_campaign (db w) (cs_CampaignID p) (cs_WorkspaceID p) = Some r"
    and "status_in (cp_status r) [''queued'', ''sending'']"
    and "cts = segment_contacts (cs_WorkspaceID p) (cs_SegmentID p) (db w)"
    and "cts \<noteq> []" and "distinct (map id_text cts)" and "\<forall>c \<in> set cts. ct_email c \<noteq> None"
  shows "wp (Handle_start sz m) (\<lambda>_ w'. settled w' = settled w @ [Ack] \<and>
    (\<exists>rows. published w' = published w @ chunk_msgs p 0 rows \<and>
       list_all2 (list_all2 (stands_for p (campaign_recipients (db w')))) (chunks sz (map contact_of cts)) rows) \<and>
    (\<exists>r'. find_campaign (db w') (cs_CampaignID p) (cs_WorkspaceID p) = Some r' \<and> cp_status r' = ''sending'' \<and>
       cp_total_recipients r' = int (length cts))) w"
  by (rule wp_mono [OF Handle_start_covers [OF assms]]) (auto simp: covers_def)

lemma start_covers_segment_witness:
  "wp (Handle_start 2 \<lparr>Data = Some sample_start, NumDelivered = Some 1\<rparr>) (\<lambda>_ w'.
    settled w' = settled (start_world ''queued'' (Some ''k@x'')) @ [Ack] \<and>
    (\<exists>rows. published w' = published (start_world ''queued'' (Some ''k@x'')) @ chunk_msgs sample_start 0 rows \<and>
       list_all2 (list_all2 (stands_for sample_start (campaign_recipients (db w')))) (chunks 2 (map contact_of
         [sample_contact CHR ''a'' (Some ''a@x''), sample_contact CHR ''k'' (Some ''k@x''), sample_contact CHR ''z'' (Some ''z@x'')])) rows) \<and>
    (\<exists>r'. find_campaign (db w') (cs_CampaignID sample_start) (cs_WorkspaceID sample_start) = Some r' \<and>
       cp_status r' = ''sending'' \<and>
       cp_total_recipients r' = int (length [sample_contact CHR ''a'' (Some ''a@x''), sample_contact CHR ''k'' (Some ''k@x''),
         sample_contact CHR ''z'' (Some ''z@x'')]))) (start_world ''queued'' (Some ''k@x''))"
  by (rule start_covers_segment [where r = "sample_campaign ''queued''"])
    (simp_all only: start_world_simps start_world_contacts reliable_quiet quiet_env_simps message.simps,
     simp_all add: sample_contact_def id_text_def start_world_simps(5))

text \<open>
  One contact without an email stops the campaign for good: an anonymous contact has a \<^verbatim>\<open>NULL\<close>
  email, which cannot be scanned, so as soon as one is on the first page every delivery of the start job is
  negatively acknowledged with nothing stored and nothing published.
\<close>

theorem null_email_blocks_campaign:
  assumes "reliable (env w)" and "\<forall>k. \<not> cancelled (env w) k" and "Data m = Some p"
    and "validateCampaignStart p = None"
    and "find_campaign (db w) (cs_CampaignID p) (cs_WorkspaceID p) = Some r"
    and "status_in (cp_status r) [''queued'', ''sending'']"
    and "c \<in> set (segment_page (cs_WorkspaceID p) (cs_SegmentID p) '''' sz (db w))" and "ct_email c = None"
  shows "wp (Handle_start sz m) (\<lambda>_ w'. settled w' = settled w @ [Nak] \<and> db w' = db w \<and> published w' = published w) w"
  using assms by (rule null_email)

lemma null_email_blocks_campaign_witness:
  "wp (Handle_start 500 \<lparr>Data = Some sample_start, NumDelivered = Some 6\<rparr>) (\<lambda>_ w'.
     settled w' = settled (start_world ''queued'' None) @ [Nak] \<and> db w' = db (start_world ''queued'' None) \<and>
     published w' = published (start_world ''queued'' None)) (start_world ''queued'' None)"
proof (rule null_email_blocks_campaign [where r = "sample_campaign ''queued''"])
  show "sample_contact CHR ''k'' None \<in> set (segment_page (cs_WorkspaceID sample_start) (cs_SegmentID sample_start)
      '''' 500 (db (start_world ''queued'' None)))"
    by (simp add: segment_keys.fetch_first start_world_contacts)
qed (simp_all add: start_world_simps, simp_all add: sample_contact_def)

text \<open>
  Claim C30. Due campaigns are fired once, twenty at a time: without faults a poll picks as many of the due campaigns as
  it may, those due longest, publishes exactly one start job with the data of its row for each, moves
  them, and no other row, from \<^verbatim>\<open>scheduled\<close> to \<^verbatim>\<open>sending\<close>, so that no later poll fires them again; and when at most twenty
  were due, none is left due.
\<close>

theorem scheduler_fires_due_once:
  assumes "reliable (env w)" and "distinct (map cp_id (campaigns (db w)))" and "t = now (step_clock w)"
    and "D = filter (due t) (campaigns (db w))"
  shows "wp poll_campaigns (\<lambda>_ w'. \<exists>rs jobs. distinct rs \<and> set rs \<subseteq> set D \<and> length rs = min 20 (length D) \<and>
      (\<forall>r \<in> set rs. \<forall>s \<in> set D - set rs. the (cp_scheduled_at r) \<le> the (cp_scheduled_at s)) \<and>
      length jobs = length rs \<and> published w' = published w @ map2 start_job jobs rs \<and>
      campaigns (db w') = map (\<lambda>r. if r \<in> set rs then started_row t r else r) (campaigns (db w)) \<and>
      (length D \<le> 20 \<longrightarrow> filter (due t) (campaigns (db w')) = [])) w"
proof -
  define rs where "rs = filter (\<lambda>r. r \<in> set (due_now t (db w))) (campaigns (db w))"
  note batch = due_batch [OF assms(2,4) rs_def]
  have "set rs = set D" if "length D \<le> 20"
  proof (rule card_subset_eq)
    have "distinct D" using assms(2,4) by (simp add: distinct_map)
    then show "card (set rs) = card (set D)" using that batch(1,3) by (simp add: distinct_card)
  qed (simp_all add: batch(2))
  then have "filter (due t) (map (\<lambda>r. if r \<in> set rs then started_row t r else r) (campaigns (db w))) = []" if "length D \<le> 20"
    using that assms(4) by (auto simp: filter_empty_conv due_def started_row_def)
  with batch show ?thesis
    by (intro wp_mono [OF poll_fires [OF assms(1-3) rs_def]], elim conjE exE, intro exI [of _ rs], auto)
qed

lemma scheduler_fires_due_once_witness:
  "wp poll_campaigns (\<lambda>_ w'. (\<exists>job. published w' = [start_job job (sample_campaign ''scheduled'')]) \<and>
      campaigns (db w') = [started_row 0 (sample_campaign ''scheduled'')]) (start_world ''scheduled'' None)"
proof -
  let ?w = "start_world ''scheduled'' None" and ?r = "sample_campaign ''scheduled''"
  have t: "0 = now (step_clock ?w)" "published ?w = []" by (simp_all add: step_clock_def start_world_def quiet_world_def)
  have D: "[?r] = filter (due 0) (campaigns (db ?w))" by (simp add: start_world_simps due_def sample_campaign_def)
  have "rs = [?r]" if "set rs \<subseteq> {?r}" "length rs = Suc 0" for rs
    using that by (cases rs) auto
  moreover have "\<exists>job. jobs = [job]" if "length jobs = Suc 0" for jobs :: "string list"
    using that by (cases jobs) auto
  ultimately show ?thesis
    by (intro wp_mono [OF scheduler_fires_due_once [OF _ _ t(1) D]]) (fastforce simp: start_world_simps t(2))+
qed

text \<open>
  A publish failure loses the campaign: the poll has already moved a due campaign to
  \<^verbatim>\<open>sending\<close> when it publishes; if publishing fails, no start job exists and no later poll, at whatever time, takes
  the campaign again.
\<close>

theorem scheduler_publish_failure_loses:
  assumes "fault (env w) (tick w) = NoFault" and "\<forall>k > tick w. \<exists>e. fault (env w) k = FailBefore e"
    and "r \<in> set (due_now (now (step_clock w)) (db w))"
  shows "wp poll_campaigns (\<lambda>_ w'. published w' = published w \<and>
    (\<forall>r' \<in> set (campaigns (db w')). cp_id r' = cp_id r \<longrightarrow> (\<forall>t. \<not> due t r'))) w"
  using assms by (rule poll_loses)

definition nats_down_world :: world where
  "nats_down_world = (start_world ''scheduled'' None)\<lparr>env := quiet_env\<lparr>fault :=
     (\<lambda>k. if k = 0 then NoFault else FailBefore (Err ''no responders''))\<rparr>\<rparr>"

lemma scheduler_publish_failure_loses_witness:
  "wp poll_campaigns (\<lambda>_ w'. published w' = published nats_down_world \<and>
    (\<forall>r' \<in> set (campaigns (db w')). cp_id r' = cp_id (sample_campaign ''scheduled'') \<longrightarrow> (\<forall>t. \<not> due t r')))
    nats_down_world"
  by (rule scheduler_publish_failure_loses)
    (simp_all add: nats_down_world_def start_world_simps due_now_def due_def sample_campaign_def
      campaignSchedulerBatch_def step_clock_def start_world_def quiet_world_def)

end
