(* ===== verification/Pipeline.thy ===== *)
theory Pipeline
  imports Codec CampaignStart "HOL-Library.Multiset"
begin

text \<open>
  A campaign from its start job to its last mail: the start handler of \<^verbatim>\<open>internal/worker/email/batcher.go\<close> publishes
  chunk jobs, which travel as JSON to the chunk handler of \<^verbatim>\<open>internal/worker/email/handler.go\<close>, in any
  order, any number of times. No definition of the program is added here; the theory composes the two
  handlers and the codec.
\<close>

section \<open>The ledger of a campaign\<close>

text \<open>
  \<open>all\<close> are the recipients of all chunks of the campaign. A chunk stands for its campaign: only its ids
  matter for the ledger.
\<close>

definition same_campaign :: "CampaignChunkPayload \<Rightarrow> CampaignChunkPayload \<Rightarrow> bool" where
  "same_campaign c c' \<longleftrightarrow> cc_CampaignID c' = cc_CampaignID c \<and> cc_WorkspaceID c' = cc_WorkspaceID c"

definition delivered :: "CampaignChunkPayload \<Rightarrow> CampaignChunkRecipient list \<Rightarrow> world \<Rightarrow> CampaignChunkRecipient list" where
  "delivered c all w = filter (\<lambda>r. rstat c r w = ''sent'') all"

definition pending :: "CampaignChunkPayload \<Rightarrow> CampaignChunkRecipient \<Rightarrow> world \<Rightarrow> bool" where
  "pending c r w \<longleftrightarrow> status_in (rstat c r w) [''queued'', ''sending'']"

definition ledger :: "CampaignChunkPayload \<Rightarrow> CampaignChunkRecipient list \<Rightarrow> world \<Rightarrow> world \<Rightarrow> bool" where
  "ledger c all w0 w \<longleftrightarrow> env w = env w0 \<and>
     (\<forall>r \<in> set all. pending c r w \<or> rstat c r w = ''sent'') \<and>
     mset (map msg_To (mail w)) = mset (map msg_To (mail w0)) + image_mset (\<lambda>r. [ccr_Email r]) (mset (delivered c all w))"

definition tally :: "CampaignChunkPayload \<Rightarrow> CampaignChunkRecipient list \<Rightarrow> nat \<Rightarrow> world \<Rightarrow> bool" where
  "tally c all n w \<longleftrightarrow> (\<exists>r. find_campaign (db w) (cc_CampaignID c) (cc_WorkspaceID c) = Some r \<and>
     cp_total_recipients r = int (length all) \<and> cp_failed_count r = 0 \<and> cp_sent_count r = int n \<and>
     (if n = length all then cp_status r = ''completed'' else cp_completed_at r = None))"

definition progressed :: "CampaignChunkPayload \<Rightarrow> CampaignChunkRecipient list \<Rightarrow> world \<Rightarrow> world \<Rightarrow> bool" where
  "progressed c all w w' \<longleftrightarrow> (\<forall>r \<in> set all. rstat c r w = ''sent'' \<longrightarrow> rstat c r w' = ''sent'')"

text \<open>SES may fail, but never for good.\<close>

definition accepting :: "EmailHandler \<Rightarrow> env \<Rightarrow> bool" where
  "accepting h e \<longleftrightarrow> (\<forall>k x err. ses_api e k x = Inl err \<longrightarrow> \<not> eh_classifier h err)"

lemma rstat_same: "same_campaign c c' \<Longrightarrow> rstat c' = rstat c"
  by (intro ext) (simp add: rstat_def same_campaign_def)

lemma ledger_same:
  assumes "same_campaign c c'"
  shows "ledger c' all w0 w = ledger c all w0 w" "tally c' all n w = tally c all n w"
    "progressed c' all w w1 = progressed c all w w1" "delivered c' all w = delivered c all w"
  using assms rstat_same [OF assms]
  by (simp_all add: ledger_def tally_def progressed_def delivered_def pending_def same_campaign_def)

lemma progressed_refl: "progressed c all w w"
  by (simp add: progressed_def)

lemma progressed_trans: "progressed c all w w1 \<Longrightarrow> progressed c all w1 w2 \<Longrightarrow> progressed c all w w2"
  by (simp add: progressed_def)

lemma mset_filter_step:
  assumes "distinct (map k xs)" and "r \<in> set xs" and "\<And>q. q \<in> set xs \<Longrightarrow> k q \<noteq> k r \<Longrightarrow> P' q = P q"
    and "\<not> P r" and "P' r"
  shows "mset (filter P' xs) = add_mset r (mset (filter P xs))"
  using assms(1-3)
proof (induction xs)
  case Nil
  then show ?case by simp
next
  case (Cons a xs)
  show ?case
  proof (cases "a = r")
    case True
    have "filter P' xs = filter P xs"
    proof (rule filter_cong [OF refl])
      fix q assume q: "q \<in> set xs"
      then have "k q \<in> k ` set xs" by simp
      then have "k q \<noteq> k r" using Cons.prems(1) True by auto
      then show "P' q = P q" using Cons.prems(3) q by simp
    qed
    then show ?thesis using True assms(4,5) by simp
  next
    case False
    then have r: "r \<in> set xs" using Cons.prems(2) by simp
    then have "k r \<in> k ` set xs" by simp
    then have "k a \<noteq> k r" using Cons.prems(1) by auto
    then show ?thesis using Cons.IH Cons.prems r by simp
  qed
qed

section \<open>One recipient, one chunk\<close>

lemma processRecipient_ledger:
  assumes "reliable (env w)" and "accepting h (env w)" and "addr_Email (cc_Sender c) \<noteq> ''''"
    and "pending c r w \<or> rstat c r w = ''sent''"
  shows "wp (processRecipient h c r rd) (\<lambda>out w'. env w' = env w \<and> campaigns (db w') = campaigns (db w) \<and>
     others_same c r w w' \<and>
     (case out of
        OSent \<Rightarrow> map msg_To (mail w') = map msg_To (mail w) @ [[ccr_Email r]] \<and> pending c r w \<and> rstat c r w' = ''sent''
      | ODuplicate \<Rightarrow> mail w' = mail w \<and> rstat c r w = ''sent'' \<and> rstat c r w' = ''sent''
      | OPermanent \<Rightarrow> False
      | OTransient _ \<Rightarrow> mail w' = mail w \<and> pending c r w \<and> pending c r w')) w"
proof -
  define w0 where "w0 = step_clock w"
  obtain waited rl w1 where a: "run_state (Acquire (eh_limiter h) (ratelimit_key (cc_WorkspaceID c))
      rateLimitWaitBudget) w0 = ((waited, rl), w1)"
    by (metis surj_pair)
  have w1: "env w1 = env w" "db w1 = db w" "mail w1 = mail w"
    using Acquire_keeps [OF a] by (simp_all add: w0_def)
  have w0: "db w0 = db w" "mail w0 = mail w" "env w0 = env w" by (simp_all add: w0_def)
  have acq: "wp (Acquire (eh_limiter h) (ratelimit_key (cc_WorkspaceID c)) rateLimitWaitBudget) Q w0 =
      Q (waited, rl) w1" for Q
    by (simp add: wp_def a)
  show ?thesis
    using assms
    by (cases rl) (auto simp: processRecipient_def wp_rules GetCampaignRecipientStatus_def acq
         w0_def [symmetric] w0 w1 MarkCampaignRecipientSending_def MarkCampaignRecipientSent_def
         MarkCampaignRecipientFailed_def publishDeliveryEvent_chunk_def Publish_def SendEmail_def
         chunk_input_def others_same_def rstat_def pending_def status_in_def accepting_def ses_request_def
         recipient_status_marks recipient_status_other
       split: if_splits sum.split)
qed
lemma ledger_step:
  assumes "ledger c all w0 w" and "distinct (map ccr_RecipientID all)" and "r \<in> set all"
    and "env w' = env w" and "others_same c r w w'"
    and "case out of
        OSent \<Rightarrow> map msg_To (mail w') = map msg_To (mail w) @ [[ccr_Email r]] \<and> pending c r w \<and> rstat c r w' = ''sent''
      | ODuplicate \<Rightarrow> mail w' = mail w \<and> rstat c r w = ''sent'' \<and> rstat c r w' = ''sent''
      | OPermanent \<Rightarrow> False
      | OTransient _ \<Rightarrow> mail w' = mail w \<and> pending c r w \<and> pending c r w'"
  shows "ledger c all w0 w'" and "progressed c all w w'"
    and "length (delivered c all w') = (if out = OSent then 1 else 0) + length (delivered c all w)"
    and "rstat c r w' = ''sent'' \<or> (\<exists>s. out = OTransient s)"
proof -
  have o: "rstat c q w' = rstat c q w" if "q \<in> set all" "q \<noteq> r" for q
    using that assms(2,3,5) by (auto simp: others_same_def distinct_map inj_on_def)
  have ps: "pending c q w' = pending c q w" if "q \<in> set all" "q \<noteq> r" for q
    using o [OF that] by (simp add: pending_def)
  have here: "pending c r w' \<or> rstat c r w' = ''sent''" "rstat c r w = ''sent'' \<longrightarrow> rstat c r w' = ''sent''"
    using assms(6) by (cases out; auto simp: pending_def status_in_def)+
  have "delivered c all w' = delivered c all w" if "out \<noteq> OSent"
    unfolding delivered_def
  proof (rule filter_cong [OF refl])
    fix q assume "q \<in> set all"
    then show "rstat c q w' = ''sent'' \<longleftrightarrow> rstat c q w = ''sent''"
      using o [of q] that assms(6) by (cases "q = r"; cases out) (auto simp: pending_def status_in_def)
  qed
  moreover have "mset (delivered c all w') = add_mset r (mset (delivered c all w))" if "out = OSent"
    unfolding delivered_def
    by (rule mset_filter_step [OF assms(2,3)])
      (use that assms(5,6) in \<open>auto simp: others_same_def pending_def status_in_def\<close>)
  ultimately have d: "mset (delivered c all w') = (if out = OSent then {#r#} else {#}) + mset (delivered c all w)"
    by simp
  then have "size (mset (delivered c all w')) = (if out = OSent then 1 else 0) + size (mset (delivered c all w))" by simp
  then show "length (delivered c all w') = (if out = OSent then 1 else 0) + length (delivered c all w)" by simp
  have "mset (map msg_To (mail w')) = (if out = OSent then {#[ccr_Email r]#} else {#}) + mset (map msg_To (mail w))"
    using assms(6) by (cases out) simp_all
  moreover have "image_mset (\<lambda>r. [ccr_Email r]) (mset (delivered c all w')) =
      (if out = OSent then {#[ccr_Email r]#} else {#}) + image_mset (\<lambda>r. [ccr_Email r]) (mset (delivered c all w))"
    unfolding d by simp
  moreover have "mset (map msg_To (mail w)) = mset (map msg_To (mail w0)) +
      image_mset (\<lambda>r. [ccr_Email r]) (mset (delivered c all w))" "env w = env w0"
      "\<forall>q \<in> set all. pending c q w \<or> rstat c q w = ''sent''"
    using assms(1) by (simp_all add: ledger_def)
  moreover have "\<forall>q \<in> set all. pending c q w' \<or> rstat c q w' = ''sent''"
  proof
    fix q assume q: "q \<in> set all"
    then show "pending c q w' \<or> rstat c q w' = ''sent''"
      using here(1) o [OF q] ps [OF q] calculation(5) by (cases "q = r") auto
  qed
  ultimately show "ledger c all w0 w'"
    unfolding ledger_def using assms(4) by (simp only: ac_simps)
  show "progressed c all w w'"
    using here(2) o unfolding progressed_def by metis
  show "rstat c r w' = ''sent'' \<or> (\<exists>s. out = OTransient s)"
    using assms(6) by (cases out) auto
qed

lemma chunk_loop_ledger:
  assumes "reliable (env w)" and "accepting h (env w)" and "addr_Email (cc_Sender c) \<noteq> ''''"
    and "distinct (map ccr_RecipientID all)" and "set rs \<subseteq> set all" and "ledger c all w0 w"
  shows "wp (chunk_loop h c rd rs res tr) (\<lambda>(res', tr') w'. ledger c all w0 w' \<and> progressed c all w w' \<and>
     campaigns (db w') = campaigns (db w) \<and> cr_permanentFailed res' = cr_permanentFailed res \<and>
     cr_sent res' + length (delivered c all w) = cr_sent res + length (delivered c all w') \<and>
     (tr' = [] \<longrightarrow> tr = [] \<and> (\<forall>r \<in> set rs. rstat c r w' = ''sent''))) w"
  using assms
proof (induction rs arbitrary: w res tr)
  case Nil
  then show ?case by (simp add: wp_rules progressed_refl)
next
  case (Cons r rs)
  let ?w = "w\<lparr>tick := Suc (tick w)\<rparr>"
  have same: "ledger c all w0 ?w" "delivered c all ?w = delivered c all w" "progressed c all ?w = progressed c all w"
    using Cons.prems(6) by (simp_all add: ledger_def delivered_def pending_def progressed_def rstat_def fun_eq_iff)
  have r: "r \<in> set all" and rs: "set rs \<subseteq> set all" using Cons.prems by auto
  show ?case
  proof (cases "cancelled (env w) (tick w)")
    case True
    then show ?thesis
      using Cons.IH [of ?w res "tr @ [r]"] Cons.prems same rs
      by (simp add: wp_rules) (elim wp_mono, auto)
  next
    case False
    have rel: "reliable (env ?w)" and acc: "accepting h (env ?w)" using Cons.prems by simp_all
    have st: "pending c r ?w \<or> rstat c r ?w = ''sent''"
      using same(1) r by (simp add: ledger_def)
    have step: "wp (case out of
         OSent \<Rightarrow> chunk_loop h c rd rs (res\<lparr>cr_sent := cr_sent res + 1\<rparr>) tr
       | ODuplicate \<Rightarrow> chunk_loop h c rd rs res tr
       | OPermanent \<Rightarrow> chunk_loop h c rd rs (res\<lparr>cr_permanentFailed := cr_permanentFailed res + 1\<rparr>) tr
       | OTransient reason \<Rightarrow> chunk_loop h c rd rs
             (res\<lparr>cr_transientFailed := cr_transientFailed res + 1, cr_transientReason := reason\<rparr>) (tr @ [r]))
       (\<lambda>(res', tr') w'. ledger c all w0 w' \<and> progressed c all w w' \<and>
         campaigns (db w') = campaigns (db w) \<and> cr_permanentFailed res' = cr_permanentFailed res \<and>
         cr_sent res' + length (delivered c all w) = cr_sent res + length (delivered c all w') \<and>
         (tr' = [] \<longrightarrow> tr = [] \<and> (\<forall>r \<in> set (r # rs). rstat c r w' = ''sent''))) w1"
      if out: "env w1 = env ?w" "campaigns (db w1) = campaigns (db ?w)" "others_same c r ?w w1"
        "case out of
        OSent \<Rightarrow> map msg_To (mail w1) = map msg_To (mail ?w) @ [[ccr_Email r]] \<and> pending c r ?w \<and> rstat c r w1 = ''sent''
      | ODuplicate \<Rightarrow> mail w1 = mail ?w \<and> rstat c r ?w = ''sent'' \<and> rstat c r w1 = ''sent''
      | OPermanent \<Rightarrow> False
      | OTransient _ \<Rightarrow> mail w1 = mail ?w \<and> pending c r ?w \<and> pending c r w1" for out w1
    proof -
      note s = ledger_step [OF same(1) Cons.prems(4) r out(1,3,4)]
      have p1: "progressed c all w w1" using s(2) same(3) by simp
      have rel1: "reliable (env w1)" "accepting h (env w1)" using out(1) Cons.prems by simp_all
      have sent: "rstat c r w' = ''sent''" if "rstat c r w1 = ''sent''" "progressed c all w1 w'" for w'
        using that r by (simp add: progressed_def)
      note IH = wp_mono [OF Cons.IH [OF rel1 Cons.prems(3,4) rs s(1)]]
      show ?thesis
        using s(3,4) out p1 same(2) sent
        by (cases out) (simp_all, (rule IH; auto intro: progressed_trans)+)
    qed
    show ?thesis
      unfolding chunk_loop.simps wp_bind wp_ctx_err
      using False
      by (simp only: if_False wp_bind)
        (rule wp_mono [OF processRecipient_ledger [OF rel acc Cons.prems(3) st]], rule step; simp)
  qed
qed
section \<open>The campaign's row\<close>

text \<open>Only the campaign's row moved since \<open>w1\<close>.\<close>

definition campaign_only :: "world \<Rightarrow> world \<Rightarrow> bool" where
  "campaign_only w1 w \<longleftrightarrow> env w = env w1 \<and> mail w = mail w1 \<and> campaign_recipients (db w) = campaign_recipients (db w1) \<and>
     settled w = settled w1"

lemma campaign_only_ledger:
  assumes "campaign_only w1 w"
  shows "ledger c all w0 w = ledger c all w0 w1" and "delivered c all w = delivered c all w1" and "rstat c r w = rstat c r w1"
proof -
  have r: "rstat c q w = rstat c q w1" for q
    using assms by (simp add: campaign_only_def rstat_def recipient_status_def)
  show "rstat c r w = rstat c r w1" by (rule r)
  show "delivered c all w = delivered c all w1" by (simp add: delivered_def r)
  then show "ledger c all w0 w = ledger c all w0 w1"
    using assms by (simp add: ledger_def pending_def r campaign_only_def)
qed

lemma find_campaign_row:
  "find_campaign d cid ws = Some r \<Longrightarrow> cp_id r = cid \<and> cp_workspace_id r = ws"
  unfolding find_campaign_def by (drule find_SomeD) (simp add: this_campaign_def)

lemma wp_Increment_tally:
  assumes "reliable (env w)" and "tally c all n w" and "n < length all" and "n + k \<le> length all"
  shows "wp (IncrementCampaignCounts (cc_CampaignID c) (cc_WorkspaceID c) k 0) (\<lambda>out w'. campaign_only w w' \<and>
    out = Inr \<lparr>pr_SentCount = int (n + k), pr_FailedCount = 0, pr_TotalRecipients = int (length all)\<rparr> \<and>
    (\<exists>r. find_campaign (db w') (cc_CampaignID c) (cc_WorkspaceID c) = Some r \<and> cp_total_recipients r = int (length all) \<and>
       cp_failed_count r = 0 \<and> cp_sent_count r = int (n + k) \<and> cp_completed_at r = None)) w"
proof -
  obtain r where r: "find_campaign (db w) (cc_CampaignID c) (cc_WorkspaceID c) = Some r" "cp_total_recipients r = int (length all)"
    "cp_failed_count r = 0" "cp_sent_count r = int n" "cp_completed_at r = None"
    using assms(2,3) by (auto simp: tally_def)
  then show ?thesis
    using assms(1)
    by (simp add: IncrementCampaignCounts_def wp_rules increment_counts_def Let_def find_campaign_def
        find_campaign_counts [of _ _ _ 0, simplified] find_campaign_counts campaign_only_def)
qed

lemma wp_Complete_tally:
  assumes "reliable (env w)" and "find_campaign (db w) (cc_CampaignID c) (cc_WorkspaceID c) = Some r"
    and "cp_total_recipients r = int (length all)" and "cp_failed_count r = 0" and "cp_sent_count r = int (length all)"
    and "cp_completed_at r = None" and "all \<noteq> []"
  shows "wp (MarkCampaignComplete (cc_CampaignID c) (cc_WorkspaceID c)) (\<lambda>_ w'. campaign_only w w' \<and> tally c all (length all) w') w"
proof -
  have "completable (cc_CampaignID c) (cc_WorkspaceID c) r"
    using assms(2-7) find_campaign_row [OF assms(2)] by (simp add: completable_def this_campaign_def)
  then have "find (this_campaign (cc_CampaignID c) (cc_WorkspaceID c)) (update_where (completable (cc_CampaignID c) (cc_WorkspaceID c))
      (\<lambda>r. r\<lparr>cp_status := ''completed'', cp_completed_at := Some t, cp_updated_at := t\<rparr>) (campaigns (db w))) =
    Some (r\<lparr>cp_status := ''completed'', cp_completed_at := Some t, cp_updated_at := t\<rparr>)" for t
    using assms(2) by (subst find_update_where) (simp_all add: find_campaign_def)
  then show ?thesis
    using assms(1,3-5)
    by (simp add: MarkCampaignComplete_def wp_rules complete_campaign_def Let_def find_campaign_def tally_def campaign_only_def)
qed

lemma apply_progress_tally:
  assumes "reliable (env w)" and "tally c all n w" and "cr_permanentFailed res = 0" and "n + cr_sent res \<le> length all" and "all \<noteq> []"
  shows "wp (apply_progress c res) (\<lambda>out w'. out = Some () \<and> campaign_only w w' \<and> tally c all (n + cr_sent res) w') w"
proof (cases "cr_sent res = 0")
  case True
  then show ?thesis using assms(2,3) by (simp add: apply_progress_def wp_rules campaign_only_def)
next
  case False
  then have n: "n < length all" using assms(4) by simp
  have fin: "wp (MarkCampaignComplete (cc_CampaignID c) (cc_WorkspaceID c))
      (\<lambda>x. wp (State_Monad.bind (case x of Inl e \<Rightarrow> State_Monad.return ()
                | Inr b \<Rightarrow> if b then inc ''campaign_completed_total'' else State_Monad.return ())
          (\<lambda>_. State_Monad.return (Some ()))) (\<lambda>out w'. out = Some () \<and> campaign_only w w' \<and> tally c all (n + cr_sent res) w')) w1"
    if "campaign_only w w1" and "n + cr_sent res = length all"
      and "find_campaign (db w1) (cc_CampaignID c) (cc_WorkspaceID c) = Some r \<and> cp_total_recipients r = int (length all) \<and>
       cp_failed_count r = 0 \<and> cp_sent_count r = int (n + cr_sent res) \<and> cp_completed_at r = None" for w1 r
  proof -
    have "reliable (env w1)" using that(1) assms(1) by (simp add: campaign_only_def)
    from wp_Complete_tally [OF this, of c r all] that assms(5) show ?thesis
      by (simp, elim wp_mono) (auto simp: wp_rules campaign_only_def tally_def split: sum.split)
  qed
  have go: "wp (case out of Inl e \<Rightarrow> State_Monad.return None
        | Inr pr \<Rightarrow>
            if pr_SentCount pr + pr_FailedCount pr \<ge> pr_TotalRecipients pr \<and> pr_TotalRecipients pr > 0 then do {
              completed \<leftarrow> MarkCampaignComplete (cc_CampaignID c) (cc_WorkspaceID c);
              (case completed of
                 Inl e \<Rightarrow> State_Monad.return ()
               | Inr b \<Rightarrow> if b then inc ''campaign_completed_total'' else State_Monad.return ());
              State_Monad.return (Some ())
            } else State_Monad.return (Some ()))
      (\<lambda>out w'. out = Some () \<and> campaign_only w w' \<and> tally c all (n + cr_sent res) w') w1"
    if step: "campaign_only w w1"
        "out = Inr \<lparr>pr_SentCount = int (n + cr_sent res), pr_FailedCount = 0, pr_TotalRecipients = int (length all)\<rparr>"
        "find_campaign (db w1) (cc_CampaignID c) (cc_WorkspaceID c) = Some r \<and> cp_total_recipients r = int (length all) \<and>
       cp_failed_count r = 0 \<and> cp_sent_count r = int (n + cr_sent res) \<and> cp_completed_at r = None" for out w1 r
  proof (cases "n + cr_sent res = length all")
    case True
    have "0 < length all" using assms(5) by simp
    then have enough: "int (length all) \<le> int (n + cr_sent res) + 0 \<and> 0 < int (length all)" using True by simp
    show ?thesis
      unfolding step(2) sum.case CampaignProgress.simps if_P [OF enough] wp_bind [of "MarkCampaignComplete a b" for a b]
      by (rule fin [OF step(1) True step(3)])
  next
    case False
    then have "n + cr_sent res < length all" using assms(4) by simp
    then show ?thesis
      using step by (auto simp: wp_return tally_def)
  qed
  show ?thesis
    unfolding apply_progress_def wp_bind [of "IncrementCampaignCounts a b c d" for a b c d]
    using False
    by (simp only: assms(3) wp_bind [of "IncrementCampaignCounts a b c d" for a b c d] if_True neq0_conv simp_thms,
        intro wp_mono [OF wp_Increment_tally [OF assms(1,2) n assms(4)]])
      (elim conjE exE, rule go; simp only: simp_thms)
qed
section \<open>A delivery of a chunk\<close>

lemma valid_chunk_renders:
  assumes "validateCampaignChunk c = None"
  shows "addr_Email (cc_Sender c) \<noteq> ''''" and "\<exists>rd. Render (chunk_template c) = Inr rd"
proof -
  have "\<not> (cc_HTML c = '''' \<and> cc_Text c = '''')" and "addr_Email (cc_Sender c) \<noteq> ''''"
    using assms by (simp_all add: validateCampaignChunk_def split: if_splits)
  then show "addr_Email (cc_Sender c) \<noteq> ''''" "\<exists>rd. Render (chunk_template c) = Inr rd"
    by (auto simp: Render_cases chunk_template_def)
qed

definition books_open :: "CampaignChunkPayload \<Rightarrow> CampaignChunkRecipient list \<Rightarrow> world \<Rightarrow> world \<Rightarrow> bool" where
  "books_open c all w0 w \<longleftrightarrow> ledger c all w0 w \<and> tally c all (length (delivered c all w)) w"

text \<open>What a delivery of chunk \<open>c\<close> does, given how it was settled.\<close>

definition chunk_done :: "CampaignChunkPayload \<Rightarrow> CampaignChunkRecipient list \<Rightarrow> world \<Rightarrow> world \<Rightarrow> world \<Rightarrow> bool" where
  "chunk_done c all w0 w w' \<longleftrightarrow> books_open c all w0 w' \<and> progressed c all w w' \<and>
     (last (settled w') = Ack \<longrightarrow> (\<forall>r \<in> set (cc_Recipients c). rstat c r w' = ''sent''))"

lemma books_open_settle: "books_open c all w0 (w\<lparr>settled := s\<rparr>) = books_open c all w0 w"
  "books_open c all w0 (w\<lparr>metrics := ms\<rparr>) = books_open c all w0 w"
  "progressed c all w1 (w\<lparr>settled := s\<rparr>) = progressed c all w1 w"
  "progressed c all w1 (w\<lparr>metrics := ms\<rparr>) = progressed c all w1 w"
  by (simp_all add: books_open_def ledger_def tally_def delivered_def pending_def rstat_def progressed_def)

lemma Handle_chunk_ledger:
  assumes "reliable (env w0)" and "accepting h (env w0)" and "distinct (map ccr_RecipientID all)" and "all \<noteq> []"
    and "set (cc_Recipients c) \<subseteq> set all" and "validateCampaignChunk c = None"
    and "books_open c all w0 w" and "Data m = Some c" and "attempt_of m < MaxAttempts"
  shows "wp (Handle_chunk h m) (\<lambda>_. chunk_done c all w0 w) w"
proof -
  obtain rd where rd: "Render (chunk_template c) = Inr rd" using valid_chunk_renders(2) [OF assms(6)] by blast
  have envw: "env w = env w0" using assms(7) by (simp add: books_open_def ledger_def)
  let ?P = "\<lambda>(res', tr') w'. ledger c all w0 w' \<and> progressed c all w w' \<and>
     campaigns (db w') = campaigns (db w) \<and> cr_permanentFailed res' = cr_permanentFailed chunkResult0 \<and>
     cr_sent res' + length (delivered c all w) = cr_sent chunkResult0 + length (delivered c all w') \<and>
     (tr' = [] \<longrightarrow> [] = ([] :: CampaignChunkRecipient list) \<and> (\<forall>r \<in> set (cc_Recipients c). rstat c r w' = ''sent''))"
  have loop: "wp (chunk_loop h c rd (cc_Recipients c) chunkResult0 []) ?P w"
    using assms(1-3,5,7) envw valid_chunk_renders(1) [OF assms(6)]
    by (intro chunk_loop_ledger) (simp_all add: books_open_def)
  have tail: "wp (apply_progress c res) (\<lambda>progress. wp (case progress of None \<Rightarrow> finish Nak
      | Some _ \<Rightarrow> chunk_disposition c (attempt_of m) res tr) (\<lambda>_. chunk_done c all w0 w)) w1"
    if P: "?P (res, tr) w1" for res tr w1
  proof -
    have n: "length (delivered c all w) + cr_sent res = length (delivered c all w1)" "cr_permanentFailed res = 0"
      using P by (simp_all add: chunkResult0_def)
    have le: "length (delivered c all w1) \<le> length all" by (simp add: delivered_def)
    have t1: "tally c all (length (delivered c all w)) w1"
      using P assms(7) by (simp add: books_open_def tally_def find_campaign_def)
    have rel: "reliable (env w1)" using P assms(1) by (simp add: ledger_def)
    have last: "wp (chunk_disposition c (attempt_of m) res tr) (\<lambda>_. chunk_done c all w0 w) w2"
      if "campaign_only w1 w2" and "tally c all (length (delivered c all w1)) w2" for w2
    proof -
      have "books_open c all w0 w2"
        using P that campaign_only_ledger [OF that(1)] by (simp add: books_open_def)
      moreover have "progressed c all w w2"
        using P campaign_only_ledger(3) [OF that(1)] by (simp add: progressed_def)
      moreover have "tr = [] \<longrightarrow> (\<forall>r \<in> set (cc_Recipients c). rstat c r w2 = ''sent'')"
        using P campaign_only_ledger(3) [OF that(1)] by simp
      ultimately show ?thesis
        using assms(9)
        by (auto simp: chunk_disposition_def wp_rules chunk_done_def books_open_settle rstat_def)
    qed
    show ?thesis
      using wp_mono [OF apply_progress_tally [OF rel t1 n(2) _ assms(4)]] n(1) le last
      by (simp add: n(1))
  qed
  show ?thesis
    unfolding Handle_chunk_def assms(8) option.case
    using assms(6) rd tail
    by (simp add: wp_bind [of "chunk_loop a b c d e f" for a b c d e f])
      (rule wp_mono [OF loop], auto simp: wp_bind split: prod.splits)
qed
section \<open>The recipient rows of a fresh campaign\<close>

text \<open>
  While a campaign starts for the first time its rows are all queued, one per contact; the ids are the
  database's next identifiers.
\<close>

definition new_row :: "CampaignStartPayload \<Rightarrow> Contact list \<Rightarrow> env \<Rightarrow> recipient_row \<Rightarrow> bool" where
  "new_row p cts e r \<longleftrightarrow> cr_workspace_id r = cs_WorkspaceID p \<and> cr_status r = ''queued'' \<and> cr_id r \<in> range (uuids e) \<and>
     (\<exists>ct \<in> set cts. c_ID ct = cr_contact_id r \<and> c_Email ct = cr_email r \<and> cr_name r = Some (c_Name ct))"

definition rows_ok :: "CampaignStartPayload \<Rightarrow> Contact list \<Rightarrow> env \<Rightarrow> nat \<Rightarrow> recipient_row list \<Rightarrow> bool" where
  "rows_ok p cts e n rs \<longleftrightarrow> distinct (map cr_id rs) \<and> (\<forall>r \<in> set rs. \<forall>k \<ge> n. cr_id r \<noteq> uuids e k) \<and>
     (\<forall>r \<in> set rs. cr_campaign_id r = cs_CampaignID p \<longrightarrow> new_row p cts e r)"

lemma rows_ok_mono: "rows_ok p cts e n rs \<Longrightarrow> n \<le> m \<Longrightarrow> rows_ok p cts e m rs"
  by (auto simp: rows_ok_def)

lemma rows_ok_upsert:
  assumes "rows_ok p cts e n rs" and "inj (uuids e)" and "ct \<in> set cts"
  shows "rows_ok p cts e (Suc n) (snd (upsert_recipient t (uuids e n) (cs_CampaignID p) (cs_WorkspaceID p) ct rs))"
proof (cases "find (\<lambda>r. cr_campaign_id r = cs_CampaignID p \<and> cr_contact_id r = c_ID ct) rs")
  case None
  then show ?thesis
    using assms by (auto simp: upsert_recipient_def Let_def rows_ok_def new_row_def inj_eq) (metis order_refl)
next
  case (Some r)
  let ?P = "\<lambda>r. cr_campaign_id r = cs_CampaignID p \<and> cr_contact_id r = c_ID ct"
  let ?rs = "update_where ?P (\<lambda>r. r\<lparr>cr_updated_at := t\<rparr>) rs"
  have ids: "map cr_id ?rs = map cr_id rs" by (rule map_update_where) simp
  have "\<exists>q \<in> set rs. cr_id r = cr_id q \<and> cr_campaign_id r = cr_campaign_id q \<and> new_row p cts e r = new_row p cts e q"
    if r: "r \<in> set ?rs" for r
  proof -
    obtain q where q: "q \<in> set rs" "r = q \<or> r = q\<lparr>cr_updated_at := t\<rparr>"
      using iffD1 [OF in_update_where r] by auto
    have "new_row p cts e (q\<lparr>cr_updated_at := t\<rparr>) = new_row p cts e q" by (simp add: new_row_def)
    then show ?thesis using q by (auto intro!: bexI [of _ q])
  qed
  then show ?thesis
    using assms(1) Some ids by (fastforce simp: upsert_recipient_def Let_def rows_ok_def)
qed

definition starting :: "CampaignStartPayload \<Rightarrow> Contact list \<Rightarrow> world \<Rightarrow> bool" where
  "starting p cts w \<longleftrightarrow> reliable (env w) \<and> inj (uuids (env w)) \<and>
     map contact_of (segment_contacts (cs_WorkspaceID p) (cs_SegmentID p) (db w)) = cts \<and>
     rows_ok p cts (env w) (uuid_next w) (campaign_recipients (db w))"

lemma insert_recipients_rows_ok:
  assumes "reliable (env w)" and "inj (uuids (env w))" and "set batch \<subseteq> set cts" and "rows_ok p cts (env w) (uuid_next w) rs"
  shows "wp (insert_recipients (cs_CampaignID p) (cs_WorkspaceID p) batch rs) (\<lambda>x w'. env w' = env w \<and> db w' = db w \<and>
     uuid_next w \<le> uuid_next w' \<and> (\<forall>out rs'. x = Inr (out, rs') \<longrightarrow> rows_ok p cts (env w) (uuid_next w') rs')) w"
  using assms
proof (induction batch arbitrary: rs w)
  case Nil
  then show ?case by (simp add: wp_return)
next
  case (Cons ct batch)
  let ?w1 = "step_clock (w\<lparr>uuid_next := Suc (uuid_next w)\<rparr>)"
  obtain row rs1 where u: "upsert_recipient (now ?w1) (uuids (env w) (uuid_next w)) (cs_CampaignID p) (cs_WorkspaceID p) ct rs = (row, rs1)"
    by (metis surj_pair)
  have "rows_ok p cts (env ?w1) (uuid_next ?w1) rs1"
    using rows_ok_upsert [of p cts "env w" "uuid_next w" rs ct "now ?w1"] Cons.prems u by simp
  from Cons.IH [OF _ _ _ this]
  have "wp (insert_recipients (cs_CampaignID p) (cs_WorkspaceID p) batch rs1) (\<lambda>x w'. env w' = env w \<and> db w' = db w \<and>
     uuid_next w \<le> uuid_next w' \<and> (\<forall>out rs'. x = Inr (out, rs') \<longrightarrow> rows_ok p cts (env w) (uuid_next w') rs')) ?w1"
    using Cons.prems by (simp, elim wp_mono) auto
  then show ?case
    using Cons.prems u by (simp add: wp_rules) (elim wp_mono, auto simp: wp_rules split: sum.splits)
qed
lemma starting_same: "env w' = env w \<Longrightarrow> uuid_next w' = uuid_next w \<Longrightarrow> db w' = db w \<Longrightarrow> starting p cts w \<Longrightarrow> starting p cts w'"
  by (simp add: starting_def)

lemma keeps_uuid_next:
  "run_state (query g) w = (x1, w') \<Longrightarrow> uuid_next w' = uuid_next w"
  "run_state (Publish sub pl i) w = (x2, w') \<Longrightarrow> uuid_next w' = uuid_next w"
  by (auto simp: query_def Publish_def call_def Let_def split: fault.splits prod.splits)

lemma publish_chunk_starting:
  assumes "run_state (publish_chunk p i rs) w = (x, w')" and "starting p cts w"
  shows "starting p cts w'"
proof (rule starting_same [OF _ _ _ assms(2)])
  show "env w' = env w" "db w' = db w"
    using preservesD [OF publish_chunk_frame [of env], of p i rs w] preservesD [OF publish_chunk_frame [of db], of p i rs w] assms(1)
    by simp_all
  show "uuid_next w' = uuid_next w"
    using assms(1) by (auto simp: publish_chunk_def inc_by_def split: prod.splits sum.splits dest!: keeps_uuid_next)
qed

lemma scan_contacts_map: "scan_contacts rows = Inr cs \<Longrightarrow> cs = map contact_of rows"
  by (induction rows arbitrary: cs) (auto simp: contact_of_def split: option.splits sum.splits)

lemma Fetch_starting:
  assumes "run_state (FetchSegmentContactsBatch (cs_WorkspaceID p) (cs_SegmentID p) after n) w = (x, w')" and "starting p cts w"
  shows "starting p cts w'" and "x = Inr batch \<Longrightarrow> set batch \<subseteq> set cts"
proof -
  have "env w' = env w" "db w' = db w"
    using preservesD [OF pg_delivery_reads(4) [of env], of "cs_WorkspaceID p" "cs_SegmentID p" after n w]
      preservesD [OF pg_delivery_reads(4) [of db], of "cs_WorkspaceID p" "cs_SegmentID p" after n w] assms(1)
    by simp_all
  moreover have "uuid_next w' = uuid_next w"
    using assms(1) by (auto simp: FetchSegmentContactsBatch_def split: prod.splits dest!: keeps_uuid_next)
  ultimately show "starting p cts w'" using assms(2) starting_same by blast
  assume "x = Inr batch"
  then have "scan_contacts (segment_page (cs_WorkspaceID p) (cs_SegmentID p) after n (db w)) = Inr batch"
    using assms(1) by (auto simp: FetchSegmentContactsBatch_def query_def call_def Let_def
        split: fault.splits prod.splits sum.splits)
  from scan_contacts_map [OF this]
  have "set batch \<subseteq> contact_of ` set (segment_page (cs_WorkspaceID p) (cs_SegmentID p) after n (db w))" by simp
  moreover have "set (segment_page ws sg after n d) \<subseteq> set (segment_contacts ws sg d)" for ws sg d
    by (auto simp: segment_page_def segment_contacts_def dest: in_set_takeD)
  moreover have "set cts = contact_of ` set (segment_contacts (cs_WorkspaceID p) (cs_SegmentID p) (db w))"
    using assms(2) by (auto simp: starting_def)
  ultimately show "set batch \<subseteq> set cts" by blast
qed

lemma Bulk_starting:
  assumes "starting p cts w" and "set batch \<subseteq> set cts"
    and "run_state (BulkInsertCampaignRecipients (cs_CampaignID p) (cs_WorkspaceID p) batch) w = (x, w')"
  shows "starting p cts w'"
proof (cases "batch = []")
  case True
  then show ?thesis using assms by (simp add: BulkInsertCampaignRecipients_def)
next
  case False
  have rel: "reliable (env w)" and i: "inj (uuids (env w))"
    and ok: "rows_ok p cts (env w) (uuid_next w) (campaign_recipients (db w))"
    using assms(1) by (simp_all add: starting_def)
  let ?w1 = "step_clock w"
  have "wp (insert_recipients (cs_CampaignID p) (cs_WorkspaceID p) batch (campaign_recipients (db w))) (\<lambda>x w'. env w' = env w \<and>
      db w' = db w \<and> uuid_next w \<le> uuid_next w' \<and> (\<forall>out rs'. x = Inr (out, rs') \<longrightarrow> rows_ok p cts (env w) (uuid_next w') rs')) ?w1"
    using insert_recipients_rows_ok [of ?w1 batch cts p "campaign_recipients (db w)"] rel i ok assms(2) by simp
  then have "wp (BulkInsertCampaignRecipients (cs_CampaignID p) (cs_WorkspaceID p) batch) (\<lambda>_. starting p cts) w"
    using False rel
    by (simp add: BulkInsertCampaignRecipients_def wp_rules)
      (elim wp_mono, use assms(1) rel in \<open>auto simp: wp_rules starting_def segment_contacts_cong [of "_\<lparr>campaign_recipients := _\<rparr>" "db w"]
         intro: rows_ok_mono split: sum.splits\<close>)
  then show ?thesis using assms(3) by (simp add: wp_def)
qed

lemma loop_starting:
  "starting p cts w \<Longrightarrow> starting p cts (snd (StreamAndChunk_loop sz p a t i w))"
proof (induction sz p a t i w rule: StreamAndChunk_loop.induct)
  case (1 sz p a t i w)
  have e: "starting p cts w1" if "run_state ctx_err w = (r, w1)" for w1 r
    using that 1(2) by (auto simp: ctx_err_def starting_def)
  obtain stop w0 where w0: "run_state ctx_err w = (stop, w0)" by fastforce
  have s0: "starting p cts w0" by (rule e [OF w0])
  obtain x w1 where w1: "run_state (FetchSegmentContactsBatch (cs_WorkspaceID p) (cs_SegmentID p) a sz) w0 = (x, w1)" by fastforce
  note s1 = Fetch_starting(1) [OF w1 s0]
  show ?case
  proof (cases "stop \<or> isl x \<or> projr x = []")
    case True
    then show ?thesis using s0 s1 by (subst StreamAndChunk_loop.simps) (auto simp: w0 w1 split: sum.split)
  next
    case False
    then obtain batch where x: "x = Inr batch" "batch \<noteq> []" "\<not> stop" by (cases x) auto
    obtain y w2 where w2: "run_state (BulkInsertCampaignRecipients (cs_CampaignID p) (cs_WorkspaceID p) batch) w1 = (y, w2)" by fastforce
    note s2 = Bulk_starting [OF s1 Fetch_starting(2) [OF w1 s0 x(1)] w2]
    show ?thesis
    proof (cases y)
      case (Inl err)
      then show ?thesis using s2 x by (subst StreamAndChunk_loop.simps) (simp add: w0 w1 w2)
    next
      case (Inr out)
      obtain z w3 where w3: "run_state (publish_chunk p i out) w2 = (z, w3)" by fastforce
      note s3 = publish_chunk_starting [OF w3 s2]
      have "starting p cts (snd (StreamAndChunk_loop sz p (c_ID (last batch)) (t + length out) (Suc i) w3))"
        if "z = Inr u" "\<not> length batch < sz" for u
        using 1(1) [OF w0 [symmetric] x(3) w1 [symmetric] x(1,2) w2 [symmetric] Inr w3 [symmetric] that s3] .
      then show ?thesis
        using s3 x Inr by (subst StreamAndChunk_loop.simps) (simp add: w0 w1 w2 w3 split: sum.split)
    qed
  qed
qed
text \<open>The step relation that keeps \<open>starting\<close>, so that the rules of a guarantee apply to the start handler.\<close>

definition keeps_starting :: "CampaignStartPayload \<Rightarrow> Contact list \<Rightarrow> world \<Rightarrow> world \<Rightarrow> bool" where
  "keeps_starting p cts w w' \<longleftrightarrow> (starting p cts w \<longrightarrow> starting p cts w')"

interpretation starting_guar: guarantee "keeps_starting p cts"
  by unfold_locales (simp_all add: keeps_starting_def)

lemma keeps_starting_parts:
  "state_io_rel (keeps_starting p cts) (StreamAndChunk sz p)"
  "state_io_rel (keeps_starting p cts) (inc_by name n)"
  "state_io_rel (keeps_starting p cts) (finish d)"
  "state_io_rel (keeps_starting p cts) (GetCampaignStatus i ws)"
  "state_io_rel (keeps_starting p cts) (UpdateCampaignStarted i ws n)"
  "state_io_rel (keeps_starting p cts) (MarkCampaignCompleteEmpty i ws)"
proof -
  have e: "state_io_rel (keeps_starting p cts) (exec g)"
    if "\<And>t d. campaign_recipients (g t d) = campaign_recipients d" "\<And>t d. contacts (g t d) = contacts d"
      "\<And>t d. segment_memberships (g t d) = segment_memberships d" for g
    using that segment_contacts_cong [of "g t d" d for t d]
    by (auto simp: state_io_rel_def exec_def call_def Let_def keeps_starting_def starting_def split: fault.split)
  show "state_io_rel (keeps_starting p cts) (StreamAndChunk sz p)"
    unfolding StreamAndChunk_def by (rule starting_guar.guar_State) (simp add: keeps_starting_def loop_starting)
  show "state_io_rel (keeps_starting p cts) (UpdateCampaignStarted i ws n)"
    unfolding UpdateCampaignStarted_def by (rule e) (simp_all add: start_campaign_def)
  show "state_io_rel (keeps_starting p cts) (MarkCampaignCompleteEmpty i ws)"
    unfolding MarkCampaignCompleteEmpty_def by (rule e) (simp_all add: complete_empty_campaign_def)
qed (auto simp: state_io_rel_def inc_by_def finish_def settle_def keeps_starting_def starting_def GetCampaignStatus_def
    query_def call_def Let_def split: fault.split)

lemma Handle_start_starting:
  assumes "Data m = Some p"
  shows "state_io_rel (keeps_starting p cts) (Handle_start sz m)"
  unfolding Handle_start_def assms option.case
  by (intro starting_guar.guar_rules keeps_starting_parts)
section \<open>The chunk jobs of a start\<close>

fun chunk_payloads :: "CampaignStartPayload \<Rightarrow> nat \<Rightarrow> CampaignRecipientRow list list \<Rightarrow> CampaignChunkPayload list" where
  "chunk_payloads p i [] = []"
| "chunk_payloads p i (rows # rest) = chunk_payload p i rows # chunk_payloads p (Suc i) rest"

definition chunk_recipient :: "CampaignRecipientRow \<Rightarrow> CampaignChunkRecipient" where
  "chunk_recipient r = \<lparr>ccr_RecipientID = r_ID r, ccr_Email = r_Email r, ccr_Name = r_Name r\<rparr>"

lemma chunk_msgs_payloads: "map pm_Payload (chunk_msgs p i rowss) = map PCampaignChunk (chunk_payloads p i rowss)"
  by (induction p i rowss rule: chunk_payloads.induct) (simp_all add: chunk_msg_def)

lemma chunk_payloads_recipients: "concat (map cc_Recipients (chunk_payloads p i rowss)) = map chunk_recipient (concat rowss)"
  by (induction p i rowss rule: chunk_payloads.induct) (simp_all add: chunk_payload_def chunk_recipient_def)

lemma in_chunk_payloads: "c \<in> set (chunk_payloads p i rowss) \<Longrightarrow> \<exists>j. \<exists>rows \<in> set rowss. c = chunk_payload p j rows"
  by (induction p i rowss rule: chunk_payloads.induct) auto

lemma list_all2_concat: "list_all2 (list_all2 R) xss yss \<Longrightarrow> list_all2 R (concat xss) (concat yss)"
  by (induction rule: list_all2_induct) (auto intro: list_all2_appendI)

lemma find_unique_row:
  "distinct (map cr_id rs) \<Longrightarrow> r \<in> set rs \<Longrightarrow> find (this_recipient (cr_id r) (cr_workspace_id r)) rs = Some r"
  by (induction rs) (auto simp: this_recipient_def image_iff)

lemma row_by_id: "distinct (map cr_id rs) \<Longrightarrow> r \<in> set rs \<Longrightarrow> find (\<lambda>q. cr_id q = cr_id r) rs = Some r"
  by (induction rs) (auto simp: image_iff)

text \<open>The row a contact of a fresh campaign got, and what it says.\<close>

lemma stands_for_new:
  assumes "rows_ok p cts e n rs" and "distinct (map c_ID cts)" and "ct \<in> set cts" and "stands_for p rs ct row"
  shows "r_Email row = c_Email ct" and "r_Name row = c_Name ct" and "r_ID row \<in> range (uuids e)"
    and "find (this_recipient (r_ID row) (cs_WorkspaceID p)) rs \<noteq> None"
    and "cr_status (the (find (this_recipient (r_ID row) (cs_WorkspaceID p)) rs)) = ''queued''"
    and "cr_contact_id (the (find (\<lambda>q. cr_id q = r_ID row) rs)) = c_ID ct"
proof -
  obtain r where r: "r \<in> set rs" "cr_id r = r_ID row" "cr_campaign_id r = cs_CampaignID p" "cr_contact_id r = c_ID ct"
    "cr_email r = r_Email row" "coalesce (cr_name r) '''' = r_Name row"
    using assms(4) by (auto simp: stands_for_def row_key_def)
  have n: "new_row p cts e r" and d: "distinct (map cr_id rs)" using assms(1) r by (simp_all add: rows_ok_def)
  then obtain ct' where ct': "ct' \<in> set cts" "c_ID ct' = c_ID ct" "c_Email ct' = cr_email r" "cr_name r = Some (c_Name ct')"
    using r(4) by (auto simp: new_row_def)
  have "ct' = ct" using assms(2,3) ct'(1,2) by (auto simp: distinct_map inj_on_def)
  then show "r_Email row = c_Email ct" "r_Name row = c_Name ct" using ct' r by simp_all
  show "r_ID row \<in> range (uuids e)" using n r(2) by (simp add: new_row_def)
  have "find (this_recipient (r_ID row) (cs_WorkspaceID p)) rs = Some r"
    using find_unique_row [OF d r(1)] n r(2) by (simp add: new_row_def)
  then show "find (this_recipient (r_ID row) (cs_WorkspaceID p)) rs \<noteq> None"
    "cr_status (the (find (this_recipient (r_ID row) (cs_WorkspaceID p)) rs)) = ''queued''"
    using n by (simp_all add: new_row_def)
  show "cr_contact_id (the (find (\<lambda>q. cr_id q = r_ID row) rs)) = c_ID ct"
    using row_by_id [OF d r(1)] r(2,4) by simp
qed

lemma rows_stand_for:
  assumes "list_all2 (stands_for p rs) cts rows" and "rows_ok p cts e n rs" and "distinct (map c_ID cts)"
  shows "map r_Email rows = map c_Email cts" and "map r_Name rows = map c_Name cts" and "distinct (map r_ID rows)"
    and "\<forall>row \<in> set rows. r_ID row \<in> range (uuids e) \<and> find (this_recipient (r_ID row) (cs_WorkspaceID p)) rs \<noteq> None \<and>
      cr_status (the (find (this_recipient (r_ID row) (cs_WorkspaceID p)) rs)) = ''queued''"
proof -
  have l: "length cts = length rows" using assms(1) by (rule list_all2_lengthD)
  have s: "stands_for p rs (cts ! i) (rows ! i)" "cts ! i \<in> set cts" if "i < length rows" for i
    using that assms(1) l by (simp_all add: list_all2_nthD2)
  note new = stands_for_new [OF assms(2,3) s(2) s(1)]
  show "map r_Email rows = map c_Email cts" "map r_Name rows = map c_Name cts"
    using new(1,2) l by (simp_all add: list_eq_iff_nth_eq)
  have "map (\<lambda>i. cr_contact_id (the (find (\<lambda>q. cr_id q = i) rs))) (map r_ID rows) = map c_ID cts"
    using new(6) l by (simp add: list_eq_iff_nth_eq)
  then show "distinct (map r_ID rows)" using assms(3) by (metis distinct_map)
  show "\<forall>row \<in> set rows. r_ID row \<in> range (uuids e) \<and> find (this_recipient (r_ID row) (cs_WorkspaceID p)) rs \<noteq> None \<and>
      cr_status (the (find (this_recipient (r_ID row) (cs_WorkspaceID p)) rs)) = ''queued''"
    using new(3-5) by (auto simp: in_set_conv_nth)
qed
section \<open>Assumptions\<close>

text \<open>No infrastructure faults, no cancellation, and identifiers that are fresh and not empty.\<close>

definition sound_env :: "env \<Rightarrow> bool" where
  "sound_env e \<longleftrightarrow> reliable e \<and> (\<forall>k. \<not> cancelled e k) \<and> inj (uuids e) \<and> (\<forall>k. uuids e k \<noteq> '''' \<and> utf8_valid (uuids e k))"

definition mailable :: "contact_row list \<Rightarrow> bool" where
  "mailable cts \<longleftrightarrow> cts \<noteq> [] \<and> distinct (map id_text cts) \<and>
     (\<forall>c \<in> set cts. (\<exists>e. ct_email c = Some e \<and> e \<noteq> '''' \<and> utf8_valid e) \<and> utf8_valid (coalesce (ct_first_name c) ''''))"

definition fresh_campaign :: "CampaignStartPayload \<Rightarrow> world \<Rightarrow> bool" where
  "fresh_campaign p w \<longleftrightarrow>
     (\<exists>r. find_campaign (db w) (cs_CampaignID p) (cs_WorkspaceID p) = Some r \<and> status_in (cp_status r) [''queued'', ''sending''] \<and>
        cp_sent_count r = 0 \<and> cp_failed_count r = 0 \<and> cp_completed_at r = None) \<and>
     (\<forall>r \<in> set (campaign_recipients (db w)). cr_campaign_id r \<noteq> cs_CampaignID p \<and> (\<forall>k \<ge> uuid_next w. cr_id r \<noteq> uuids (env w) k)) \<and>
     distinct (map cr_id (campaign_recipients (db w)))"

section \<open>Deliveries\<close>

text \<open>
  \<open>(i, k)\<close> is the delivery of job \<open>i\<close> with attempt number \<open>k\<close>: its JSON is decoded and given to the chunk
  handler. \<open>acknowledged\<close> lists the jobs that were acknowledged on the way.
\<close>

definition deliver_job :: "EmailHandler \<Rightarrow> pubmsg list \<Rightarrow> nat \<times> nat option \<Rightarrow> world \<Rightarrow> world" where
  "deliver_job h jobs d w =
     snd (run_state (dispatch (Handle_chunk h) (receive_chunk (Marshal (pm_Payload (jobs ! fst d))) (snd d))) w)"

primrec acknowledged :: "EmailHandler \<Rightarrow> pubmsg list \<Rightarrow> (nat \<times> nat option) list \<Rightarrow> world \<Rightarrow> nat list" where
  "acknowledged h jobs [] w = []"
| "acknowledged h jobs (d # ds) w =
     (let w' = deliver_job h jobs d w in (if last (settled w') = Ack then [fst d] else []) @ acknowledged h jobs ds w')"

text \<open>What the jobs of a campaign have in common.\<close>

definition campaign_jobs :: "CampaignChunkPayload \<Rightarrow> CampaignChunkRecipient list \<Rightarrow> CampaignChunkPayload list \<Rightarrow> bool" where
  "campaign_jobs c0 all cs \<longleftrightarrow> all = concat (map cc_Recipients cs) \<and>
     (\<forall>c \<in> set cs. same_campaign c0 c \<and> validateCampaignChunk c = None \<and> CampaignChunkPayload_ok c)"

lemma deliver_job_done:
  assumes "campaign_jobs c0 all cs" and "map pm_Payload jobs = map PCampaignChunk cs" and "fst d < length jobs"
    and "reliable (env w0)" and "accepting h (env w0)" and "distinct (map ccr_RecipientID all)" and "all \<noteq> []"
    and "books_open c0 all w0 w" and "(case snd d of None \<Rightarrow> 1 | Some k \<Rightarrow> k) < MaxAttempts"
  shows "books_open c0 all w0 (deliver_job h jobs d w)" and "progressed c0 all w (deliver_job h jobs d w)"
    and "last (settled (deliver_job h jobs d w)) = Ack \<Longrightarrow>
      \<forall>r \<in> set (cc_Recipients (cs ! fst d)). rstat c0 r (deliver_job h jobs d w) = ''sent''"
proof -
  let ?c = "cs ! fst d"
  have l: "length cs = length jobs" using assms(2) by (metis length_map)
  then have c: "?c \<in> set cs" using assms(3) by simp
  then have s: "same_campaign c0 ?c" "validateCampaignChunk ?c = None" "CampaignChunkPayload_ok ?c"
    "set (cc_Recipients ?c) \<subseteq> set all"
    using assms(1) by (auto simp: campaign_jobs_def)
  have "map pm_Payload jobs ! fst d = map PCampaignChunk cs ! fst d" using assms(2) by simp
  then have "pm_Payload (jobs ! fst d) = PCampaignChunk ?c" using assms(3) l by simp
  then have m: "receive_chunk (Marshal (pm_Payload (jobs ! fst d))) (snd d) = \<lparr>Data = Some ?c, NumDelivered = snd d\<rparr>"
    using campaign_chunk_codec.received [OF s(3)] by simp
  have "books_open ?c all w0 w" using assms(8) ledger_same [OF s(1)] by (simp add: books_open_def)
  then have "wp (Handle_chunk h \<lparr>Data = Some ?c, NumDelivered = snd d\<rparr>) (\<lambda>_. chunk_done ?c all w0 w) w"
    using assms(4-7,9) s by (intro Handle_chunk_ledger) (simp_all add: attempt_of_def)
  then have "chunk_done ?c all w0 w (deliver_job h jobs d w)"
    by (simp add: deliver_job_def m chunk.dispatch_is_handler wp_def)
  then have
    k: "books_open ?c all w0 (deliver_job h jobs d w)" "progressed ?c all w (deliver_job h jobs d w)"
       "last (settled (deliver_job h jobs d w)) = Ack \<longrightarrow> (\<forall>r \<in> set (cc_Recipients ?c). rstat ?c r (deliver_job h jobs d w) = ''sent'')"
    by (simp_all add: chunk_done_def)
  show "books_open c0 all w0 (deliver_job h jobs d w)"
    using k(1) ledger_same [OF s(1)] by (simp add: books_open_def)
  show "progressed c0 all w (deliver_job h jobs d w)"
    using k(2) ledger_same(3) [OF s(1)] by simp
  show "\<forall>r \<in> set (cc_Recipients (cs ! fst d)). rstat c0 r (deliver_job h jobs d w) = ''sent''"
    if "last (settled (deliver_job h jobs d w)) = Ack"
    using k(3) that rstat_same [OF s(1)] by simp
qed
lemma deliveries:
  assumes "campaign_jobs c0 all cs" and "map pm_Payload jobs = map PCampaignChunk cs"
    and "reliable (env w0)" and "accepting h (env w0)" and "distinct (map ccr_RecipientID all)" and "all \<noteq> []"
    and "books_open c0 all w0 w"
    and "\<forall>d \<in> set ds. fst d < length jobs \<and> (case snd d of None \<Rightarrow> 1 | Some k \<Rightarrow> k) < MaxAttempts"
  shows "books_open c0 all w0 (fold (deliver_job h jobs) ds w) \<and> progressed c0 all w (fold (deliver_job h jobs) ds w) \<and>
    (\<forall>i \<in> set (acknowledged h jobs ds w). \<forall>r \<in> set (cc_Recipients (cs ! i)).
       rstat c0 r (fold (deliver_job h jobs) ds w) = ''sent'')"
  using assms(7,8)
proof (induction ds arbitrary: w)
  case Nil
  then show ?case by (simp add: progressed_refl)
next
  case (Cons d ds)
  let ?w1 = "deliver_job h jobs d w"
  let ?w2 = "fold (deliver_job h jobs) ds ?w1"
  have d: "fst d < length jobs" "(case snd d of None \<Rightarrow> 1 | Some k \<Rightarrow> k) < MaxAttempts"
    using Cons.prems(2) by simp_all
  note one = deliver_job_done [OF assms(1,2) d(1) assms(3-6) Cons.prems(1) d(2)]
  have IH: "books_open c0 all w0 ?w2" "progressed c0 all ?w1 ?w2"
    "\<forall>i \<in> set (acknowledged h jobs ds ?w1). \<forall>r \<in> set (cc_Recipients (cs ! i)). rstat c0 r ?w2 = ''sent''"
    using Cons.IH [OF one(1)] Cons.prems(2) by simp_all
  have "fst d < length cs" using d(1) assms(2) by (metis length_map)
  then have "cs ! fst d \<in> set cs" by simp
  then have sub: "set (cc_Recipients (cs ! fst d)) \<subseteq> set all"
    using assms(1) by (auto simp: campaign_jobs_def)
  have "\<forall>r \<in> set (cc_Recipients (cs ! fst d)). rstat c0 r ?w2 = ''sent''" if "last (settled ?w1) = Ack"
    using one(3) [OF that] IH(2) sub by (auto simp: progressed_def)
  then show ?case
    using IH progressed_trans [OF one(2) IH(2)] by (auto simp: Let_def)
qed

section \<open>The start opens the books\<close>

lemma follows_more: "follows rs s \<Longrightarrow> follows rs (s @ t)"
  by (induction rs s rule: follows.induct) auto

lemma utf8_valid_append: "utf8_valid s \<Longrightarrow> utf8_valid t \<Longrightarrow> utf8_valid (s @ t)"
proof (induction s rule: utf8_valid.induct)
  case 1
  then show ?case by simp
next
  case (2 c s)
  then obtain n where n: "rune_rest c s = Some n" "utf8_valid (drop n s)" by (auto split: option.splits)
  then obtain rs where rs: "rune_tails c = Some rs" "follows rs s" "n = length rs"
    by (auto simp: rune_rest_def split: option.splits if_splits)
  then have "rune_rest c (s @ t) = Some n" using follows_more by (simp add: rune_rest_def)
  moreover have "drop n (s @ t) = drop n s @ t" using follows_length [OF rs(2)] rs(3) by simp
  ultimately show ?case using 2 n by simp
qed

lemma utf8_chunk_id: "utf8_valid cid \<Longrightarrow> utf8_valid (chunk_id cid i)"
proof -
  have "list_all (between 0 127) (show_nat i)"
    using show_nat_digits [of i] by (auto simp: list_all_iff is_digit_def between_def less_eq_char_def)
  then have "utf8_valid (show_nat i)" by (rule utf8_valid_ascii)
  moreover have "utf8_valid ''-chunk-''" by (simp add: rune_rest_def rune_tails_def between_def)
  ultimately show "utf8_valid cid \<Longrightarrow> utf8_valid (chunk_id cid i)"
    unfolding chunk_id_def by (intro utf8_valid_append)
qed

lemma first_incomplete_none:
  "\<forall>r \<in> set rs. ccr_RecipientID r \<noteq> '''' \<and> ccr_Email r \<noteq> '''' \<Longrightarrow> first_incomplete i rs = None"
  by (induction rs arbitrary: i) auto

lemma chunk_payload_good:
  assumes "validateCampaignStart p = None" and "CampaignStartPayload_ok p" and "rows \<noteq> []"
    and "\<forall>row \<in> set rows. r_ID row \<noteq> '''' \<and> utf8_valid (r_ID row) \<and> r_Email row \<noteq> '''' \<and> utf8_valid (r_Email row) \<and>
      utf8_valid (r_Name row)"
  shows "validateCampaignChunk (chunk_payload p i rows) = None" and "CampaignChunkPayload_ok (chunk_payload p i rows)"
proof -
  have none: "first_incomplete 0 (map chunk_recipient rows) = None"
    using assms(4) by (intro first_incomplete_none) (auto simp: chunk_recipient_def)
  have "chunk_id (cs_CampaignID p) i \<noteq> ''''" by (simp add: chunk_id_def)
  then show "validateCampaignChunk (chunk_payload p i rows) = None"
    using assms(1,3) none [unfolded chunk_recipient_def] by (auto simp: validateCampaignChunk_def chunk_payload_def validateCampaignStart_def split: if_splits)
  show "CampaignChunkPayload_ok (chunk_payload p i rows)"
    using assms utf8_chunk_id [of "cs_CampaignID p" i]
    by (simp add: CampaignChunkPayload_ok_def CampaignStartPayload_ok_def chunk_payload_def list_all_iff CampaignChunkRecipient_ok_def)
qed
lemma Handle_start_frame:
  "preserves env (Handle_start sz m)" "preserves mail (Handle_start sz m)"
  unfolding Handle_start_def by (intro frame; simp)+

text \<open>A chunk of a campaign, as a name for it.\<close>

abbreviation campaign_of :: "CampaignStartPayload \<Rightarrow> CampaignChunkPayload" where
  "campaign_of p \<equiv> chunk_payload p 0 []"

lemma same_campaign_chunk: "same_campaign (campaign_of p) (chunk_payload p i rows)"
  by (simp add: same_campaign_def chunk_payload_def)

lemma tally_open:
  assumes "find_campaign (db w) (cs_CampaignID p) (cs_WorkspaceID p) = Some r" and "cp_total_recipients r = int (length rows)"
    and "cp_failed_count r = 0" and "cp_sent_count r = 0" and "cp_completed_at r = None" and "length rows \<noteq> 0"
  shows "tally (campaign_of p) (map chunk_recipient rows) 0 w"
  using assms by (simp add: tally_def chunk_payload_def)

lemma list_all2_nonempty:
  "list_all2 (list_all2 R) xss yss \<Longrightarrow> \<forall>xs \<in> set xss. xs \<noteq> [] \<Longrightarrow> \<forall>ys \<in> set yss. ys \<noteq> []"
  by (induction rule: list_all2_induct) auto

lemma start_rows:
  assumes "sound_env (env w)" and "0 < sz" and "Data m = Some p" and "validateCampaignStart p = None"
    and "fresh_campaign p w" and "cts = segment_contacts (cs_WorkspaceID p) (cs_SegmentID p) (db w)" and "mailable cts"
  shows "wp (Handle_start sz m) (\<lambda>_ w'. \<exists>rowss. published w' = published w @ chunk_msgs p 0 rowss \<and>
     (\<forall>rows \<in> set rowss. rows \<noteq> []) \<and>
     list_all2 (stands_for p (campaign_recipients (db w'))) (map contact_of cts) (concat rowss) \<and>
     rows_ok p (map contact_of cts) (env w) (uuid_next w') (campaign_recipients (db w')) \<and> tally (campaign_of p) (map chunk_recipient (concat rowss)) 0 w' \<and>
     env w' = env w \<and> mail w' = mail w) w"
proof -
  obtain r where r: "find_campaign (db w) (cs_CampaignID p) (cs_WorkspaceID p) = Some r"
    "status_in (cp_status r) [''queued'', ''sending'']" "cp_sent_count r = 0" "cp_failed_count r = 0" "cp_completed_at r = None"
    using assms(5) by (auto simp: fresh_campaign_def)
  have "starting p (map contact_of cts) w"
    using assms(1,5,6) by (auto simp: starting_def sound_env_def fresh_campaign_def rows_ok_def)
  then have s: "wp (Handle_start sz m) (\<lambda>_. starting p (map contact_of cts)) w"
    using Handle_start_starting [OF assms(3), of "map contact_of cts" sz]
    by (auto simp: state_io_rel_def wp_def keeps_starting_def)
  have c: "wp (Handle_start sz m) (\<lambda>_ w'. covers p sz 0 (map contact_of cts) w w' \<and>
      (\<exists>r'. find_campaign (db w') (cs_CampaignID p) (cs_WorkspaceID p) = Some r' \<and> cp_status r' = ''sending'' \<and>
         cp_total_recipients r' = int (length cts) \<and> same_counts r r')) w"
    using assms(1,7) by (intro wp_mono [OF Handle_start_covers [OF _ _ assms(2-4) r(1,2) assms(6)]])
      (auto simp: sound_env_def mailable_def)
  show ?thesis
  proof (rule wp_mono [OF wp_conj [OF s wp_conj [OF c wp_conj [OF preserves_wp [OF Handle_start_frame(1)]
      preserves_wp [OF Handle_start_frame(2)]]]]], elim conjE exE)
    fix x :: hresult and w' :: world and r'
    assume a: "starting p (map contact_of cts) w'" "covers p sz 0 (map contact_of cts) w w'"
      "find_campaign (db w') (cs_CampaignID p) (cs_WorkspaceID p) = Some r'" "cp_status r' = ''sending''"
      "cp_total_recipients r' = int (length cts)" "same_counts r r'" "env w' = env w" "mail w' = mail w"
    obtain rowss where q: "published w' = published w @ chunk_msgs p 0 rowss"
      "list_all2 (list_all2 (stands_for p (campaign_recipients (db w')))) (chunks sz (map contact_of cts)) rowss"
      using a(2) by (auto simp: covers_def)
    have "\<forall>rows \<in> set rowss. rows \<noteq> []"
      using list_all2_nonempty [OF q(2)] chunks_sizes by blast
    moreover have l: "list_all2 (stands_for p (campaign_recipients (db w'))) (map contact_of cts) (concat rowss)"
      using list_all2_concat [OF q(2)] concat_chunks [OF assms(2), of "map contact_of cts"] by simp
    moreover have "tally (campaign_of p) (map chunk_recipient (concat rowss)) 0 w'"
      using list_all2_lengthD [OF l, symmetric] a(5,6) r(3-5) assms(7)
      by (intro tally_open [OF a(3)]) (simp_all only: same_counts_def mailable_def length_map length_0_conv not_False_eq_True)
    ultimately show "\<exists>rowss. published w' = published w @ chunk_msgs p 0 rowss \<and> (\<forall>rows \<in> set rowss. rows \<noteq> []) \<and>
       list_all2 (stands_for p (campaign_recipients (db w'))) (map contact_of cts) (concat rowss) \<and>
       rows_ok p (map contact_of cts) (env w) (uuid_next w') (campaign_recipients (db w')) \<and> tally (campaign_of p) (map chunk_recipient (concat rowss)) 0 w' \<and>
       env w' = env w \<and> mail w' = mail w"
      using q(1) a(1,7,8) by (auto simp: starting_def)
  qed
qed
text \<open>What the recipients and the jobs of a started campaign are.\<close>

lemma start_opens_books:
  assumes "sound_env (env w)" and "0 < sz" and "Data m = Some p" and "validateCampaignStart p = None"
    and "CampaignStartPayload_ok p" and "fresh_campaign p w"
    and "cts = segment_contacts (cs_WorkspaceID p) (cs_SegmentID p) (db w)" and "mailable cts"
  shows "wp (Handle_start sz m) (\<lambda>_ w'. \<exists>jobs cs all. published w' = published w @ jobs \<and>
     map pm_Payload jobs = map PCampaignChunk cs \<and> campaign_jobs (campaign_of p) all cs \<and>
     distinct (map ccr_RecipientID all) \<and> all \<noteq> [] \<and> map ccr_Email all = map (\<lambda>c. the (ct_email c)) cts \<and>
     books_open (campaign_of p) all w w') w"
proof (rule wp_mono [OF start_rows [OF assms(1-4,6-8)]], elim exE conjE)
  fix x :: hresult and w' :: world and rowss
  assume q: "published w' = published w @ chunk_msgs p 0 rowss" "\<forall>rows \<in> set rowss. rows \<noteq> []"
    "list_all2 (stands_for p (campaign_recipients (db w'))) (map contact_of cts) (concat rowss)"
    "rows_ok p (map contact_of cts) (env w) (uuid_next w') (campaign_recipients (db w'))"
    "tally (campaign_of p) (map chunk_recipient (concat rowss)) 0 w'" "env w' = env w" "mail w' = mail w"
  let ?all = "map chunk_recipient (concat rowss)"
  let ?cs = "chunk_payloads p 0 rowss"
  have "distinct (map c_ID (map contact_of cts))"
    using assms(8) by (simp add: mailable_def contact_of_def comp_def)
  note st = rows_stand_for [OF q(3,4) this]
  have e: "map r_Email (concat rowss) = map (\<lambda>c. the (ct_email c)) cts"
    and n: "map r_Name (concat rowss) = map (\<lambda>c. coalesce (ct_first_name c) '''') cts"
    using st(1,2) by (simp_all add: contact_of_def comp_def)
  have ids: "r_ID row \<noteq> '''' \<and> utf8_valid (r_ID row)" if "row \<in> set (concat rowss)" for row
    using st(4) that assms(1) by (fastforce simp: sound_env_def)
  have texts: "r_Email row \<noteq> '''' \<and> utf8_valid (r_Email row) \<and> utf8_valid (r_Name row)" if "row \<in> set (concat rowss)" for row
  proof -
    have "r_Email row \<in> set (map r_Email (concat rowss))" "r_Name row \<in> set (map r_Name (concat rowss))"
      using that by simp_all
    then show ?thesis unfolding e n using assms(8) by (force simp: mailable_def)
  qed
  have good: "validateCampaignChunk c = None \<and> CampaignChunkPayload_ok c \<and> same_campaign (campaign_of p) c" if "c \<in> set ?cs" for c
  proof -
    obtain j rows where "rows \<in> set rowss" "c = chunk_payload p j rows" using in_chunk_payloads [OF \<open>c \<in> set ?cs\<close>] by blast
    then show ?thesis
      using chunk_payload_good [OF assms(4,5), of rows j] q(2) ids texts same_campaign_chunk by auto
  qed
  have jobs: "campaign_jobs (campaign_of p) ?all ?cs"
    using good chunk_payloads_recipients [of p 0 rowss] by (simp add: campaign_jobs_def)
  have queued: "rstat (campaign_of p) r w' = ''queued''" if r: "r \<in> set ?all" for r
    using r st(4) by (force simp: rstat_def recipient_status_def chunk_payload_def chunk_recipient_def split: option.split)
  have "delivered (campaign_of p) ?all w' = []"
    using queued by (auto simp: delivered_def filter_empty_conv)
  moreover have "ledger (campaign_of p) ?all w w'"
    using queued q(6,7) calculation by (simp add: ledger_def pending_def status_in_def)
  ultimately have "books_open (campaign_of p) ?all w w'"
    using q(5) by (simp add: books_open_def)
  moreover have "map ccr_Email ?all = map (\<lambda>c. the (ct_email c)) cts" "map ccr_RecipientID ?all = map r_ID (concat rowss)"
    using e by (simp_all add: chunk_recipient_def comp_def)
  moreover have "distinct (map ccr_RecipientID ?all)" unfolding calculation(3) by (rule st(3))
  moreover have "?all \<noteq> []"
    using arg_cong [OF e, of length] assms(8) unfolding mailable_def by (metis length_0_conv length_map)
  ultimately show "\<exists>jobs cs all. published w' = published w @ jobs \<and>
     map pm_Payload jobs = map PCampaignChunk cs \<and> campaign_jobs (campaign_of p) all cs \<and>
     distinct (map ccr_RecipientID all) \<and> all \<noteq> [] \<and> map ccr_Email all = map (\<lambda>c. the (ct_email c)) cts \<and>
     books_open (campaign_of p) all w w'"
    using q(1) chunk_msgs_payloads [of p 0 rowss] jobs by blast
qed

lemma books_mail:
  assumes "books_open c all w0 w"
  shows "mset (map msg_To (mail w)) \<subseteq># mset (map msg_To (mail w0)) + mset (map (\<lambda>r. [ccr_Email r]) all)"
proof -
  have "mset (delivered c all w) \<subseteq># mset all" by (simp add: delivered_def multiset_filter_subset)
  from image_mset_subseteq_mono [OF this] show ?thesis
    using assms by (simp add: books_open_def ledger_def)
qed

lemma books_closed:
  assumes "books_open c all w0 w" and "\<forall>r \<in> set all. rstat c r w = ''sent''"
  shows "mset (map msg_To (mail w)) = mset (map msg_To (mail w0)) + mset (map (\<lambda>r. [ccr_Email r]) all)"
    and "\<exists>r. find_campaign (db w) (cc_CampaignID c) (cc_WorkspaceID c) = Some r \<and> cp_status r = ''completed'' \<and>
      cp_sent_count r = int (length all) \<and> cp_failed_count r = 0"
proof -
  have "delivered c all w = all" using assms(2) by (simp add: delivered_def)
  then show "mset (map msg_To (mail w)) = mset (map msg_To (mail w0)) + mset (map (\<lambda>r. [ccr_Email r]) all)"
    and "\<exists>r. find_campaign (db w) (cc_CampaignID c) (cc_WorkspaceID c) = Some r \<and> cp_status r = ''completed'' \<and>
      cp_sent_count r = int (length all) \<and> cp_failed_count r = 0"
    using assms(1) by (auto simp: books_open_def ledger_def tally_def)
qed
lemma all_acknowledged:
  assumes "campaign_jobs c0 all cs" and "{..<length cs} \<subseteq> S" and "\<forall>i \<in> S. \<forall>r \<in> set (cc_Recipients (cs ! i)). P r"
  shows "\<forall>r \<in> set all. P r"
  using assms by (fastforce simp: campaign_jobs_def in_set_conv_nth)

section \<open>Properties\<close>

text \<open>
  Claim C3. A campaign from start to end. Take a valid start job of a fresh campaign, without
  infrastructure faults and with an SES that fails only for the moment. The handler publishes chunk jobs;
  once it has returned, deliver them through JSON to the chunk handler one at a time, in any order, each any
  number of times (a redelivery, a duplicate of JetStream), below the last attempt. At every moment the mail
  sent is a part of one mail to each eligible contact of the segment; and once every job has been
  acknowledged it is exactly that, and the campaign's row says \<^verbatim>\<open>completed\<close> with the right counts. Claims C34, C39 and
  C40 show what becomes of a campaign where deliveries overlap, SES rejects for good, or a chunk is handled too early.
\<close>

theorem campaign_end_to_end:
  assumes "sound_env (env w)" and "accepting h (env w)" and "0 < sz" and "Data m = Some p"
    and "validateCampaignStart p = None" and "CampaignStartPayload_ok p" and "fresh_campaign p w"
    and "cts = segment_contacts (cs_WorkspaceID p) (cs_SegmentID p) (db w)" and "mailable cts"
    and "w1 = snd (run_state (Handle_start sz m) w)" and "jobs = drop (length (published w)) (published w1)"
    and "\<forall>d \<in> set ds. fst d < length jobs \<and> (case snd d of None \<Rightarrow> 1 | Some k \<Rightarrow> k) < MaxAttempts"
    and "w2 = fold (deliver_job h jobs) ds w1" and "due_mail = mset (map msg_To (mail w)) + mset (map (\<lambda>c. [the (ct_email c)]) cts)"
  shows "mset (map msg_To (mail w2)) \<subseteq># due_mail \<and>
    ({..<length jobs} \<subseteq> set (acknowledged h jobs ds w1) \<longrightarrow> mset (map msg_To (mail w2)) = due_mail \<and>
      (\<exists>r. find_campaign (db w2) (cs_CampaignID p) (cs_WorkspaceID p) = Some r \<and> cp_status r = ''completed'' \<and>
         cp_sent_count r = int (length cts) \<and> cp_failed_count r = 0))"
proof -
  obtain jobs' cs all where s: "published w1 = published w @ jobs'" "map pm_Payload jobs' = map PCampaignChunk cs"
    "campaign_jobs (campaign_of p) all cs" "distinct (map ccr_RecipientID all)" "all \<noteq> []"
    "map ccr_Email all = map (\<lambda>c. the (ct_email c)) cts" "books_open (campaign_of p) all w w1"
    using start_opens_books [OF assms(1,3-9)] assms(10) by (auto simp: wp_def)
  have j: "jobs' = jobs" using s(1) assms(11) by simp
  have rel: "reliable (env w)" using assms(1) by (simp add: sound_env_def)
  note d = deliveries [OF s(3) s(2) [unfolded j] rel assms(2) s(4,5,7) assms(12), folded assms(13)]
  have to: "map (\<lambda>r. [ccr_Email r]) all = map (\<lambda>c. [the (ct_email c)]) cts"
    using arg_cong [OF s(6), of "map (\<lambda>e. [e])"] by (simp add: comp_def)
  have n: "length jobs = length cs" "length all = length cts"
    using arg_cong [OF s(2), of length] arg_cong [OF s(6), of length] j by simp_all
  have "mset (map msg_To (mail w2)) \<subseteq># due_mail"
    using books_mail [of "campaign_of p" all w w2] d to assms(14) by simp
  moreover have "\<forall>r \<in> set all. rstat (campaign_of p) r w2 = ''sent''" if "{..<length jobs} \<subseteq> set (acknowledged h jobs ds w1)"
    using all_acknowledged [OF s(3) that [unfolded n]] d by blast
  ultimately show ?thesis
    using books_closed [of "campaign_of p" all w w2] d to n(2) assms(14) by (simp add: chunk_payload_def)
qed
definition pair_world :: world where
  "pair_world = quiet_world\<lparr>db := empty_pg\<lparr>
     contacts := [sample_contact CHR ''a'' (Some ''a@x''), sample_contact CHR ''k'' (Some ''k@x'')],
     segment_memberships := map (\<lambda>i. \<lparr>sm_segment_id = ''g'', sm_workspace_id = ''w'', sm_contact_id = i, sm_created_at = 0\<rparr>)
       [''a'', ''k''],
     campaigns := [sample_campaign ''queued'']\<rparr>\<rparr>"

definition pair_started :: world where
  "pair_started = snd (run_state (Handle_start 2 \<lparr>Data = Some sample_start, NumDelivered = Some 1\<rparr>) pair_world)"

definition pair_chunk :: CampaignChunkPayload where
  "pair_chunk = \<lparr>cc_CampaignID = ''c'', cc_WorkspaceID = ''w'', cc_ChunkID = ''c-chunk-0'',
     cc_Sender = \<lparr>addr_Email = ''s'', addr_Name = ''''\<rparr>, cc_ReplyTo = '''', cc_Subject = ''x'', cc_HTML = '''', cc_Text = ''t'',
     cc_Recipients = map (\<lambda>(r, e). \<lparr>ccr_RecipientID = r, ccr_Email = e, ccr_Name = ''''\<rparr>) [(''u'', ''a@x''), (''uu'', ''k@x'')]\<rparr>"

definition pair_job :: pubmsg where
  "pair_job = \<lparr>pm_Subject = SubjectCampaignChunk, pm_Payload = PCampaignChunk pair_chunk, pm_MsgID = ''c-chunk-0''\<rparr>"

lemma pair_published: "drop (length (published pair_world)) (published pair_started) = [pair_job]"
  by code_simp

lemma pair_first_ack:
  "last (settled (deliver_chunk (NewHandler (NewTokenBucket 14)) \<lparr>Data = Some pair_chunk, NumDelivered = Some 1\<rparr> pair_started)) = Ack"
  by code_simp

lemma pair_acknowledged: "0 \<in> set (acknowledged (NewHandler (NewTokenBucket 14)) [pair_job] [(0, Some 1), (0, None)] pair_started)"
proof -
  have "CampaignChunkPayload_ok pair_chunk"
    by (simp add: pair_chunk_def CampaignChunkPayload_ok_def CampaignChunkRecipient_ok_def EmailAddress_ok_def
        rune_rest_def rune_tails_def between_def)
  then have "deliver_job h [pair_job] (0, Some 1) w = deliver_chunk h \<lparr>Data = Some pair_chunk, NumDelivered = Some 1\<rparr> w" for h w
    by (simp add: deliver_job_def deliver_chunk_def pair_job_def campaign_chunk_codec.received)
  then show ?thesis using pair_first_ack by simp
qed

lemma pair_world_simps:
  "env pair_world = quiet_env" "mail pair_world = []" "uuid_next pair_world = 0" "campaign_recipients (db pair_world) = []"
  "find_campaign (db pair_world) (cs_CampaignID sample_start) (cs_WorkspaceID sample_start) = Some (sample_campaign ''queued'')"
  by (simp_all add: pair_world_def quiet_world_def empty_pg_def sample_start_def find_campaign_def this_campaign_def sample_campaign_def)

lemma pair_world_contacts:
  "segment_contacts (cs_WorkspaceID sample_start) (cs_SegmentID sample_start) (db pair_world) =
     [sample_contact CHR ''a'' (Some ''a@x''), sample_contact CHR ''k'' (Some ''k@x'')]"
  by (simp add: segment_contacts_def eligible_def sample_start_def pair_world_def sample_contact_def id_text_def
      less_eq_char_def less_char_def)

lemma sound_quiet: "sound_env quiet_env"
proof -
  have "utf8_valid (replicate n (CHR ''u''))" for n
    by (rule utf8_valid_ascii) (simp add: list_all_iff between_def)
  then show ?thesis by (auto simp: sound_env_def quiet_env_def reliable_def inj_def simp del: replicate.simps)
qed

text \<open>The one chunk job, delivered twice: both contacts have one mail each and the campaign is complete.\<close>

lemma campaign_end_to_end_witness:
  "let w2 = fold (deliver_job (NewHandler (NewTokenBucket 14)) [pair_job]) [(0, Some 1), (0, None)] pair_started in
    mset (map msg_To (mail w2)) = mset [[''a@x''], [''k@x'']] \<and>
      (\<exists>r. find_campaign (db w2) ''c'' ''w'' = Some r \<and> cp_status r = ''completed'' \<and> cp_sent_count r = 2 \<and> cp_failed_count r = 0)"
proof -
  let ?h = "NewHandler (NewTokenBucket 14)"
  let ?cts = "[sample_contact CHR ''a'' (Some ''a@x''), sample_contact CHR ''k'' (Some ''k@x'')]"
  have f: "fresh_campaign sample_start pair_world"
    by (simp add: fresh_campaign_def pair_world_simps sample_campaign_def)
  have m: "mailable ?cts"
    by (simp add: mailable_def sample_contact_def id_text_def rune_rest_def rune_tails_def between_def)
  have v: "validateCampaignStart sample_start = None" "CampaignStartPayload_ok sample_start"
    by (simp_all add: sample_start_def validateCampaignStart_def CampaignStartPayload_ok_def EmailAddress_ok_def
        rune_rest_def rune_tails_def between_def)
  have a: "accepting ?h (env pair_world)" by (simp add: accepting_def pair_world_simps)
  have e: "sound_env (env pair_world)" by (simp add: pair_world_simps sound_quiet)
  have s: "mset (map msg_To (mail pair_world)) + mset (map (\<lambda>c. [the (ct_email c)]) ?cts) = mset [[''a@x''], [''k@x'']]"
    by (simp add: pair_world_simps sample_contact_def)
  have d: "\<forall>d \<in> set [(0, Some 1), (0, None)]. fst d < length [pair_job] \<and> (case snd d of None \<Rightarrow> 1 | Some k \<Rightarrow> k) < MaxAttempts"
    by (simp add: MaxAttempts_def)
  note t = campaign_end_to_end [OF e a _ _ v f pair_world_contacts [symmetric] m pair_started_def pair_published [symmetric] d refl s [symmetric]]
  have "{..<length [pair_job]} \<subseteq> set (acknowledged ?h [pair_job] [(0, Some 1), (0, None)] pair_started)"
    using pair_acknowledged by (auto simp del: acknowledged.simps)
  with t show ?thesis by (simp add: Let_def sample_start_def del: acknowledged.simps)
qed

end
