(* ===== verification/Domains.thy ===== *)
theory Domains
  imports Messaging PgDelivery GoTime
begin

text \<open>
  Domain verification: the poller (\<^verbatim>\<open>internal/worker/ses/handler.go\<close>) and the scheduler that
  expires abandoned verifications (\<^verbatim>\<open>internal/worker/ses/cleanup_scheduler.go\<close>).
\<close>

section \<open>The poller\<close>

definition DomainRetryDelays :: "int list" where
  "DomainRetryDelays = [5 * Minute, 10 * Minute, 15 * Minute, 30 * Minute, 1 * Hour, 2 * Hour, 6 * Hour,
     12 * Hour, 24 * Hour]"

definition PollInterval :: int where
  "PollInterval = 30 * Second"

definition ReminderAfterAttempt :: nat where
  "ReminderAfterAttempt = 3"

definition domain_nextDelay :: "int \<Rightarrow> int" where
  "domain_nextDelay attempt =
     (let idx = attempt - 1;
          idx = (if idx < 0 then 0 else idx);
          idx = (if idx \<ge> int (length DomainRetryDelays) then int (length DomainRetryDelays) - 1 else idx)
      in DomainRetryDelays ! nat idx)"

definition publishEvent :: "string \<Rightarrow> (string \<times> json) list \<Rightarrow> (world, unit) state" where
  "publishEvent subject payload = do {
     _ \<leftarrow> Publish subject (PMap payload) '''';
     State_Monad.return ()
   }"

definition domain_fields :: "DomainVerifyPayload \<Rightarrow> (string \<times> json) list" where
  "domain_fields p = [(''domainId'', JStr (dv_DomainID p)), (''workspaceId'', JStr (dv_WorkspaceID p)),
     (''domain'', JStr (dv_Domain p))]"

text \<open>The switch on the status that SES reports.\<close>

definition settle_verification ::
    "DomainVerifyPayload \<Rightarrow> nat \<Rightarrow> VerificationStatus \<Rightarrow> (world, hresult) state" where
  "settle_verification p attempt status =
     (case status of
        StatusVerified \<Rightarrow> do {
          r \<leftarrow> UpdateDomainVerified (dv_DomainID p) (dv_WorkspaceID p);
          case r of
            Inl e \<Rightarrow> finish (NakWithDelay PollInterval)
          | Inr _ \<Rightarrow> do {
              inc ''domain_verification_success_total'';
              publishEvent ''domain.verified.v1'' (domain_fields p);
              finish Ack
            }
        }
      | StatusPending \<Rightarrow> do {
          r \<leftarrow> UpdateDomainPending (dv_DomainID p) (dv_WorkspaceID p) attempt;
          case r of
            Inl e \<Rightarrow> finish (NakWithDelay PollInterval)
          | Inr _ \<Rightarrow> do {
              inc ''domain_verification_retries_total'';
              (if attempt = ReminderAfterAttempt
               then publishEvent ''domain.verification.reminder.v1''
                      (domain_fields p @ [(''attempt'', JNum (int attempt) 0)])
               else State_Monad.return ());
              finish (NakWithDelay (domain_nextDelay (int attempt)))
            }
        }
      | StatusFailed \<Rightarrow> do {
          r \<leftarrow> UpdateDomainFailed (dv_DomainID p) (dv_WorkspaceID p) attempt;
          case r of
            Inl e \<Rightarrow> finish (NakWithDelay PollInterval)
          | Inr _ \<Rightarrow> do {
              inc ''domain_verification_failure_total'';
              finish Ack
            }
        })"

definition Handle_domain :: "DomainVerifyPayload message \<Rightarrow> (world, hresult) state" where
  "Handle_domain msg =
     (case Data msg of
        None \<Rightarrow> finish Term
      | Some p \<Rightarrow>
          if dv_DomainID p = '''' \<or> dv_WorkspaceID p = '''' \<or> dv_Domain p = '''' then finish Term
          else do {
            st \<leftarrow> GetDomainStatus (dv_DomainID p) (dv_WorkspaceID p);
            case st of
              Inl e \<Rightarrow> finish (NakWithDelay PollInterval)
            | Inr dbStatus \<Rightarrow>
                if dbStatus = '''' \<or> dbStatus = ''deleting'' \<or> dbStatus = ''deleted'' then finish Term
                else do {
                  v \<leftarrow> CheckDomainVerification (dv_Domain p);
                  case v of
                    Inl e \<Rightarrow> do { inc ''ses_api_failures_total''; finish (NakWithDelay PollInterval) }
                  | Inr status \<Rightarrow> settle_verification p (attempt_of msg) status
                }
          })"

section \<open>The cleanup scheduler\<close>

definition cleanupBatch :: nat where
  "cleanupBatch = 50"

definition expired_fields :: "StaleVerifyingDomain \<Rightarrow> int \<Rightarrow> (string \<times> json) list" where
  "expired_fields d t = [(''domainId'', JStr (sd_ID d)), (''workspaceId'', JStr (sd_WorkspaceID d)),
     (''domain'', JStr (sd_Domain d)), (''ownerEmail'', JStr (sd_OwnerEmail d)),
     (''ownerName'', JStr (sd_OwnerName d)), (''expiredAt'', JStr (rfc3339 t))]"

fun expire_domains :: "StaleVerifyingDomain list \<Rightarrow> (world, unit) state" where
  "expire_domains [] = State_Monad.return ()"
| "expire_domains (d # ds) = do {
     r \<leftarrow> MarkDomainExpired (sd_ID d) (sd_WorkspaceID d);
     case r of
       Inl e \<Rightarrow> expire_domains ds
     | Inr _ \<Rightarrow> do {
         t \<leftarrow> time_now;
         publishEvent ''domain.verification.expired.v1'' (expired_fields d t);
         expire_domains ds
       }
   }"

definition sweep_domains :: "int \<Rightarrow> (world, unit) state" where
  "sweep_domains staleAfter = do {
     r \<leftarrow> GetStaleVerifyingDomains staleAfter cleanupBatch;
     case r of
       Inl e \<Rightarrow> State_Monad.return ()
     | Inr ds \<Rightarrow> expire_domains ds
   }"

section \<open>The message contract\<close>

lemma publishEvent_frame [frame]:
  "steady f \<Longrightarrow> (\<And>w p. f (w\<lparr>published := p\<rparr>) = f w) \<Longrightarrow> preserves f (publishEvent s p)"
  unfolding publishEvent_def by (intro frame)

lemma settles_verification [settle_rules]: "settles_once (settle_verification p n st)"
  unfolding settle_verification_def
  by (cases st; simp only: VerificationStatus.case; intro settle_rules frame; simp)

lemma Handle_domain_settles: "settles_once (Handle_domain m)"
  unfolding Handle_domain_def by (intro settle_rules frame; simp)

interpretation domain: total_handler Handle_domain
  by (rule total_handlerI) (rule Handle_domain_settles)

section \<open>Rows in every environment\<close>

definition domain_step :: "string \<Rightarrow> string \<Rightarrow> domain_row \<Rightarrow> domain_row \<Rightarrow> bool" where
  "domain_step i ws r r' \<longleftrightarrow> r' = r \<or>
     (this_domain i ws r \<and> not_deleted r \<and> dom_id r' = dom_id r \<and> dom_workspace_id r' = dom_workspace_id r \<and>
      dom_domain r' = dom_domain r \<and> dom_deleted_at r' = dom_deleted_at r \<and> dom_started_at r' = dom_started_at r \<and>
      status_in (dom_status r') [''verified'', ''pending'', ''failed''] \<and>
      (\<forall>t. dom_verified_at r = Some t \<longrightarrow> dom_verified_at r' = Some t))"

lemma domain_step_trans: "domain_step i ws r s \<Longrightarrow> domain_step i ws s t \<Longrightarrow> domain_step i ws r t"
  by (auto simp: domain_step_def)

definition domains_evolve :: "string \<Rightarrow> string \<Rightarrow> world \<Rightarrow> world \<Rightarrow> bool" where
  "domains_evolve i ws w w' \<longleftrightarrow> list_all2 (domain_step i ws) (domains (db w)) (domains (db w'))"

lemma domains_evolve_same: "db w' = db w \<Longrightarrow> domains_evolve i ws w w'"
  by (simp add: domains_evolve_def list.rel_refl domain_step_def)

interpretation domain_guar: guarantee "domains_evolve i ws"
proof
  show "domains_evolve i ws s s" for s
    by (rule domains_evolve_same) simp
  show "domains_evolve i ws s t \<Longrightarrow> domains_evolve i ws t u \<Longrightarrow> domains_evolve i ws s u" for s t u
    unfolding domains_evolve_def by (rule list_all2_trans [OF domain_step_trans])
qed

lemma domains_guar_same: "preserves db m \<Longrightarrow> state_io_rel (domains_evolve i ws) m"
  by (simp add: state_io_rel_def preserves_def domains_evolve_same)

lemma domains_guar_update:
  assumes "\<And>t r. not_deleted r \<Longrightarrow> this_domain i ws r \<Longrightarrow> domain_step i ws r (f t r)"
  shows "state_io_rel (domains_evolve i ws) (exec (\<lambda>t d. d\<lparr>domains :=
     update_where (\<lambda>r. this_domain i ws r \<and> not_deleted r) (f t) (domains d)\<rparr>))"
proof -
  have "list_all2 (domain_step i ws) xs (update_where (\<lambda>r. this_domain i ws r \<and> not_deleted r) (f t) xs)" for t xs
    using assms by (induction xs) (auto simp: domain_step_def)
  then show ?thesis
    by (auto simp: state_io_rel_def exec_def call_def Let_def domains_evolve_def list.rel_refl domain_step_def
        split: fault.split)
qed

lemma domains_guar_updates:
  "state_io_rel (domains_evolve i ws) (UpdateDomainVerified i ws)"
  "state_io_rel (domains_evolve i ws) (UpdateDomainPending i ws n)"
  "state_io_rel (domains_evolve i ws) (UpdateDomainFailed i ws n)"
  unfolding UpdateDomainVerified_def UpdateDomainPending_def UpdateDomainFailed_def
  by (rule domains_guar_update; simp add: domain_step_def)+

lemma domains_guar_settle:
  "state_io_rel (domains_evolve (dv_DomainID p) (dv_WorkspaceID p)) (settle_verification p n st)"
  unfolding settle_verification_def
  by (cases st; simp only: VerificationStatus.case; intro domain_guar.guar_rules domains_guar_updates;
      intro domains_guar_same frame; simp)

lemma domains_guar_Handle:
  assumes "Data m = Some p"
  shows "state_io_rel (domains_evolve (dv_DomainID p) (dv_WorkspaceID p)) (Handle_domain m)"
  unfolding Handle_domain_def assms option.case
  by (intro domain_guar.guar_rules domains_guar_settle; intro domains_guar_same frame; simp)

section \<open>The outcome of a poll\<close>

definition domain_status :: "pg \<Rightarrow> string \<Rightarrow> string \<Rightarrow> string" where
  "domain_status d i ws = (case find (this_domain i ws) (domains d) of None \<Rightarrow> '''' | Some r \<Rightarrow> dom_status r)"

lemma this_domain_update [simp]:
  "this_domain i ws (dom_status_update f1 r) = this_domain i ws r"
  "this_domain i ws (dom_verified_at_update f2 r) = this_domain i ws r"
  "this_domain i ws (dom_verification_attempts_update f3 r) = this_domain i ws r"
  "this_domain i ws (dom_last_check_at_update f4 r) = this_domain i ws r"
  "this_domain i ws (dom_updated_at_update f5 r) = this_domain i ws r"
  by (simp_all add: this_domain_def)

text \<open>Disposition, new status of the row and subjects of the events, by what SES answers.\<close>

text \<open>The wait after a poll without an answer, by the number of the attempt.\<close>

definition poll_wait :: "nat \<Rightarrow> int" where
  "poll_wait n =
     (if n \<le> 1 then 5 * Minute else if n = 2 then 10 * Minute else if n = 3 then 15 * Minute
      else if n = 4 then 30 * Minute else if n = 5 then 1 * Hour else if n = 6 then 2 * Hour
      else if n = 7 then 6 * Hour else if n = 8 then 12 * Hour else 24 * Hour)"

lemma domain_nextDelay_wait: "domain_nextDelay (int n) = poll_wait n"
proof (cases "n \<le> 8")
  case True
  then have "n \<in> {0, 1, 2, 3, 4, 5, 6, 7, 8}" by auto
  then show ?thesis by (auto simp: poll_wait_def domain_nextDelay_def DomainRetryDelays_def)
next
  case False
  then show ?thesis by (simp add: poll_wait_def domain_nextDelay_def DomainRetryDelays_def Let_def nat_diff_distrib')
qed

fun verification_spec :: "nat \<Rightarrow> goerr + string option \<Rightarrow> disposition \<times> string option \<times> string list" where
  "verification_spec n (Inl e) = (NakWithDelay (30 * Second), None, [])"
| "verification_spec n (Inr None) = (NakWithDelay (poll_wait n), Some ''pending'',
     if n = 3 then [''domain.verification.reminder.v1''] else [])"
| "verification_spec n (Inr (Some s)) =
     (if s = ''SUCCESS'' then (Ack, Some ''verified'', [''domain.verified.v1''])
      else if s = ''FAILED'' \<or> s = ''TEMPORARY_FAILURE'' then (Ack, Some ''failed'', [])
      else (NakWithDelay (poll_wait n), Some ''pending'',
            if n = 3 then [''domain.verification.reminder.v1''] else []))"

definition valid_domain_payload :: "DomainVerifyPayload \<Rightarrow> bool" where
  "valid_domain_payload p \<longleftrightarrow> dv_DomainID p \<noteq> '''' \<and> dv_WorkspaceID p \<noteq> '''' \<and> dv_Domain p \<noteq> ''''"

lemma poll_outcome:
  assumes "reliable (env w)" and "Data m = Some p" and "valid_domain_payload p"
    and "find (this_domain (dv_DomainID p) (dv_WorkspaceID p)) (domains (db w)) = Some r"
    and "not_deleted r" and "dom_status r \<noteq> ''''"
    and "\<forall>k. identity_api (env w) k (dv_Domain p) = answer"
    and "verification_spec (attempt_of m) answer = (dsp, status, subjects)"
  shows "wp (Handle_domain m) (\<lambda>_ w'. settled w' = settled w @ [dsp] \<and>
    domain_status (db w') (dv_DomainID p) (dv_WorkspaceID p) = coalesce status (dom_status r) \<and>
    (\<exists>ms. published w' = published w @ ms \<and> map pm_Subject ms = subjects)) w"
proof -
  have s: "dom_status r \<noteq> ''deleting''" "dom_status r \<noteq> ''deleted''" "dom_deleted_at r = None"
    using assms(5) by (auto simp: not_deleted_def)
  note model = Handle_domain_def wp_rules GetDomainStatus_def CheckDomainVerification_def settle_verification_def
    UpdateDomainVerified_def UpdateDomainPending_def UpdateDomainFailed_def publishEvent_def Publish_def Let_def
    domain_nextDelay_wait domain_status_def find_update_sub PollInterval_def ReminderAfterAttempt_def
  show ?thesis
  proof (cases answer)
    case (Inl e)
    with assms s show ?thesis by (auto simp: model valid_domain_payload_def)
  next
    case (Inr a)
    with assms s show ?thesis
      by (cases a) (auto simp: model valid_domain_payload_def split: if_splits)
  qed
qed

section \<open>The sweep\<close>

definition expire_step :: "StaleVerifyingDomain list \<Rightarrow> domain_row \<Rightarrow> domain_row \<Rightarrow> bool" where
  "expire_step ds r r' \<longleftrightarrow> r' = r \<or>
     ((\<exists>sd \<in> set ds. this_domain (sd_ID sd) (sd_WorkspaceID sd) r) \<and> dom_deleted_at r = None \<and>
      status_in (dom_status r) [''pending'', ''verifying''] \<and> dom_status r' = ''failed'' \<and>
      dom_id r' = dom_id r \<and> dom_workspace_id r' = dom_workspace_id r \<and> dom_deleted_at r' = dom_deleted_at r)"

definition settled_domain :: "StaleVerifyingDomain \<Rightarrow> domain_row list \<Rightarrow> bool" where
  "settled_domain sd rows \<longleftrightarrow> (\<forall>r \<in> set rows. this_domain (sd_ID sd) (sd_WorkspaceID sd) r \<and> dom_deleted_at r = None \<longrightarrow>
     \<not> status_in (dom_status r) [''pending'', ''verifying''])"

lemma expire_step_trans: "expire_step ds r s \<Longrightarrow> expire_step ds' s t \<Longrightarrow> expire_step (ds @ ds') r t"
  by (auto simp: expire_step_def this_domain_def)

lemma settled_domain_kept:
  assumes "list_all2 (expire_step ds) xs ys" and "settled_domain sd xs"
  shows "settled_domain sd ys"
  using assms
proof (induction rule: list_all2_induct)
  case (Cons x xs y ys)
  then show ?case by (auto simp: settled_domain_def expire_step_def this_domain_def)
qed simp

lemma expire_one:
  "list_all2 (expire_step [sd]) rows (update_where (\<lambda>r. this_domain (sd_ID sd) (sd_WorkspaceID sd) r \<and>
      status_in (dom_status r) [''pending'', ''verifying''] \<and> dom_deleted_at r = None)
    (\<lambda>r. r\<lparr>dom_status := ''failed'', dom_last_check_at := Some t, dom_updated_at := t\<rparr>) rows)"
  "settled_domain sd (update_where (\<lambda>r. this_domain (sd_ID sd) (sd_WorkspaceID sd) r \<and>
      status_in (dom_status r) [''pending'', ''verifying''] \<and> dom_deleted_at r = None)
    (\<lambda>r. r\<lparr>dom_status := ''failed'', dom_last_check_at := Some t, dom_updated_at := t\<rparr>) rows)"
proof -
  show "list_all2 (expire_step [sd]) rows (update_where (\<lambda>r. this_domain (sd_ID sd) (sd_WorkspaceID sd) r \<and>
      status_in (dom_status r) [''pending'', ''verifying''] \<and> dom_deleted_at r = None)
    (\<lambda>r. r\<lparr>dom_status := ''failed'', dom_last_check_at := Some t, dom_updated_at := t\<rparr>) rows)"
    by (rule list_all2_update_where) (simp_all add: expire_step_def del: status_in_simps)
  have "\<not> status_in ''failed'' [''pending'', ''verifying'']" by simp
  then show "settled_domain sd (update_where (\<lambda>r. this_domain (sd_ID sd) (sd_WorkspaceID sd) r \<and>
      status_in (dom_status r) [''pending'', ''verifying''] \<and> dom_deleted_at r = None)
    (\<lambda>r. r\<lparr>dom_status := ''failed'', dom_last_check_at := Some t, dom_updated_at := t\<rparr>) rows)"
    by (auto simp: settled_domain_def update_where_def simp del: status_in_simps)
qed

definition swept :: "StaleVerifyingDomain list \<Rightarrow> world \<Rightarrow> world \<Rightarrow> bool" where
  "swept ds w w' \<longleftrightarrow> list_all2 (expire_step ds) (domains (db w)) (domains (db w')) \<and>
     (\<forall>sd \<in> set ds. settled_domain sd (domains (db w'))) \<and>
     (\<exists>ts. map pm_Payload (published w') = map pm_Payload (published w) @ map PMap (map2 expired_fields ds ts) \<and>
        length ts = length ds)"

lemma swept_Cons:
  assumes "list_all2 (expire_step [sd]) (domains (db w)) (domains (db w1))" and "settled_domain sd (domains (db w1))"
    and "map pm_Payload (published w1) = map pm_Payload (published w) @ [PMap (expired_fields sd t)]"
    and "swept ds w1 w'"
  shows "swept (sd # ds) w w'"
proof -
  have "list_all2 (expire_step (sd # ds)) (domains (db w)) (domains (db w'))"
  proof (rule list_all2_trans [OF _ assms(1)])
    show "list_all2 (expire_step ds) (domains (db w1)) (domains (db w'))" using assms(4) by (simp add: swept_def)
    show "expire_step (sd # ds) a c" if "expire_step [sd] a b" "expire_step ds b c" for a b c
      using expire_step_trans [OF that] by simp
  qed
  moreover have "settled_domain sd (domains (db w'))"
    using assms(2,4) settled_domain_kept unfolding swept_def by blast
  moreover obtain ts where "map pm_Payload (published w') = map pm_Payload (published w1) @ map PMap (map2 expired_fields ds ts)"
    "length ts = length ds"
    using assms(4) by (auto simp: swept_def)
  ultimately show ?thesis
    using assms(3,4) unfolding swept_def by (auto intro!: exI [of _ "t # ts"])
qed

lemma expire_domains_swept:
  assumes "reliable (env w)"
  shows "wp (expire_domains ds) (\<lambda>_. swept ds w) w"
  using assms
proof (induction ds arbitrary: w)
  case Nil
  show ?case by (simp add: wp_return swept_def list.rel_refl expire_step_def)
next
  case (Cons sd ds)
  define w1 where "w1 = (step_clock w)\<lparr>db := (db w)\<lparr>domains :=
     update_where (\<lambda>r. this_domain (sd_ID sd) (sd_WorkspaceID sd) r \<and>
         status_in (dom_status r) [''pending'', ''verifying''] \<and> dom_deleted_at r = None)
       (\<lambda>r. r\<lparr>dom_status := ''failed'', dom_last_check_at := Some (now (step_clock w)), dom_updated_at := now (step_clock w)\<rparr>)
       (domains (db w))\<rparr>\<rparr>"
  define w2 where "w2 = (step_clock w1)\<lparr>published := published w1 @ [\<lparr>pm_Subject = ''domain.verification.expired.v1'',
     pm_Payload = PMap (expired_fields sd (now w1)), pm_MsgID = ''''\<rparr>]\<rparr>"
  have d: "domains (db w2) = domains (db w1)" "published w1 = published w" "env w2 = env w" "env w1 = env w"
    by (simp_all add: w2_def w1_def)
  have s: "list_all2 (expire_step [sd]) (domains (db w)) (domains (db w2))" "settled_domain sd (domains (db w2))"
    unfolding d by (simp_all add: w1_def expire_one del: status_in_simps)
  have "wp (expire_domains ds) (\<lambda>_. swept (sd # ds) w) w2"
  proof (rule wp_mono [OF Cons.IH])
    show "reliable (env w2)" using Cons.prems d by simp
    show "swept (sd # ds) w w'" if "swept ds w2 w'" for w'
      by (rule swept_Cons [OF s _ that, of "now w1"]) (simp add: w2_def d)
  qed
  moreover have "run_state (MarkDomainExpired (sd_ID sd) (sd_WorkspaceID sd)) w = (Inr (), w1)"
    using Cons.prems by (simp add: MarkDomainExpired_def exec_def call_def w1_def Let_def del: status_in_simps)
  moreover have "run_state (publishEvent ''domain.verification.expired.v1'' (expired_fields sd (now w1))) w1 = ((), w2)"
    using Cons.prems d by (simp add: publishEvent_def Publish_def call_def w2_def)
  ultimately show ?case by (simp add: wp_def time_now_def)
qed

lemma sweep_swept:
  assumes "reliable (env w)"
  shows "wp (sweep_domains staleAfter)
    (\<lambda>_. swept (stale_domains staleAfter cleanupBatch (now (step_clock w)) (db w)) w) w"
proof -
  have "swept ds (step_clock w) w' \<Longrightarrow> swept ds w w'" for ds w' by (simp add: swept_def)
  with expire_domains_swept [of "step_clock w"] assms show ?thesis
    by (simp add: sweep_domains_def GetStaleVerifyingDomains_def wp_rules) (blast intro: wp_mono)
qed

lemma poll_revives:
  assumes "reliable (env w)" and "Data m = Some p" and "valid_domain_payload p"
    and "find (this_domain (dv_DomainID p) (dv_WorkspaceID p)) (domains (db w)) = Some r"
    and "dom_status r = ''failed''" and "dom_deleted_at r = None" and "dom_started_at r = Some s"
    and "\<forall>k. identity_api (env w) k (dv_Domain p) = Inr None"
  shows "wp (Handle_domain m) (\<lambda>_ w'. \<exists>r'. find (this_domain (dv_DomainID p) (dv_WorkspaceID p)) (domains (db w')) = Some r' \<and>
    (\<forall>t \<ge> s + staleAfter. stale_domain staleAfter t r')) w"
  using assms
  by (auto simp: Handle_domain_def wp_rules GetDomainStatus_def CheckDomainVerification_def settle_verification_def
    UpdateDomainPending_def publishEvent_def Publish_def Let_def find_update_sub not_deleted_def stale_domain_def
    valid_domain_payload_def)

lemma domain_nextDelay_nth: "domain_nextDelay n = DomainRetryDelays ! min 8 (nat (n - 1))"
  by (auto simp: domain_nextDelay_def Let_def DomainRetryDelays_def min_def)

lemma sorted_delays: "sorted DomainRetryDelays" "length DomainRetryDelays = 9"
  by (simp_all add: DomainRetryDelays_def)

section \<open>Properties\<close>

definition sample_domain :: "string \<Rightarrow> domain_row" where
  "sample_domain status = \<lparr>dom_id = ''d'', dom_workspace_id = ''w'', dom_domain = ''x.io'', dom_status = status,
     dom_verified_at = None, dom_verification_attempts = 0, dom_last_check_at = None, dom_started_at = Some 0,
     dom_deleted_at = None, dom_updated_at = 0\<rparr>"

definition domain_world :: "string \<Rightarrow> (goerr + string option) \<Rightarrow> world" where
  "domain_world status answer = quiet_world\<lparr>env := quiet_env\<lparr>identity_api := (\<lambda>_ _. answer)\<rparr>,
     db := empty_pg\<lparr>domains := [sample_domain status],
       workspaces := [\<lparr>ws_id = ''w'', ws_owner_user_id = ''u''\<rparr>],
       users := [\<lparr>usr_id = ''u'', usr_email = ''o@x'', usr_first_name = None\<rparr>]\<rparr>\<rparr>"

definition sample_verify :: DomainVerifyPayload where
  "sample_verify = \<lparr>dv_DomainID = ''d'', dv_WorkspaceID = ''w'', dv_Domain = ''x.io''\<rparr>"

lemma domain_world_simps:
  "reliable (env (domain_world st a))" "identity_api (env (domain_world st a)) k x = a"
  "valid_domain_payload sample_verify"
  "find (this_domain (dv_DomainID sample_verify) (dv_WorkspaceID sample_verify)) (domains (db (domain_world st a))) = Some (sample_domain st)"
  by (simp_all add: domain_world_def reliable_def sample_verify_def valid_domain_payload_def this_domain_def sample_domain_def)

text \<open>
  Claim C25. A poll of a domain follows its decision table: without infrastructure faults, for a domain
  that has not been deleted, what SES answers and the number of the attempt fix the disposition and its delay, the
  row's new status and the events, with the reminder on the third attempt and only then. A status that SES does not
  name is taken as pending, and no number of attempts ends the polling.
\<close>

theorem domain_poll_outcome:
  assumes "reliable (env w)" and "Data m = Some p" and "valid_domain_payload p"
    and "find (this_domain (dv_DomainID p) (dv_WorkspaceID p)) (domains (db w)) = Some r"
    and "not_deleted r" and "dom_status r \<noteq> ''''"
    and "\<forall>k. identity_api (env w) k (dv_Domain p) = answer"
    and "verification_spec (attempt_of m) answer = (dsp, status, subjects)"
  shows "wp (Handle_domain m) (\<lambda>_ w'. settled w' = settled w @ [dsp] \<and>
    domain_status (db w') (dv_DomainID p) (dv_WorkspaceID p) = coalesce status (dom_status r) \<and>
    (\<exists>ms. published w' = published w @ ms \<and> map pm_Subject ms = subjects)) w"
  using assms by (rule poll_outcome)

lemma domain_poll_outcome_witness:
  "wp (Handle_domain \<lparr>Data = Some sample_verify, NumDelivered = Some 3\<rparr>) (\<lambda>_ w'.
    settled w' = settled (domain_world ''verifying'' (Inr None)) @ [NakWithDelay (15 * Minute)] \<and>
    domain_status (db w') (dv_DomainID sample_verify) (dv_WorkspaceID sample_verify) = coalesce (Some ''pending'') (dom_status (sample_domain ''verifying'')) \<and>
    (\<exists>ms. published w' = published (domain_world ''verifying'' (Inr None)) @ ms \<and> map pm_Subject ms = [''domain.verification.reminder.v1'']))
    (domain_world ''verifying'' (Inr None))"
  by (rule domain_poll_outcome [where answer = "Inr None"])
    (simp_all add: domain_world_simps, simp_all add: not_deleted_def sample_domain_def attempt_of_def poll_wait_def)

text \<open>
  In every environment, faults included, a poll changes no row but its own domain's, never one that
  is deleted or being deleted, and never moves the time of the first verification.
\<close>

theorem domain_rows_safe:
  assumes "Data m = Some p"
  shows "domains_evolve (dv_DomainID p) (dv_WorkspaceID p) w (snd (run_state (Handle_domain m) w))"
  using domains_guar_Handle [OF assms] by (simp add: state_io_rel_def)

lemma domain_rows_safe_witness:
  "domains_evolve (dv_DomainID sample_verify) (dv_WorkspaceID sample_verify) (domain_world ''deleting'' (Inr (Some ''SUCCESS'')))
    (snd (run_state (Handle_domain \<lparr>Data = Some sample_verify, NumDelivered = None\<rparr>)
      (domain_world ''deleting'' (Inr (Some ''SUCCESS'')))))"
  by (rule domain_rows_safe) simp

text \<open>
  The delays between polls are taken from the schedule, never shrink from one attempt to the
  next, start at five minutes and stay at a day from the ninth attempt on.
\<close>

theorem domain_delays:
  "domain_nextDelay n \<in> set DomainRetryDelays \<and> domain_nextDelay n \<le> domain_nextDelay (n + 1) \<and>
   domain_nextDelay 1 = 5 * Minute \<and> domain_nextDelay (9 + int k) = 24 * Hour"
proof -
  have "min 8 (nat (n - 1)) < length DomainRetryDelays" by (simp add: sorted_delays)
  then have "domain_nextDelay n \<in> set DomainRetryDelays"
    unfolding domain_nextDelay_nth by (rule nth_mem)
  moreover have "domain_nextDelay n \<le> domain_nextDelay (n + 1)"
    unfolding domain_nextDelay_nth
    by (rule sorted_nth_mono [OF sorted_delays(1)]) (simp_all add: sorted_delays(2))
  moreover have "min 8 (nat (9 + int k - 1)) = 8" by simp
  ultimately show ?thesis
    by (simp add: domain_nextDelay_nth) (simp add: DomainRetryDelays_def)
qed

text \<open>
  A sweep expires what is stale and nothing else: without faults, afterwards none of the stale
  domains it fetched is still waiting for verification, every other row is unchanged, and exactly one
  expiry event per fetched domain has been published.
\<close>

theorem sweep_expires_stale:
  assumes "reliable (env w)"
  shows "wp (sweep_domains staleAfter)
    (\<lambda>_. swept (stale_domains staleAfter cleanupBatch (now (step_clock w)) (db w)) w) w"
  using assms by (rule sweep_swept)

lemma sweep_expires_stale_witness:
  "wp (sweep_domains 0) (\<lambda>_. swept [\<lparr>sd_ID = ''d'', sd_WorkspaceID = ''w'', sd_Domain = ''x.io'', sd_OwnerEmail = ''o@x'', sd_OwnerName = ''''\<rparr>]
     (domain_world ''pending'' (Inr None))) (domain_world ''pending'' (Inr None))"
proof -
  have "stale_domains 0 cleanupBatch (now (step_clock (domain_world ''pending'' (Inr None)))) (db (domain_world ''pending'' (Inr None)))
      = [\<lparr>sd_ID = ''d'', sd_WorkspaceID = ''w'', sd_Domain = ''x.io'', sd_OwnerEmail = ''o@x'', sd_OwnerName = ''''\<rparr>]"
    by code_simp
  then show ?thesis using sweep_expires_stale [of "domain_world ''pending'' (Inr None)" 0] by (simp add: domain_world_simps)
qed

text \<open>
  An expired domain comes back: the poller does not know of the expiry, so the next poll of an
  expired domain that SES still reports as pending sets it back to \<^verbatim>\<open>pending\<close>, and since the start time is
  untouched it is at once stale again and will be expired, with another event, at the next sweep.
\<close>

theorem expired_domain_revived:
  assumes "reliable (env w)" and "Data m = Some p" and "valid_domain_payload p"
    and "find (this_domain (dv_DomainID p) (dv_WorkspaceID p)) (domains (db w)) = Some r"
    and "dom_status r = ''failed''" and "dom_deleted_at r = None" and "dom_started_at r = Some s"
    and "\<forall>k. identity_api (env w) k (dv_Domain p) = Inr None"
  shows "wp (Handle_domain m) (\<lambda>_ w'. \<exists>r'. find (this_domain (dv_DomainID p) (dv_WorkspaceID p)) (domains (db w')) = Some r' \<and>
    (\<forall>t \<ge> s + staleAfter. stale_domain staleAfter t r')) w"
  using assms by (rule poll_revives)

lemma expired_domain_revived_witness:
  "wp (Handle_domain \<lparr>Data = Some sample_verify, NumDelivered = Some 30\<rparr>) (\<lambda>_ w'.
     \<exists>r'. find (this_domain (dv_DomainID sample_verify) (dv_WorkspaceID sample_verify)) (domains (db w')) = Some r' \<and>
       (\<forall>t \<ge> 0 + 720 * Hour. stale_domain (720 * Hour) t r')) (domain_world ''failed'' (Inr None))"
  by (rule expired_domain_revived)
    (simp_all add: domain_world_simps, simp_all add: sample_domain_def)

end
