(* ===== verification/Cleanup.thy ===== *)
theory Cleanup
  imports RateLimit
begin

text \<open>
  The retention sweeps of \<^verbatim>\<open>internal/worker/cleanup/scheduler.go\<close> with their two
  \<^verbatim>\<open>DELETE\<close> statements. Both tables are swept by the same loop, so what the loop needs of a
  batch-wise delete is a locale, proved once and interpreted for each table.
\<close>

definition sweepBatch :: nat where
  "sweepBatch = 1000"

text \<open>\<^verbatim>\<open>DELETE .. WHERE id IN (SELECT id .. WHERE created_at < .. ORDER BY created_at LIMIT ..)\<close>\<close>

definition doomed :: "('r \<Rightarrow> string) \<Rightarrow> ('r \<Rightarrow> int) \<Rightarrow> int \<Rightarrow> nat \<Rightarrow> 'r list \<Rightarrow> string list" where
  "doomed ident created cutoff limit rows =
     map ident (take limit (sort_key created (filter (\<lambda>r. created r < cutoff) rows)))"

definition delete_old_audit_logs :: "int \<Rightarrow> nat \<Rightarrow> int \<Rightarrow> pg \<Rightarrow> (goerr + nat) \<times> pg" where
  "delete_old_audit_logs retainFor limit t d =
     (let ids = doomed al_id al_created_at (t - retainFor) limit (audit_logs d)
      in (Inr (affected (\<lambda>r. al_id r \<in> set ids) (audit_logs d)),
          d\<lparr>audit_logs := filter (\<lambda>r. al_id r \<notin> set ids) (audit_logs d)\<rparr>))"

definition DeleteOldAuditLogs :: "int \<Rightarrow> nat \<Rightarrow> (world, goerr + nat) state" where
  "DeleteOldAuditLogs retainFor limit = do {
     r \<leftarrow> exec_returning (delete_old_audit_logs retainFor limit);
     State_Monad.return (case r of Inl e \<Rightarrow> Inl (Wrap ''delete old audit_logs'' e) | Inr n \<Rightarrow> Inr n)
   }"

text \<open>The foreign key of \<open>events_enriched\<close> cascades, as the comment of the query says.\<close>

definition delete_old_events :: "int \<Rightarrow> nat \<Rightarrow> int \<Rightarrow> pg \<Rightarrow> (goerr + nat) \<times> pg" where
  "delete_old_events retainFor limit t d =
     (let ids = doomed rw_id rw_created_at (t - retainFor) limit (events_raw d)
      in (Inr (affected (\<lambda>r. rw_id r \<in> set ids) (events_raw d)),
          d\<lparr>events_raw := filter (\<lambda>r. rw_id r \<notin> set ids) (events_raw d),
            events_enriched := filter (\<lambda>r. en_raw_event_id r \<notin> set ids) (events_enriched d)\<rparr>))"

definition DeleteOldEvents :: "int \<Rightarrow> nat \<Rightarrow> (world, goerr + nat) state" where
  "DeleteOldEvents retainFor limit = do {
     r \<leftarrow> exec_returning (delete_old_events retainFor limit);
     State_Monad.return (case r of Inl e \<Rightarrow> Inl (Wrap ''delete old events_raw'' e) | Inr n \<Rightarrow> Inr n)
   }"

text \<open>
  The pause between batches, which ends early when the context is cancelled: \<open>True\<close> to go on.
\<close>

definition pause :: "int \<Rightarrow> world \<Rightarrow> bool \<times> world" where
  "pause d w = (if cancelled (env w) (tick w) then (False, w\<lparr>tick := Suc (tick w)\<rparr>)
                else (True, w\<lparr>tick := Suc (tick w), now := now w + d\<rparr>))"

section \<open>Deleting in batches\<close>

locale batch_deleter =
  fixes del :: "int \<Rightarrow> nat \<Rightarrow> (world, goerr + nat) state"
    and rows :: "pg \<Rightarrow> 'r list"
    and ident :: "'r \<Rightarrow> string"
    and created :: "'r \<Rightarrow> int"
  assumes del_rows: "run_state (del retainFor limit) w = (Inr n, w') \<Longrightarrow>
      env w' = env w \<and> now w \<le> now w' \<and>
      (let ids = doomed ident created (now w' - retainFor) limit (rows (db w))
       in n = affected (\<lambda>r. ident r \<in> set ids) (rows (db w)) \<and>
          rows (db w') = filter (\<lambda>r. ident r \<notin> set ids) (rows (db w)))"
    and del_reliable: "reliable (env w) \<Longrightarrow> \<exists>n. fst (run_state (del retainFor limit) w) = Inr n"
begin

lemma del_shrinks:
  "run_state (del retainFor limit) w = (Inr n, w') \<Longrightarrow> length (rows (db w')) + n = length (rows (db w))"
  using del_rows [of retainFor limit w n w'] sum_length_filter_compl [of "\<lambda>r. ident r \<in> _" "rows (db w)"]
  by (simp add: Let_def affected_def add.commute)

end

text \<open>The rows a batch deletes are old, and a batch that is not full deletes all that are.\<close>

lemma batch_rows:
  assumes "distinct (map ident rs)" and "ids = doomed ident created cutoff limit rs"
  shows "\<forall>r \<in> set rs. ident r \<in> set ids \<longrightarrow> created r < cutoff"
    and "affected (\<lambda>r. ident r \<in> set ids) rs < limit \<Longrightarrow>
      filter (\<lambda>r. ident r \<notin> set ids) rs = filter (\<lambda>r. \<not> created r < cutoff) rs"
proof -
  let ?old = "filter (\<lambda>r. created r < cutoff) rs"
  let ?X = "take limit (sort_key created ?old)"
  have dr: "distinct rs" and inj: "inj_on ident (set rs)" using assms(1) by (simp_all add: distinct_map)
  have ids: "set ids = ident ` set ?X" by (simp add: assms(2) doomed_def)
  have X: "set ?X \<subseteq> set ?old" using set_take_subset [of limit "sort_key created ?old"] by simp
  have mem: "ident r \<in> set ids \<longleftrightarrow> r \<in> set ?X" if "r \<in> set rs" for r
    using that X inj unfolding ids by (auto dest: inj_onD)
  show "\<forall>r \<in> set rs. ident r \<in> set ids \<longrightarrow> created r < cutoff" using mem X by auto
  assume few: "affected (\<lambda>r. ident r \<in> set ids) rs < limit"
  have "affected (\<lambda>r. ident r \<in> set ids) rs = card (set (filter (\<lambda>r. ident r \<in> set ids) rs))"
    using dr by (simp add: affected_def distinct_card del: set_filter)
  also have "set (filter (\<lambda>r. ident r \<in> set ids) rs) = set ?X" using mem X by auto
  also have "card (set ?X) = length ?X" using dr by (simp add: distinct_card)
  finally have "length ?X < limit" using few by simp
  then have "?X = sort_key created ?old" by simp
  then have "set ?X = set ?old" by simp
  then show "filter (\<lambda>r. ident r \<notin> set ids) rs = filter (\<lambda>r. \<not> created r < cutoff) rs"
    using mem by (intro filter_cong) auto
qed

text \<open>A loop that deletes batches until one is not full.\<close>

locale batch_sweep = batch_deleter +
  fixes loop :: "int \<Rightarrow> nat \<Rightarrow> world \<Rightarrow> nat option \<times> world"
  assumes loop_eq: "loop retainFor n w =
     (case run_state (del retainFor sweepBatch) w of
        (Inl e, w1) \<Rightarrow> (None, w1)
      | (Inr k, w1) \<Rightarrow>
          if k < sweepBatch then (Some (n + k), w1)
          else (case pause (100 * Millisecond) w1 of (go, w2) \<Rightarrow>
            if go then loop retainFor (n + k) w2 else (None, w2)))"
begin

lemma sweep_deletes_old:
  assumes "reliable (env w)" and "\<forall>k. \<not> cancelled (env w) k" and "distinct (map ident (rows (db w)))"
  shows "\<exists>w' t. loop retainFor n w = (Some (n + (length (rows (db w)) - length (rows (db w')))), w') \<and>
    now w \<le> t \<and> t \<le> now w' \<and> rows (db w') = filter (\<lambda>r. \<not> created r < t - retainFor) (rows (db w))"
  using assms
proof (induction "length (rows (db w))" arbitrary: w n rule: less_induct)
  case less
  let ?R = "rows (db w)"
  obtain k w1 where d: "run_state (del retainFor sweepBatch) w = (Inr k, w1)"
    using del_reliable [OF less.prems(1), of retainFor sweepBatch] by (metis prod.collapse)
  define ids where "ids = doomed ident created (now w1 - retainFor) sweepBatch ?R"
  have r1: "env w1 = env w" "now w \<le> now w1" "k = affected (\<lambda>r. ident r \<in> set ids) ?R"
    "rows (db w1) = filter (\<lambda>r. ident r \<notin> set ids) ?R"
    using del_rows [OF d] by (simp_all add: ids_def Let_def)
  have len: "length (rows (db w1)) + k = length ?R" by (rule del_shrinks [OF d])
  note batch = batch_rows [OF less.prems(3) ids_def]
  show ?case
  proof (cases "k < sweepBatch")
    case True
    have "rows (db w1) = filter (\<lambda>r. \<not> created r < now w1 - retainFor) ?R"
      using batch(2) True r1(3,4) by simp
    with True r1(2) len show ?thesis
      by (subst loop_eq) (auto simp: d intro!: exI [of _ w1] exI [of _ "now w1"])
  next
    case False
    define w2 where "w2 = w1\<lparr>tick := Suc (tick w1), now := now w1 + 100 * Millisecond\<rparr>"
    have p: "pause (100 * Millisecond) w1 = (True, w2)"
      using less.prems(2) r1(1) by (simp add: pause_def w2_def)
    have w2: "env w2 = env w" "db w2 = db w1" "now w2 = now w1 + 100 * Millisecond"
      by (simp_all add: w2_def r1(1))
    have "k > 0" using False by (simp add: sweepBatch_def)
    then have "length (rows (db w2)) < length ?R" using len w2(2) by simp
    from less.hyps [OF this, of "n + k"] obtain w' t where
      l: "loop retainFor (n + k) w2 = (Some (n + k + (length (rows (db w2)) - length (rows (db w')))), w')"
      and t: "now w2 \<le> t" "t \<le> now w'" "rows (db w') = filter (\<lambda>r. \<not> created r < t - retainFor) (rows (db w2))"
      using less.prems w2 r1(4) by (auto simp: distinct_map_filter)
    have "filter (\<lambda>r. \<not> created r < t - retainFor) (rows (db w2)) = filter (\<lambda>r. \<not> created r < t - retainFor) ?R"
      unfolding w2(2) r1(4) filter_filter
      by (rule filter_cong) (use batch(1) t(1) w2(3) in force)+
    moreover have "length (rows (db w')) \<le> length (rows (db w2))" using t(3) by simp
    moreover have "loop retainFor n w = loop retainFor (n + k) w2"
      using p by (subst loop_eq) (simp add: d False)
    ultimately show ?thesis
      using l t len w2 r1(2) by (intro exI [of _ w'] exI [of _ t]) auto
  qed
qed

end

section \<open>The two sweeps\<close>

lemma delete_shrinks:
  "length (filter (\<lambda>r. P r) rs) + affected (\<lambda>r. \<not> P r) rs = length rs"
  by (simp add: affected_def sum_length_filter_compl)

lemma AuditLogs_run:
  assumes "run_state (DeleteOldAuditLogs retainFor limit) w = (Inr n, w')"
  shows "w' = (step_clock w)\<lparr>db := snd (delete_old_audit_logs retainFor limit (now (step_clock w)) (db w))\<rparr> \<and>
    Inr n = fst (delete_old_audit_logs retainFor limit (now (step_clock w)) (db w))"
  using assms by (auto simp: DeleteOldAuditLogs_def exec_returning_def call_def Let_def
      split: fault.splits prod.splits sum.splits)

lemma Events_run:
  assumes "run_state (DeleteOldEvents retainFor limit) w = (Inr n, w')"
  shows "w' = (step_clock w)\<lparr>db := snd (delete_old_events retainFor limit (now (step_clock w)) (db w))\<rparr> \<and>
    Inr n = fst (delete_old_events retainFor limit (now (step_clock w)) (db w))"
  using assms by (auto simp: DeleteOldEvents_def exec_returning_def call_def Let_def
      split: fault.splits prod.splits sum.splits)

interpretation audit_deleter: batch_deleter DeleteOldAuditLogs audit_logs al_id al_created_at
proof (unfold_locales, goal_cases)
  case (1 retainFor limit w n w')
  then show ?case
    using step_clock_now [of w] by (auto dest!: AuditLogs_run simp: delete_old_audit_logs_def Let_def)
next
  case (2 w retainFor limit)
  then show ?case
    by (simp add: DeleteOldAuditLogs_def exec_returning_def call_def delete_old_audit_logs_def Let_def)
qed

interpretation event_deleter: batch_deleter DeleteOldEvents events_raw rw_id rw_created_at
proof (unfold_locales, goal_cases)
  case (1 retainFor limit w n w')
  then show ?case
    using step_clock_now [of w] by (auto dest!: Events_run simp: delete_old_events_def Let_def)
next
  case (2 w retainFor limit)
  then show ?case
    by (simp add: DeleteOldEvents_def exec_returning_def call_def delete_old_events_def Let_def)
qed

lemma pause_db: "db (snd (pause d w)) = db w"
  by (simp add: pause_def)

function sweepAuditLogs_loop :: "int \<Rightarrow> nat \<Rightarrow> world \<Rightarrow> nat option \<times> world" where
  "sweepAuditLogs_loop retainFor n w =
     (case run_state (DeleteOldAuditLogs retainFor sweepBatch) w of
        (Inl e, w1) \<Rightarrow> (None, w1)
      | (Inr k, w1) \<Rightarrow>
          if k < sweepBatch then (Some (n + k), w1)
          else (case pause (100 * Millisecond) w1 of (go, w2) \<Rightarrow>
            if go then sweepAuditLogs_loop retainFor (n + k) w2 else (None, w2)))"
  by pat_completeness auto
termination
proof (relation "measure (\<lambda>(r, n, w). length (audit_logs (db w)))", goal_cases)
  case (2 retainFor n w x w1 k go w2)
  have "db w2 = db w1" using pause_db [of "100 * Millisecond" w1] 2(4) by (metis snd_conv)
  moreover have "0 < k" using 2(3) by (simp add: sweepBatch_def)
  ultimately show ?case using audit_deleter.del_shrinks [of retainFor sweepBatch w k w1] 2 by simp
qed simp

function sweepEvents_loop :: "int \<Rightarrow> nat \<Rightarrow> world \<Rightarrow> nat option \<times> world" where
  "sweepEvents_loop retainFor n w =
     (case run_state (DeleteOldEvents retainFor sweepBatch) w of
        (Inl e, w1) \<Rightarrow> (None, w1)
      | (Inr k, w1) \<Rightarrow>
          if k < sweepBatch then (Some (n + k), w1)
          else (case pause (100 * Millisecond) w1 of (go, w2) \<Rightarrow>
            if go then sweepEvents_loop retainFor (n + k) w2 else (None, w2)))"
  by pat_completeness auto
termination
proof (relation "measure (\<lambda>(r, n, w). length (events_raw (db w)))", goal_cases)
  case (2 retainFor n w x w1 k go w2)
  have "db w2 = db w1" using pause_db [of "100 * Millisecond" w1] 2(4) by (metis snd_conv)
  moreover have "0 < k" using 2(3) by (simp add: sweepBatch_def)
  ultimately show ?case using event_deleter.del_shrinks [of retainFor sweepBatch w k w1] 2 by simp
qed simp

declare sweepAuditLogs_loop.simps [simp del] sweepEvents_loop.simps [simp del]

interpretation audit_sweep: batch_sweep DeleteOldAuditLogs audit_logs al_id al_created_at sweepAuditLogs_loop
  by unfold_locales (rule sweepAuditLogs_loop.simps)

interpretation event_sweep: batch_sweep DeleteOldEvents events_raw rw_id rw_created_at sweepEvents_loop
  by unfold_locales (rule sweepEvents_loop.simps)

definition sweepAuditLogs :: "int \<Rightarrow> (world, unit) state" where
  "sweepAuditLogs retainFor = do {
     r \<leftarrow> State (sweepAuditLogs_loop retainFor 0);
     case r of
       None \<Rightarrow> State_Monad.return ()
     | Some n \<Rightarrow> (if n > 0 then inc_by ''cleanup_audit_logs_deleted_total'' n else State_Monad.return ())
   }"

definition sweepEvents :: "int \<Rightarrow> (world, unit) state" where
  "sweepEvents retainFor = do {
     r \<leftarrow> State (sweepEvents_loop retainFor 0);
     case r of
       None \<Rightarrow> State_Monad.return ()
     | Some n \<Rightarrow> (if n > 0 then inc_by ''cleanup_events_raw_deleted_total'' n else State_Monad.return ())
   }"

definition sweep_cleanup :: "int \<Rightarrow> (world, unit) state" where
  "sweep_cleanup retainFor = do { sweepAuditLogs retainFor; sweepEvents retainFor }"

lemma pause_keeps:
  "0 \<le> d \<Longrightarrow> db (snd (pause d w)) = db w \<and> env (snd (pause d w)) = env w \<and> now w \<le> now (snd (pause d w))"
  by (simp add: pause_def)

lemma AuditLogs_keeps:
  "run_state (DeleteOldAuditLogs retainFor limit) w = (x, w1) \<Longrightarrow>
   events_raw (db w1) = events_raw (db w) \<and> env w1 = env w \<and> now w \<le> now w1"
  using step_clock_now [of w]
  by (auto simp: DeleteOldAuditLogs_def exec_returning_def call_def Let_def delete_old_audit_logs_def
      split: fault.splits)

lemma Events_keeps:
  "run_state (DeleteOldEvents retainFor limit) w = (x, w1) \<Longrightarrow> audit_logs (db w1) = audit_logs (db w)"
  by (auto simp: DeleteOldEvents_def exec_returning_def call_def Let_def delete_old_events_def split: fault.splits)

lemma audit_loop_keeps:
  "events_raw (db (snd (sweepAuditLogs_loop r n w))) = events_raw (db w) \<and>
   env (snd (sweepAuditLogs_loop r n w)) = env w \<and> now w \<le> now (snd (sweepAuditLogs_loop r n w))"
proof (induction r n w rule: sweepAuditLogs_loop.induct)
  case (1 retainFor n w)
  obtain x w1 where d: "run_state (DeleteOldAuditLogs retainFor sweepBatch) w = (x, w1)" by (metis surj_pair)
  obtain go w2 where p: "pause (100 * Millisecond) w1 = (go, w2)" by (metis surj_pair)
  have w2: "db w2 = db w1" "env w2 = env w1" "now w1 \<le> now w2"
    using pause_keeps [of "100 * Millisecond" w1] p by simp_all
  note AuditLogs_keeps [OF d]
  with w2 1 [OF d [symmetric] _ _ p [symmetric]] show ?case
    unfolding sweepAuditLogs_loop.simps [of retainFor n w] d prod.case p
    by (cases x) (simp_all, fastforce)
qed

lemma event_loop_keeps:
  "audit_logs (db (snd (sweepEvents_loop r n w))) = audit_logs (db w)"
proof (induction r n w rule: sweepEvents_loop.induct)
  case (1 retainFor n w)
  obtain x w1 where d: "run_state (DeleteOldEvents retainFor sweepBatch) w = (x, w1)" by (metis surj_pair)
  obtain go w2 where p: "pause (100 * Millisecond) w1 = (go, w2)" by (metis surj_pair)
  have w2: "db w2 = db w1" using pause_keeps [of "100 * Millisecond" w1] p by simp
  note Events_keeps [OF d]
  with w2 1 [OF d [symmetric] _ _ p [symmetric]] show ?case
    unfolding sweepEvents_loop.simps [of retainFor n w] d prod.case p
    by (cases x) simp_all
qed

lemma sweepAuditLogs_result:
  assumes "reliable (env w)" and "\<forall>k. \<not> cancelled (env w) k" and "distinct (map al_id (audit_logs (db w)))"
  shows "wp (sweepAuditLogs retainFor) (\<lambda>_ w'. env w' = env w \<and> now w \<le> now w' \<and> events_raw (db w') = events_raw (db w) \<and>
    (\<exists>t. now w \<le> t \<and> t \<le> now w' \<and> audit_logs (db w') = filter (\<lambda>r. \<not> al_created_at r < t - retainFor) (audit_logs (db w)))) w"
proof -
  obtain w' t where l: "sweepAuditLogs_loop retainFor 0 w = (Some (0 + (length (audit_logs (db w)) - length (audit_logs (db w')))), w')"
    "now w \<le> t" "t \<le> now w'" "audit_logs (db w') = filter (\<lambda>r. \<not> al_created_at r < t - retainFor) (audit_logs (db w))"
    using audit_sweep.sweep_deletes_old [OF assms] by blast
  with audit_loop_keeps [of retainFor 0 w] show ?thesis
    by (auto simp: sweepAuditLogs_def wp_rules)
qed

lemma sweepEvents_result:
  assumes "reliable (env w)" and "\<forall>k. \<not> cancelled (env w) k" and "distinct (map rw_id (events_raw (db w)))"
  shows "wp (sweepEvents retainFor) (\<lambda>_ w'. audit_logs (db w') = audit_logs (db w) \<and>
    (\<exists>t. now w \<le> t \<and> t \<le> now w' \<and> events_raw (db w') = filter (\<lambda>r. \<not> rw_created_at r < t - retainFor) (events_raw (db w)))) w"
proof -
  obtain w' t where l: "sweepEvents_loop retainFor 0 w = (Some (0 + (length (events_raw (db w)) - length (events_raw (db w')))), w')"
    "now w \<le> t" "t \<le> now w'" "events_raw (db w') = filter (\<lambda>r. \<not> rw_created_at r < t - retainFor) (events_raw (db w))"
    using event_sweep.sweep_deletes_old [OF assms] by blast
  with event_loop_keeps [of retainFor 0 w] show ?thesis
    by (auto simp: sweepEvents_def wp_rules)
qed

section \<open>Properties\<close>

text \<open>
  Claim C28. A sweep enforces the retention exactly: without faults it ends, and there are times during
  the sweep such that each table has lost all of its rows older than the retention period at that time and
  none of the others, however many batches it took.
\<close>

theorem cleanup_deletes_exactly_old:
  assumes "reliable (env w)" and "\<forall>k. \<not> cancelled (env w) k"
    and "distinct (map al_id (audit_logs (db w)))" and "distinct (map rw_id (events_raw (db w)))"
  shows "wp (sweep_cleanup retainFor) (\<lambda>_ w'. \<exists>ta te. now w \<le> ta \<and> ta \<le> te \<and> te \<le> now w' \<and>
    audit_logs (db w') = filter (\<lambda>r. \<not> al_created_at r < ta - retainFor) (audit_logs (db w)) \<and>
    events_raw (db w') = filter (\<lambda>r. \<not> rw_created_at r < te - retainFor) (events_raw (db w))) w"
proof -
  have step: "wp (sweepEvents retainFor) (\<lambda>_ w'. \<exists>ta te. now w \<le> ta \<and> ta \<le> te \<and> te \<le> now w' \<and>
    audit_logs (db w') = filter (\<lambda>r. \<not> al_created_at r < ta - retainFor) (audit_logs (db w)) \<and>
    events_raw (db w') = filter (\<lambda>r. \<not> rw_created_at r < te - retainFor) (events_raw (db w))) w1"
    if "env w1 = env w \<and> now w \<le> now w1 \<and> events_raw (db w1) = events_raw (db w) \<and>
      (\<exists>t. now w \<le> t \<and> t \<le> now w1 \<and> audit_logs (db w1) = filter (\<lambda>r. \<not> al_created_at r < t - retainFor) (audit_logs (db w)))" for w1
    by (rule wp_mono [OF sweepEvents_result]) (use that assms in \<open>auto intro: order_trans\<close>)
  show ?thesis
    unfolding sweep_cleanup_def wp_bind
    by (rule wp_mono [OF sweepAuditLogs_result [OF assms(1-3)]]) (rule step)
qed

lemma cleanup_deletes_exactly_old_witness:
  "wp (sweep_cleanup 0) (\<lambda>_ w'. \<exists>ta te. now quiet_world \<le> ta \<and> ta \<le> te \<and> te \<le> now w' \<and>
    audit_logs (db w') = filter (\<lambda>r. \<not> al_created_at r < ta - 0) [\<lparr>al_id = ''a'', al_created_at = -5\<rparr>, \<lparr>al_id = ''b'', al_created_at = 5\<rparr>] \<and>
    events_raw (db w') = filter (\<lambda>r. \<not> rw_created_at r < te - 0) [])
    (quiet_world\<lparr>db := empty_pg\<lparr>audit_logs := [\<lparr>al_id = ''a'', al_created_at = -5\<rparr>, \<lparr>al_id = ''b'', al_created_at = 5\<rparr>]\<rparr>\<rparr>)"
  using cleanup_deletes_exactly_old [of "quiet_world\<lparr>db := empty_pg\<lparr>audit_logs :=
      [\<lparr>al_id = ''a'', al_created_at = -5\<rparr>, \<lparr>al_id = ''b'', al_created_at = 5\<rparr>]\<rparr>\<rparr>" 0]
  by (simp add: quiet_world_def empty_pg_def)

end
