(* ===== verification/SegmentFilter.thy ===== *)
theory SegmentFilter
  imports GoValues World PgDelivery
begin

text \<open>
  The filter trees of segments: \<^verbatim>\<open>internal/worker/segments/evaluator.go\<close>, with the contact row it
  reads and the event query it may ask, from \<^verbatim>\<open>internal/infra/postgres/client.go\<close>. A nil child of
  a group, which JSON \<^verbatim>\<open>null\<close> produces, is \<open>None\<close>; evaluating it is a nil dereference, \<open>EPanic\<close>.
\<close>

section \<open>Contacts and events\<close>

record ContactForEval =
  fe_ID :: string
  fe_WorkspaceID :: string
  fe_Email :: string
  fe_FirstName :: string
  fe_LastName :: string
  fe_Phone :: string
  fe_LifecycleStage :: string
  fe_LeadScore :: int
  fe_Properties :: json
  fe_CreatedAt :: int

definition for_eval :: "contact_row \<Rightarrow> ContactForEval" where
  "for_eval c = \<lparr>fe_ID = id_text c, fe_WorkspaceID = ct_workspace_id c, fe_Email = coalesce (ct_email c) '''',
     fe_FirstName = coalesce (ct_first_name c) '''', fe_LastName = coalesce (ct_last_name c) '''',
     fe_Phone = coalesce (ct_phone c) '''', fe_LifecycleStage = coalesce (ct_lifecycle_stage c) ''lead'',
     fe_LeadScore = coalesce (ct_lead_score c) 0, fe_Properties = coalesce (ct_properties c) (JObj []),
     fe_CreatedAt = ct_created_at c\<rparr>"

definition performed :: "string \<Rightarrow> string \<Rightarrow> string \<Rightarrow> pg \<Rightarrow> bool" where
  "performed workspaceID contactID eventName d \<longleftrightarrow> list_ex (\<lambda>e. en_workspace_id e = workspaceID \<and>
     en_contact_id e = Some contactID \<and> en_event_name e = eventName) (events_enriched d)"

definition ContactHasPerformedEvent :: "string \<Rightarrow> string \<Rightarrow> string \<Rightarrow> (world, goerr + bool) state" where
  "ContactHasPerformedEvent workspaceID contactID eventName =
     query (\<lambda>_. performed workspaceID contactID eventName)"

section \<open>Filter trees\<close>

datatype FilterNode = FilterNode (fn_Operator: string) (fn_Rules: "FilterNode option list")
  (fn_Field: string) (fn_Value: json)

text \<open>
  \<^verbatim>\<open>json.Unmarshal\<close> into a \<open>FilterNode\<close>: keys match without regard to case, \<^verbatim>\<open>null\<close> leaves a
  field as it is, a value of the wrong type is an error (\<open>None\<close>). Two keys that differ only in case
  are assumed not to occur in one object.
\<close>

fun parse_fields :: "(string \<times> json) list \<Rightarrow> FilterNode \<Rightarrow> FilterNode option"
  and parse_rules :: "json list \<Rightarrow> FilterNode option list option" where
  "parse_fields [] n = Some n"
| "parse_fields ((k, v) # kvs) n =
     (let key = ToLower k in
      if key = ''operator'' then
        (case v of JStr s \<Rightarrow> parse_fields kvs (FilterNode s (fn_Rules n) (fn_Field n) (fn_Value n))
         | JNull \<Rightarrow> parse_fields kvs n | _ \<Rightarrow> None)
      else if key = ''field'' then
        (case v of JStr s \<Rightarrow> parse_fields kvs (FilterNode (fn_Operator n) (fn_Rules n) s (fn_Value n))
         | JNull \<Rightarrow> parse_fields kvs n | _ \<Rightarrow> None)
      else if key = ''value'' then
        parse_fields kvs (FilterNode (fn_Operator n) (fn_Rules n) (fn_Field n) v)
      else if key = ''rules'' then
        (case v of
           JArr xs \<Rightarrow>
             (case parse_rules xs of None \<Rightarrow> None
              | Some rs \<Rightarrow> parse_fields kvs (FilterNode (fn_Operator n) rs (fn_Field n) (fn_Value n)))
         | JNull \<Rightarrow> parse_fields kvs (FilterNode (fn_Operator n) [] (fn_Field n) (fn_Value n))
         | _ \<Rightarrow> None)
      else parse_fields kvs n)"
| "parse_rules [] = Some []"
| "parse_rules (x # xs) =
     (case x of
        JNull \<Rightarrow> map_option (\<lambda>rs. None # rs) (parse_rules xs)
      | JObj kvs \<Rightarrow>
          (case parse_fields kvs (FilterNode '''' [] '''' JNull) of None \<Rightarrow> None
           | Some r \<Rightarrow> map_option (\<lambda>rs. Some r # rs) (parse_rules xs))
      | _ \<Rightarrow> None)"

definition parse_error :: goerr where
  "parse_error = Err ''parse filter tree''"

definition ParseFilterTree :: "json \<Rightarrow> goerr + FilterNode option" where
  "ParseFilterTree data =
     (case data of
        JNull \<Rightarrow> Inr None
      | JObj [] \<Rightarrow> Inr None
      | JObj kvs \<Rightarrow>
          (case parse_fields kvs (FilterNode '''' [] '''' JNull) of None \<Rightarrow> Inl parse_error | Some n \<Rightarrow> Inr (Some n))
      | _ \<Rightarrow> Inl parse_error)"

section \<open>Fields and comparisons\<close>

text \<open>\<^verbatim>\<open>strings.SplitN(key, ".", 2)\<close>: the part before the first dot and, if there is one, the rest.\<close>

fun split_dot :: "string \<Rightarrow> string \<times> string option" where
  "split_dot [] = ([], None)"
| "split_dot (c # cs) = (if c = CHR ''.'' then ([], Some cs) else case split_dot cs of (a, b) \<Rightarrow> (c # a, b))"

text \<open>The value of a field: \<open>JNull\<close> is Go's nil.\<close>

definition extractJSONBField :: "json \<Rightarrow> string \<Rightarrow> json" where
  "extractJSONBField data key =
     (case data of
        JObj m \<Rightarrow>
          (case split_dot key of (p, rest) \<Rightarrow>
            (case map_of m p of
               None \<Rightarrow> JNull
             | Some v \<Rightarrow>
                 (case rest of
                    None \<Rightarrow> v
                  | Some q \<Rightarrow> (case v of JObj sub \<Rightarrow> coalesce (map_of sub q) JNull | _ \<Rightarrow> JNull))))
      | _ \<Rightarrow> JNull)"

definition extractField :: "ContactForEval \<Rightarrow> string \<Rightarrow> json" where
  "extractField ct field =
     (if field = ''email'' then JStr (fe_Email ct)
      else if field = ''first_name'' \<or> field = ''firstName'' then JStr (fe_FirstName ct)
      else if field = ''last_name'' \<or> field = ''lastName'' then JStr (fe_LastName ct)
      else if field = ''phone'' then JStr (fe_Phone ct)
      else if field = ''lifecycle_stage'' \<or> field = ''lifecycleStage'' then JStr (fe_LifecycleStage ct)
      else if field = ''lead_score'' \<or> field = ''leadScore'' then JNum (fe_LeadScore ct) 0
      else if field = ''created_at'' \<or> field = ''createdAt'' then JStr (rfc3339 (fe_CreatedAt ct))
      else if HasPrefix field ''properties.'' then
        extractJSONBField (fe_Properties ct) (TrimPrefix field ''properties.'')
      else JNull)"

definition compareEqual :: "json \<Rightarrow> json \<Rightarrow> bool" where
  "compareEqual a b \<longleftrightarrow> sprint a = sprint b"

definition compareContains :: "json \<Rightarrow> json \<Rightarrow> bool" where
  "compareContains a b \<longleftrightarrow> Contains (ToLower (sprint a)) (ToLower (sprint b))"

definition compareStartsWith :: "json \<Rightarrow> json \<Rightarrow> bool" where
  "compareStartsWith a b \<longleftrightarrow> HasPrefix (ToLower (sprint a)) (ToLower (sprint b))"

definition compareEndsWith :: "json \<Rightarrow> json \<Rightarrow> bool" where
  "compareEndsWith a b \<longleftrightarrow> HasSuffix (ToLower (sprint a)) (ToLower (sprint b))"

datatype eres = EOk bool | EErr goerr | EPanic

definition compareNumeric :: "json \<Rightarrow> json \<Rightarrow> string \<Rightarrow> eres" where
  "compareNumeric a b op =
     (case toFloat a of
        None \<Rightarrow> EOk False
      | Some fa \<Rightarrow>
          (case toFloat b of
             None \<Rightarrow> EErr (Err (''numeric comparison: invalid value '' @ sprint b))
           | Some fb \<Rightarrow>
               if op = ''>'' then EOk (fl_less fb fa)
               else if op = ''<'' then EOk (fl_less fa fb)
               else EOk False))"

definition compareIn :: "json \<Rightarrow> json \<Rightarrow> bool" where
  "compareIn a b =
     (case b of JArr xs \<Rightarrow> list_ex (\<lambda>x. sprint x = sprint a) xs | _ \<Rightarrow> compareEqual a b)"

text \<open>\<^verbatim>\<open>%q\<close>, without its escapes; the text only reaches the log.\<close>

definition quoted :: "string \<Rightarrow> string" where
  "quoted s = CHR 0x22 # s @ [CHR 0x22]"

definition evalCondition :: "ContactForEval \<Rightarrow> FilterNode \<Rightarrow> eres" where
  "evalCondition ct node =
     (let v = extractField ct (fn_Field node); op = fn_Operator node in
      if op = ''exists'' then EOk (v \<noteq> JNull \<and> sprint v \<noteq> '''')
      else if op = ''not_exists'' then EOk (v = JNull \<or> sprint v = '''')
      else if v = JNull then EOk False
      else if op = ''equals'' then EOk (compareEqual v (fn_Value node))
      else if op = ''not_equals'' then EOk (\<not> compareEqual v (fn_Value node))
      else if op = ''contains'' then EOk (compareContains v (fn_Value node))
      else if op = ''starts_with'' then EOk (compareStartsWith v (fn_Value node))
      else if op = ''ends_with'' then EOk (compareEndsWith v (fn_Value node))
      else if op = ''greater_than'' then compareNumeric v (fn_Value node) ''>''
      else if op = ''less_than'' then compareNumeric v (fn_Value node) ''<''
      else if op = ''in'' then EOk (compareIn v (fn_Value node))
      else if op = ''not_in'' then EOk (\<not> compareIn v (fn_Value node))
      else EErr (Err (''unknown operator: '' @ quoted op)))"

section \<open>Evaluation\<close>

definition eval_event :: "string \<Rightarrow> ContactForEval \<Rightarrow> FilterNode \<Rightarrow> (world, eres) state" where
  "eval_event ws ct node =
     (let eventName = TrimPrefix (fn_Field node) ''event:''; op = fn_Operator node in
      if op = ''exists'' \<or> op = ''occurred_within_days'' then do {
        r \<leftarrow> ContactHasPerformedEvent ws (fe_ID ct) eventName;
        State_Monad.return (case r of Inl e \<Rightarrow> EErr e | Inr b \<Rightarrow> EOk b)
      } else if op = ''not_exists'' then do {
        r \<leftarrow> ContactHasPerformedEvent ws (fe_ID ct) eventName;
        State_Monad.return (case r of Inl e \<Rightarrow> EErr e | Inr b \<Rightarrow> EOk (\<not> b))
      } else State_Monad.return (EOk False))"

definition eval_leaf :: "string \<Rightarrow> ContactForEval \<Rightarrow> FilterNode \<Rightarrow> (world, eres) state" where
  "eval_leaf ws ct node =
     (if HasPrefix (fn_Field node) ''event:'' then eval_event ws ct node
      else State_Monad.return (evalCondition ct node))"

fun eval :: "string \<Rightarrow> ContactForEval \<Rightarrow> FilterNode \<Rightarrow> (world, eres) state"
  and eval_and :: "string \<Rightarrow> ContactForEval \<Rightarrow> FilterNode option list \<Rightarrow> (world, eres) state"
  and eval_or :: "string \<Rightarrow> ContactForEval \<Rightarrow> FilterNode option list \<Rightarrow> (world, eres) state" where
  "eval ws ct (FilterNode op rules field v) =
     (if rules = [] then eval_leaf ws ct (FilterNode op rules field v)
      else if ToUpper op = ''AND'' then eval_and ws ct rules
      else if ToUpper op = ''OR'' then eval_or ws ct rules
      else State_Monad.return (EErr (Err (''unknown logic operator: '' @ quoted op))))"
| "eval_and ws ct [] = State_Monad.return (EOk True)"
| "eval_and ws ct (c # cs) =
     (case c of
        None \<Rightarrow> State_Monad.return EPanic
      | Some child \<Rightarrow> do {
          r \<leftarrow> eval ws ct child;
          case r of
            EOk b \<Rightarrow> if b then eval_and ws ct cs else State_Monad.return (EOk False)
          | EErr e \<Rightarrow> State_Monad.return (EErr e)
          | EPanic \<Rightarrow> State_Monad.return EPanic
        })"
| "eval_or ws ct [] = State_Monad.return (EOk False)"
| "eval_or ws ct (c # cs) =
     (case c of
        None \<Rightarrow> State_Monad.return EPanic
      | Some child \<Rightarrow> do {
          r \<leftarrow> eval ws ct child;
          case r of
            EOk b \<Rightarrow> if b then State_Monad.return (EOk True) else eval_or ws ct cs
          | EErr e \<Rightarrow> State_Monad.return (EErr e)
          | EPanic \<Rightarrow> State_Monad.return EPanic
        })"

definition Matches :: "string \<Rightarrow> ContactForEval \<Rightarrow> FilterNode option \<Rightarrow> (world, eres) state" where
  "Matches ws ct tree = (case tree of None \<Rightarrow> State_Monad.return (EOk True) | Some n \<Rightarrow> eval ws ct n)"

section \<open>Evaluation reads only\<close>

lemma eval_event_frame [frame]: "steady f \<Longrightarrow> preserves f (eval_event ws ct n)"
  unfolding eval_event_def ContactHasPerformedEvent_def Let_def by (intro frame)

lemma eval_leaf_frame [frame]: "steady f \<Longrightarrow> preserves f (eval_leaf ws ct n)"
  unfolding eval_leaf_def by (intro frame)

lemma preserves_case_eres [frame]:
  "(\<And>b. preserves f (m b)) \<Longrightarrow> (\<And>e. preserves f (n e)) \<Longrightarrow> preserves f k \<Longrightarrow>
   preserves f (case r of EOk b \<Rightarrow> m b | EErr e \<Rightarrow> n e | EPanic \<Rightarrow> k)"
  by (cases r) auto

lemma eval_frame:
  assumes "steady f"
  shows "preserves f (eval ws ct n)" and "preserves f (eval_and ws ct cs)" and "preserves f (eval_or ws ct cs)"
proof (induction ws ct n and ws ct cs and ws ct cs rule: eval_eval_and_eval_or.induct)
  case (1 ws ct op rules field v)
  then show ?case using assms by (simp add: frame)
next
  case (3 ws ct c cs)
  then show ?case by (cases c) (auto intro!: frame)
next
  case (5 ws ct c cs)
  then show ?case by (cases c) (auto intro!: frame)
qed (simp_all add: frame)

lemma Matches_frame [frame]: "steady f \<Longrightarrow> preserves f (Matches ws ct t)"
  unfolding Matches_def by (intro frame eval_frame(1))

text \<open>
  Without faults the verdict on a contact depends on the recorded events alone. \<open>alike m\<close> says so of a
  program; it holds of everything \<open>Matches\<close> is made of.
\<close>

definition alike :: "(world, 'a) state \<Rightarrow> bool" where
  "alike m \<longleftrightarrow> (\<forall>v w. reliable (env v) \<longrightarrow> reliable (env w) \<longrightarrow>
     events_enriched (db v) = events_enriched (db w) \<longrightarrow> fst (run_state m v) = fst (run_state m w)) \<and> preserves db m \<and> preserves env m"

lemma alike_return: "alike (State_Monad.return x)"
  by (simp add: alike_def frame)

lemma alike_performed: "alike (query (\<lambda>_. performed a b c))"
  unfolding alike_def by (intro conjI frame) (simp_all add: query_def call_def Let_def performed_def)

lemma alike_bind:
  assumes "alike m" and "\<And>x. alike (g x)"
  shows "alike (State_Monad.bind m g)"
proof -
  have keep: "preserves db m" "preserves env m" using assms(1) by (simp_all add: alike_def)
  have again: "fst (run_state (g x) v1) = fst (run_state (g x) w1)"
    if "reliable (env v1)" and "reliable (env w1)" and "events_enriched (db v1) = events_enriched (db w1)" for x v1 w1
    using assms(2) [of x] that unfolding alike_def by blast
  have runs: "fst (run_state (State_Monad.bind m g) v) = fst (run_state (State_Monad.bind m g) w)"
    if r: "reliable (env v)" "reliable (env w)" "events_enriched (db v) = events_enriched (db w)" for v w
  proof -
    have same: "fst (run_state m v) = fst (run_state m w)" using assms(1) r unfolding alike_def by blast
    have "fst (run_state (g x) (snd (run_state m v))) = fst (run_state (g x) (snd (run_state m w)))" for x
      by (rule again) (simp_all add: r preservesD [OF keep(1)] preservesD [OF keep(2)])
    then show ?thesis using same by (simp add: split_def)
  qed
  have pres: "preserves db (State_Monad.bind m g)" "preserves env (State_Monad.bind m g)"
    using keep assms(2) by (auto simp: alike_def intro: frame)
  show ?thesis unfolding alike_def using runs pres by blast
qed

lemma alike_case_eres:
  "(\<And>b. alike (m b)) \<Longrightarrow> (\<And>e. alike (n e)) \<Longrightarrow> alike k \<Longrightarrow>
   alike (case r of EOk b \<Rightarrow> m b | EErr e \<Rightarrow> n e | EPanic \<Rightarrow> k)"
  by (cases r) auto

lemmas alike_rules = alike_return alike_performed alike_bind alike_case_eres

lemma alike_leaf: "alike (eval_leaf ws ct n)"
  by (auto simp: eval_leaf_def eval_event_def ContactHasPerformedEvent_def Let_def intro!: alike_rules)

lemma alike_eval: "alike (eval ws ct n)" and "alike (eval_and ws ct cs)" and "alike (eval_or ws ct cs)"
proof (induction ws ct n and ws ct cs and ws ct cs rule: eval_eval_and_eval_or.induct)
  case (1 ws ct op rules field v)
  then show ?case by (simp add: alike_rules alike_leaf)
next
  case (3 ws ct c cs)
  then show ?case by (cases c) (auto intro!: alike_rules)
next
  case (5 ws ct c cs)
  then show ?case by (cases c) (auto intro!: alike_rules)
qed (simp_all add: alike_rules)

lemma alike_Matches: "alike (Matches ws ct t)"
  by (cases t) (simp_all add: Matches_def alike_return alike_eval)

text \<open>The verdict, read off a world without faults that holds the database.\<close>

definition verdict :: "pg \<Rightarrow> string \<Rightarrow> ContactForEval \<Rightarrow> FilterNode option \<Rightarrow> eres" where
  "verdict d ws ct t = fst (run_state (Matches ws ct t) (quiet_world\<lparr>db := d\<rparr>))"

lemma Matches_verdict: "reliable (env w) \<Longrightarrow> fst (run_state (Matches ws ct t) w) = verdict (db w) ws ct t"
  using alike_Matches [of ws ct t] unfolding alike_def verdict_def
  by (elim conjE allE [of _ w] allE [of _ "quiet_world\<lparr>db := db w\<rparr>"]) (simp add: quiet_world_def)

lemma verdict_events: "events_enriched d' = events_enriched d \<Longrightarrow> verdict d' ws ct t = verdict d ws ct t"
  using alike_Matches [of ws ct t] unfolding alike_def verdict_def by (simp add: quiet_world_def)

section \<open>The boolean reading of a filter tree\<close>

text \<open>
  What a filter tree means: a group is the conjunction or the disjunction of its rules, an event
  rule asks for the event, any other rule is a comparison. A tree is sound when its groups are AND
  or OR groups without null rules, and its comparisons use a known operator and a number where one
  is needed.
\<close>

definition leaf_holds :: "pg \<Rightarrow> string \<Rightarrow> ContactForEval \<Rightarrow> FilterNode \<Rightarrow> bool" where
  "leaf_holds d ws ct n =
     (if HasPrefix (fn_Field n) ''event:'' then
        (let p = performed ws (fe_ID ct) (TrimPrefix (fn_Field n) ''event:'') d in
         fn_Operator n \<in> {''exists'', ''occurred_within_days''} \<and> p \<or> fn_Operator n = ''not_exists'' \<and> \<not> p)
      else evalCondition ct n = EOk True)"

fun sat :: "pg \<Rightarrow> string \<Rightarrow> ContactForEval \<Rightarrow> FilterNode \<Rightarrow> bool" where
  "sat d ws ct (FilterNode op rules field v) =
     (if rules = [] then leaf_holds d ws ct (FilterNode op rules field v)
      else if ToUpper op = ''AND'' then list_all (\<lambda>r. case r of None \<Rightarrow> False | Some n \<Rightarrow> sat d ws ct n) rules
      else list_ex (\<lambda>r. case r of None \<Rightarrow> False | Some n \<Rightarrow> sat d ws ct n) rules)"

definition sound_leaf :: "FilterNode \<Rightarrow> bool" where
  "sound_leaf n \<longleftrightarrow> HasPrefix (fn_Field n) ''event:'' \<or>
     list_ex ((=) (fn_Operator n)) [''exists'', ''not_exists'', ''equals'', ''not_equals'', ''contains'',
       ''starts_with'', ''ends_with'', ''in'', ''not_in''] \<or>
     (fn_Operator n = ''greater_than'' \<or> fn_Operator n = ''less_than'') \<and> toFloat (fn_Value n) \<noteq> None"

fun sound_tree :: "FilterNode \<Rightarrow> bool" where
  "sound_tree (FilterNode op rules field v) =
     (if rules = [] then sound_leaf (FilterNode op rules field v)
      else (ToUpper op = ''AND'' \<or> ToUpper op = ''OR'') \<and>
        list_all (\<lambda>r. case r of None \<Rightarrow> False | Some n \<Rightarrow> sound_tree n) rules)"

lemma sound_condition:
  assumes "sound_leaf n" and "\<not> HasPrefix (fn_Field n) ''event:''"
  shows "\<exists>b. evalCondition ct n = EOk b"
  using assms by (cases "extractField ct (fn_Field n) = JNull")
    (auto simp: sound_leaf_def evalCondition_def Let_def compareNumeric_def split: option.split)

lemma sound_leaf_eval:
  assumes "reliable (env w)" and "sound_leaf n"
  shows "fst (run_state (eval_leaf ws ct n) w) = EOk (leaf_holds (db w) ws ct n)"
proof (cases "HasPrefix (fn_Field n) ''event:''")
  case True
  then show ?thesis
    using assms(1) by (simp add: eval_leaf_def eval_event_def leaf_holds_def Let_def
        ContactHasPerformedEvent_def query_def call_def)
next
  case False
  then obtain b where "evalCondition ct n = EOk b"
    using sound_condition assms(2) by blast
  then show ?thesis using False by (simp add: eval_leaf_def leaf_holds_def)
qed

lemma child_eval:
  assumes "reliable (env w)"
  shows "fst (run_state (eval ws ct n) w) = EOk b \<Longrightarrow>
    \<exists>w'. run_state (eval ws ct n) w = (EOk b, w') \<and> reliable (env w') \<and> db w' = db w"
  using assms preservesD [OF eval_frame(1) [of env ws ct n], of w] preservesD [OF eval_frame(1) [of db ws ct n], of w]
  by (cases "run_state (eval ws ct n) w") simp

lemma eval_sat:
  shows "reliable (env w) \<Longrightarrow> sound_tree n \<Longrightarrow>
      fst (run_state (eval ws ct n) w) = EOk (sat (db w) ws ct n)"
    and "reliable (env w) \<Longrightarrow> list_all (\<lambda>r. case r of None \<Rightarrow> False | Some n \<Rightarrow> sound_tree n) cs \<Longrightarrow>
      fst (run_state (eval_and ws ct cs) w) = EOk (list_all (\<lambda>r. case r of None \<Rightarrow> False | Some n \<Rightarrow> sat (db w) ws ct n) cs)"
    and "reliable (env w) \<Longrightarrow> list_all (\<lambda>r. case r of None \<Rightarrow> False | Some n \<Rightarrow> sound_tree n) cs \<Longrightarrow>
      fst (run_state (eval_or ws ct cs) w) = EOk (list_ex (\<lambda>r. case r of None \<Rightarrow> False | Some n \<Rightarrow> sat (db w) ws ct n) cs)"
proof (induction ws ct n and ws ct cs and ws ct cs arbitrary: w and w and w rule: eval_eval_and_eval_or.induct)
  case (1 ws ct op rules field v)
  then show ?case by (cases "rules = []") (auto simp: sound_leaf_eval)
next
  case (3 ws ct c cs)
  then obtain n where n: "c = Some n" by (cases c) auto
  with 3 have "fst (run_state (eval ws ct n) w) = EOk (sat (db w) ws ct n)" by simp
  from child_eval [OF 3(3) this] show ?case using 3 n by (auto split: if_splits)
next
  case (5 ws ct c cs)
  then obtain n where n: "c = Some n" by (cases c) auto
  with 5 have "fst (run_state (eval ws ct n) w) = EOk (sat (db w) ws ct n)" by simp
  from child_eval [OF 5(3) this] show ?case using 5 n by (auto split: if_splits)
qed simp_all

lemma verdict_sat: "sound_tree n \<Longrightarrow> verdict d ws ct (Some n) = EOk (sat d ws ct n)"
  by (simp add: verdict_def Matches_def eval_sat quiet_world_def)

lemma verdict_None [simp]: "verdict d ws ct None = EOk True"
  by (simp add: verdict_def Matches_def)

section \<open>Null rules\<close>

text \<open>The evaluation reaches a null rule: every rule before it leaves the group undecided.\<close>

fun meets_null :: "pg \<Rightarrow> string \<Rightarrow> ContactForEval \<Rightarrow> FilterNode \<Rightarrow> bool"
  and rules_meet_null :: "bool \<Rightarrow> pg \<Rightarrow> string \<Rightarrow> ContactForEval \<Rightarrow> FilterNode option list \<Rightarrow> bool" where
  "meets_null d ws ct (FilterNode op rules field v) \<longleftrightarrow> rules \<noteq> [] \<and>
     (ToUpper op = ''AND'' \<and> rules_meet_null True d ws ct rules \<or> ToUpper op = ''OR'' \<and> rules_meet_null False d ws ct rules)"
| "rules_meet_null b d ws ct [] \<longleftrightarrow> False"
| "rules_meet_null b d ws ct (r # rs) \<longleftrightarrow>
     (case r of
        None \<Rightarrow> True
      | Some n \<Rightarrow> meets_null d ws ct n \<or> sound_tree n \<and> sat d ws ct n = b \<and> rules_meet_null b d ws ct rs)"

lemma eval_panics:
  "reliable (env w) \<Longrightarrow> meets_null (db w) ws ct n \<Longrightarrow> fst (run_state (eval ws ct n) w) = EPanic"
  "reliable (env w) \<Longrightarrow> rules_meet_null True (db w) ws ct cs \<Longrightarrow> fst (run_state (eval_and ws ct cs) w) = EPanic"
  "reliable (env w) \<Longrightarrow> rules_meet_null False (db w) ws ct cs \<Longrightarrow> fst (run_state (eval_or ws ct cs) w) = EPanic"
proof (induction ws ct n and ws ct cs and ws ct cs arbitrary: w and w and w rule: eval_eval_and_eval_or.induct)
  case (1 ws ct op rules field v)
  then have r: "rules \<noteq> []"
    and d: "ToUpper op = ''AND'' \<and> rules_meet_null True (db w) ws ct rules \<or> ToUpper op = ''OR'' \<and> rules_meet_null False (db w) ws ct rules"
    by simp_all
  from d show ?case
  proof
    assume a: "ToUpper op = ''AND'' \<and> rules_meet_null True (db w) ws ct rules"
    with 1(1) [OF r _ 1(3)] show ?thesis using r by simp
  next
    assume a: "ToUpper op = ''OR'' \<and> rules_meet_null False (db w) ws ct rules"
    with 1(2) [OF r _ _ 1(3)] show ?thesis using r by simp
  qed
next
  case (3 ws ct c cs)
  show ?case
  proof (cases c)
    case (Some n)
    show ?thesis
    proof (cases "meets_null (db w) ws ct n")
      case True
      from 3(1) [OF Some 3(3) this] show ?thesis by (cases "run_state (eval ws ct n) w") (simp add: Some)
    next
      case False
      with 3(4) have n: "sound_tree n" "sat (db w) ws ct n" "rules_meet_null True (db w) ws ct cs" by (simp_all add: Some)
      from eval_sat(1) [OF 3(3) n(1), of ws ct] n(2) have "fst (run_state (eval ws ct n) w) = EOk True" by simp
      from child_eval [OF 3(3) this] show ?thesis using 3(2) [OF Some] n(3) Some by auto
    qed
  qed simp
next
  case (5 ws ct c cs)
  show ?case
  proof (cases c)
    case (Some n)
    show ?thesis
    proof (cases "meets_null (db w) ws ct n")
      case True
      from 5(1) [OF Some 5(3) this] show ?thesis by (cases "run_state (eval ws ct n) w") (simp add: Some)
    next
      case False
      with 5(4) have n: "sound_tree n" "\<not> sat (db w) ws ct n" "rules_meet_null False (db w) ws ct cs" by (simp_all add: Some)
      from eval_sat(1) [OF 5(3) n(1), of ws ct] n(2) have "fst (run_state (eval ws ct n) w) = EOk False" by simp
      from child_eval [OF 5(3) this] show ?thesis using 5(2) [OF Some, of False] n(3) Some by auto
    qed
  qed simp
qed simp_all

lemma verdict_panics: "meets_null d ws ct n \<Longrightarrow> verdict d ws ct (Some n) = EPanic"
  by (simp add: verdict_def Matches_def eval_panics quiet_world_def)

section \<open>Properties\<close>

definition sample_person :: ContactForEval where
  "sample_person = \<lparr>fe_ID = ''c1'', fe_WorkspaceID = ''w'', fe_Email = ''Ann@X.io'', fe_FirstName = ''Ann'',
     fe_LastName = '''', fe_Phone = '''', fe_LifecycleStage = ''lead'', fe_LeadScore = 40,
     fe_Properties = JObj [(''plan'', JStr ''pro'')], fe_CreatedAt = 0\<rparr>"

definition sample_tree :: FilterNode where
  "sample_tree = FilterNode ''and''
     [Some (FilterNode ''contains'' [] ''email'' (JStr ''x.IO'')),
      Some (FilterNode ''OR'' [Some (FilterNode ''greater_than'' [] ''lead_score'' (JNum 100 0)),
                           Some (FilterNode ''not_exists'' [] ''event:purchase'' JNull)] '''' JNull)] '''' JNull"

text \<open>
  Claim C24. The evaluator computes the boolean reading of a sound filter tree: without faults it decides
  \<open>sat\<close> for every contact, short-circuiting included, and changes nothing.
\<close>

theorem filter_boolean_reading:
  assumes "reliable (env w)" and "sound_tree n"
  shows "wp (Matches ws ct (Some n)) (\<lambda>r w'. r = EOk (sat (db w) ws ct n) \<and> db w' = db w \<and>
    published w' = published w \<and> redis w' = redis w \<and> settled w' = settled w) w"
  unfolding wp_def
  using assms by (intro conjI preservesD frame) (simp_all add: Matches_def eval_sat)

lemma filter_boolean_reading_witness:
  "wp (Matches ''w'' sample_person (Some sample_tree)) (\<lambda>r w'. r = EOk True \<and> db w' = db quiet_world \<and>
    published w' = published quiet_world \<and> redis w' = redis quiet_world \<and> settled w' = settled quiet_world) quiet_world"
proof -
  have "sound_tree sample_tree" and "sat (db quiet_world) ''w'' sample_person sample_tree" by code_simp+
  then show ?thesis
    using filter_boolean_reading [of quiet_world sample_tree "''w''" sample_person] by (simp add: quiet_world_def)
qed

text \<open>
  What the negated operators mean: \<^verbatim>\<open>not_exists\<close> is the complement of \<^verbatim>\<open>exists\<close>, while
  \<^verbatim>\<open>not_equals\<close> and \<^verbatim>\<open>not_in\<close> are complements only on contacts that have the field; on one that
  does not, the operator and its negation are both false.
\<close>

theorem negated_operators:
  assumes "(op, nop) \<in> {(''equals'', ''not_equals''), (''in'', ''not_in'')}"
  shows "evalCondition ct (FilterNode nop rs f v) =
      (if extractField ct f = JNull then evalCondition ct (FilterNode op rs f v)
       else case evalCondition ct (FilterNode op rs f v) of EOk b \<Rightarrow> EOk (\<not> b) | r \<Rightarrow> r) \<and>
    (extractField ct f = JNull \<longrightarrow> evalCondition ct (FilterNode op rs f v) = EOk False) \<and>
    evalCondition ct (FilterNode ''not_exists'' rs f v) =
      (case evalCondition ct (FilterNode ''exists'' rs f v) of EOk b \<Rightarrow> EOk (\<not> b) | r \<Rightarrow> r)"
  using assms unfolding evalCondition_def Let_def
  by (cases "extractField ct f = JNull") (elim insertE emptyE; simp)+

lemma negated_operators_witness:
  "evalCondition sample_person (FilterNode ''not_equals'' [] ''properties.city'' (JStr ''Rome'')) = EOk False"
proof -
  have "extractField sample_person ''properties.city'' = JNull" by code_simp
  then show ?thesis
    using negated_operators [of "''equals''" "''not_equals''" sample_person "[]" "''properties.city''" "JStr ''Rome''"]
    by simp
qed

text \<open>
  An empty group selects nobody: \<^verbatim>\<open>evalLogic\<close> returns true for a group without rules, but \<^verbatim>\<open>eval\<close>
  sends such a node to the comparison of an empty field, so a segment whose AND or OR group has no rule
  left matches no contact, whereas the empty tree matches all.
\<close>

theorem empty_group_selects_nobody:
  "ParseFilterTree (JObj [(''operator'', JStr ''AND''), (''rules'', JArr [])]) = Inr (Some (FilterNode ''AND'' [] '''' JNull)) \<and>
   verdict d ws ct (Some (FilterNode ''AND'' [] '''' JNull)) = EOk False \<and>
   ParseFilterTree (JObj [(''operator'', JStr ''OR''), (''rules'', JArr [])]) = Inr (Some (FilterNode ''OR'' [] '''' JNull)) \<and>
   verdict d ws ct (Some (FilterNode ''OR'' [] '''' JNull)) = EOk False \<and>
   ParseFilterTree (JObj []) = Inr None \<and> verdict d ws ct None = EOk True"
proof -
  have "ParseFilterTree (JObj [(''operator'', JStr ''AND''), (''rules'', JArr [])]) = Inr (Some (FilterNode ''AND'' [] '''' JNull))"
    and "ParseFilterTree (JObj [(''operator'', JStr ''OR''), (''rules'', JArr [])]) = Inr (Some (FilterNode ''OR'' [] '''' JNull))"
    and "ParseFilterTree (JObj []) = Inr None" by code_simp+
  moreover have "verdict d ws ct (Some (FilterNode op [] '''' JNull)) = EOk False" if "op = ''AND'' \<or> op = ''OR''" for op
    using that by (auto simp: verdict_def Matches_def eval_leaf_def evalCondition_def extractField_def HasPrefix_def)
  ultimately show ?thesis by simp
qed

end
