(* ===== verification/Segments.thy ===== *)
theory Segments
  imports SegmentFilter Keyset Messaging
begin

text \<open>
  The segment refresh worker: \<^verbatim>\<open>internal/worker/segments/handler.go\<close> with the queries it makes
  (\<^verbatim>\<open>internal/infra/postgres/client.go\<close>). A Go set of ids is a list without duplicates; a
  transaction of \<^verbatim>\<open>InsertSegmentMembers\<close> or \<^verbatim>\<open>DeleteSegmentMembers\<close> is one call of the
  environment, which commits as a whole or not at all.
\<close>

section \<open>Segments and memberships\<close>

record SegmentRow =
  sgr_ID :: string
  sgr_WorkspaceID :: string
  sgr_Name :: string
  sgr_FilterTree :: json
  sgr_Status :: string

definition this_segment :: "string \<Rightarrow> string \<Rightarrow> segment_row \<Rightarrow> bool" where
  "this_segment segmentID workspaceID r \<longleftrightarrow> sg_id r = segmentID \<and> sg_workspace_id r = workspaceID"

definition segment_of :: "segment_row \<Rightarrow> SegmentRow" where
  "segment_of r = \<lparr>sgr_ID = sg_id r, sgr_WorkspaceID = sg_workspace_id r, sgr_Name = sg_name r,
     sgr_FilterTree = coalesce (sg_filter_tree r) (JObj []), sgr_Status = coalesce (sg_status r) ''queued''\<rparr>"

definition GetSegment :: "string \<Rightarrow> string \<Rightarrow> (world, goerr + SegmentRow option) state" where
  "GetSegment segmentID workspaceID =
     query (\<lambda>_ d. map_option segment_of (find (this_segment segmentID workspaceID) (segments d)))"

definition set_segment_status :: "string \<Rightarrow> string \<Rightarrow> string \<Rightarrow> int \<Rightarrow> pg \<Rightarrow> pg" where
  "set_segment_status segmentID workspaceID status t d = d\<lparr>segments :=
     update_where (this_segment segmentID workspaceID)
       (\<lambda>r. r\<lparr>sg_status := Some status, sg_last_computed := Some t, sg_updated_at := t\<rparr>) (segments d)\<rparr>"

definition UpdateSegmentStatus :: "string \<Rightarrow> string \<Rightarrow> string \<Rightarrow> (world, goerr + unit) state" where
  "UpdateSegmentStatus segmentID workspaceID status = exec (set_segment_status segmentID workspaceID status)"

definition set_segment_ready :: "string \<Rightarrow> string \<Rightarrow> int \<Rightarrow> int \<Rightarrow> pg \<Rightarrow> pg" where
  "set_segment_ready segmentID workspaceID count t d = d\<lparr>segments :=
     update_where (this_segment segmentID workspaceID)
       (\<lambda>r. r\<lparr>sg_status := Some ''ready'', sg_contact_count := count, sg_last_computed := Some t,
              sg_updated_at := t\<rparr>) (segments d)\<rparr>"

definition UpdateSegmentReady :: "string \<Rightarrow> string \<Rightarrow> int \<Rightarrow> (world, goerr + unit) state" where
  "UpdateSegmentReady segmentID workspaceID count = exec (set_segment_ready segmentID workspaceID count)"

definition this_membership :: "string \<Rightarrow> string \<Rightarrow> membership_row \<Rightarrow> bool" where
  "this_membership segmentID workspaceID r \<longleftrightarrow> sm_segment_id r = segmentID \<and> sm_workspace_id r = workspaceID"

definition member_ids :: "string \<Rightarrow> string \<Rightarrow> pg \<Rightarrow> string list" where
  "member_ids segmentID workspaceID d =
     remdups (map sm_contact_id (filter (this_membership segmentID workspaceID) (segment_memberships d)))"

definition GetCurrentMemberIDs :: "string \<Rightarrow> string \<Rightarrow> (world, goerr + string list) state" where
  "GetCurrentMemberIDs segmentID workspaceID = query (\<lambda>_. member_ids segmentID workspaceID)"

definition insert_member :: "string \<Rightarrow> string \<Rightarrow> int \<Rightarrow> string \<Rightarrow> membership_row list \<Rightarrow> membership_row list" where
  "insert_member segmentID workspaceID t k ms =
     (if list_ex (\<lambda>r. sm_segment_id r = segmentID \<and> sm_contact_id r = k) ms then ms
      else ms @ [\<lparr>sm_segment_id = segmentID, sm_workspace_id = workspaceID, sm_contact_id = k, sm_created_at = t\<rparr>])"

definition InsertSegmentMembers :: "string \<Rightarrow> string \<Rightarrow> string list \<Rightarrow> (world, goerr + unit) state" where
  "InsertSegmentMembers segmentID workspaceID contactIDs =
     (if contactIDs = [] then State_Monad.return (Inr ())
      else exec (\<lambda>t d. d\<lparr>segment_memberships :=
             fold (insert_member segmentID workspaceID t) contactIDs (segment_memberships d)\<rparr>))"

definition delete_member :: "string \<Rightarrow> string \<Rightarrow> string \<Rightarrow> membership_row list \<Rightarrow> membership_row list" where
  "delete_member segmentID workspaceID k =
     filter (\<lambda>r. \<not> (this_membership segmentID workspaceID r \<and> sm_contact_id r = k))"

definition DeleteSegmentMembers :: "string \<Rightarrow> string \<Rightarrow> string list \<Rightarrow> (world, goerr + unit) state" where
  "DeleteSegmentMembers segmentID workspaceID contactIDs =
     (if contactIDs = [] then State_Monad.return (Inr ())
      else exec (\<lambda>t d. d\<lparr>segment_memberships :=
             fold (delete_member segmentID workspaceID) contactIDs (segment_memberships d)\<rparr>))"

section \<open>Streaming the contacts\<close>

definition workspace_contacts :: "string \<Rightarrow> pg \<Rightarrow> contact_row list" where
  "workspace_contacts workspaceID d =
     sort_key id_text (filter (\<lambda>c. ct_workspace_id c = workspaceID \<and> ct_deleted_at c = None) (contacts d))"

definition contacts_page :: "string \<Rightarrow> string \<Rightarrow> nat \<Rightarrow> pg \<Rightarrow> contact_row list" where
  "contacts_page workspaceID afterID limit d =
     take limit (sort_key id_text (filter (\<lambda>c. ct_workspace_id c = workspaceID \<and> ct_deleted_at c = None \<and>
       after_key afterID (id_text c)) (contacts d)))"

interpretation eval_keys: keyset_source
  "\<lambda>a n. contacts_page workspaceID a n d" id_text "workspace_contacts workspaceID d"
proof
  show "sorted (map id_text (workspace_contacts workspaceID d))"
    by (simp add: workspace_contacts_def)
  show "contacts_page workspaceID a n d =
      take n (filter (\<lambda>r. after_key a (id_text r)) (workspace_contacts workspaceID d))" for a n
    by (simp add: contacts_page_def workspace_contacts_def filter_sort conj_ac)
  show "id_text r \<noteq> ''''" for r
    by (simp add: id_text_def)
qed

text \<open>
  The callback on a page: the ids that match so far, an error, or a panic inside the evaluator.
\<close>

datatype scan = Scanned "string list" | ScanErr goerr | ScanPanic

definition add_key :: "string \<Rightarrow> string list \<Rightarrow> string list" where
  "add_key k ks = (if k \<in> set ks then ks else ks @ [k])"

fun eval_page :: "string \<Rightarrow> FilterNode option \<Rightarrow> ContactForEval list \<Rightarrow> string list \<Rightarrow> (world, scan) state" where
  "eval_page workspaceID tree [] matched = State_Monad.return (Scanned matched)"
| "eval_page workspaceID tree (c # page) matched = do {
     r \<leftarrow> Matches workspaceID c tree;
     case r of
       EOk ok \<Rightarrow> eval_page workspaceID tree page (if ok then add_key (fe_ID c) matched else matched)
     | EErr e \<Rightarrow> State_Monad.return (ScanErr (Wrap (''evaluate contact '' @ fe_ID c) e))
     | EPanic \<Rightarrow> State_Monad.return ScanPanic
   }"

definition FetchEvalPage :: "string \<Rightarrow> string \<Rightarrow> nat \<Rightarrow> (world, goerr + ContactForEval list) state" where
  "FetchEvalPage workspaceID afterID pageSize =
     query (\<lambda>_ d. map for_eval (contacts_page workspaceID afterID pageSize d))"

lemma eval_page_frame [frame]: "steady f \<Longrightarrow> preserves f (eval_page ws t page ms)"
  by (induction page arbitrary: ms) (auto intro!: frame)

lemma FetchEvalPage_frame [frame]: "steady f \<Longrightarrow> preserves f (FetchEvalPage ws a n)"
  unfolding FetchEvalPage_def by (intro frame)

lemma fe_ID_for_eval [simp]: "fe_ID (for_eval c) = id_text c"
  by (simp add: for_eval_def)

lemma page_progress:
  assumes "run_state (FetchEvalPage ws a n) w = (Inr page, w1)" and "page \<noteq> []" and "db w2 = db w1"
  shows "length (filter (\<lambda>c. after_key (fe_ID (last page)) (id_text c)) (workspace_contacts ws (db w2)))
    < length (filter (\<lambda>c. after_key a (id_text c)) (workspace_contacts ws (db w)))"
proof -
  have "db w1 = db w" using preservesD [OF FetchEvalPage_frame [of db ws a n], of w] assms(1) by simp
  moreover have p: "page = map for_eval (contacts_page ws a n (db w))"
    using assms(1) by (auto simp: FetchEvalPage_def query_def call_def Let_def split: fault.splits)
  moreover have ne: "contacts_page ws a n (db w) \<noteq> []" using p assms(2) by simp
  then have "fe_ID (last page) = id_text (last (contacts_page ws a n (db w)))"
    using p by (simp add: last_map)
  ultimately show ?thesis using eval_keys.fetch_progress [OF ne] assms(3) by simp
qed

function StreamContactsForEval_loop ::
    "string \<Rightarrow> nat \<Rightarrow> FilterNode option \<Rightarrow> string \<Rightarrow> string list \<Rightarrow> world \<Rightarrow> scan \<times> world" where
  "StreamContactsForEval_loop workspaceID pageSize tree afterID matched w =
     (case run_state (FetchEvalPage workspaceID afterID pageSize) w of
        (Inl e, w1) \<Rightarrow> (ScanErr e, w1)
      | (Inr page, w1) \<Rightarrow>
          if page = [] then (Scanned matched, w1)
          else
            (case run_state (eval_page workspaceID tree page matched) w1 of
               (Scanned ms, w2) \<Rightarrow>
                 if length page < pageSize then (Scanned ms, w2)
                 else StreamContactsForEval_loop workspaceID pageSize tree (fe_ID (last page)) ms w2
             | (ScanErr e, w2) \<Rightarrow> (ScanErr e, w2)
             | (ScanPanic, w2) \<Rightarrow> (ScanPanic, w2)))"
  by pat_completeness auto
termination
proof (relation "measure (\<lambda>(ws, n, t, a, ms, w).
    length (filter (\<lambda>c. after_key a (id_text c)) (workspace_contacts ws (db w))))", goal_cases)
  case (2 ws n t a ms w r w1 page s w2 ms')
  have "db w2 = db w1"
    using preservesD [OF eval_page_frame [of db ws t page ms], of w1] 2 by (metis snd_conv steady_simps(2))
  then show ?case using page_progress [of ws a n w page w1 w2] 2 by simp
qed simp

declare StreamContactsForEval_loop.simps [simp del]

definition StreamContactsForEval :: "string \<Rightarrow> nat \<Rightarrow> FilterNode option \<Rightarrow> (world, scan) state" where
  "StreamContactsForEval workspaceID pageSize tree =
     State (StreamContactsForEval_loop workspaceID pageSize tree '''' [])"

section \<open>The handler\<close>

abbreviation lockTTL :: int where "lockTTL \<equiv> 10 * Minute"
abbreviation evalPageSize :: nat where "evalPageSize \<equiv> 500"

definition nak_segment :: "int \<Rightarrow> nat \<Rightarrow> (world, hresult) state" where
  "nak_segment maxRetries attempt =
     (if int attempt \<ge> maxRetries then do { inc ''segment_refresh_failures_total''; finish Term }
      else do { inc ''segment_refresh_retries_total''; finish Nak })"

definition diff :: "string list \<Rightarrow> string list \<Rightarrow> string list" where
  "diff a b = filter (\<lambda>k. k \<notin> set b) a"

text \<open>From the matched ids to the acknowledgement.\<close>

definition apply_matched :: "int \<Rightarrow> nat \<Rightarrow> SegmentRefreshPayload \<Rightarrow> string list \<Rightarrow> (world, hresult) state" where
  "apply_matched maxRetries attempt p matched = do {
     inc_by ''segment_contacts_matched_total'' (length matched);
     c \<leftarrow> GetCurrentMemberIDs (sr_SegmentID p) (sr_WorkspaceID p);
     case c of
       Inl e \<Rightarrow> nak_segment maxRetries attempt
     | Inr current \<Rightarrow> do {
         i \<leftarrow> InsertSegmentMembers (sr_SegmentID p) (sr_WorkspaceID p) (diff matched current);
         case i of
           Inl e \<Rightarrow> nak_segment maxRetries attempt
         | Inr _ \<Rightarrow> do {
             x \<leftarrow> DeleteSegmentMembers (sr_SegmentID p) (sr_WorkspaceID p) (diff current matched);
             case x of
               Inl e \<Rightarrow> nak_segment maxRetries attempt
             | Inr _ \<Rightarrow> do {
                 inc_by ''segment_membership_inserts_total'' (length (diff matched current));
                 inc_by ''segment_membership_removals_total'' (length (diff current matched));
                 y \<leftarrow> UpdateSegmentReady (sr_SegmentID p) (sr_WorkspaceID p)
                        (int (length current) + int (length (diff matched current)) - int (length (diff current matched)));
                 case y of
                   Inl e \<Rightarrow> nak_segment maxRetries attempt
                 | Inr _ \<Rightarrow> finish Ack
               }
           }
       }
   }"

definition recompute :: "int \<Rightarrow> nat \<Rightarrow> SegmentRefreshPayload \<Rightarrow> FilterNode option \<Rightarrow> (world, hresult) state" where
  "recompute maxRetries attempt p tree = do {
     sc \<leftarrow> StreamContactsForEval (sr_WorkspaceID p) evalPageSize tree;
     case sc of
       Scanned matched \<Rightarrow> apply_matched maxRetries attempt p matched
     | ScanErr e \<Rightarrow> do {
         _ \<leftarrow> UpdateSegmentStatus (sr_SegmentID p) (sr_WorkspaceID p) ''failed'';
         nak_segment maxRetries attempt
       }
     | ScanPanic \<Rightarrow> State_Monad.return Panic
   }"

text \<open>What the handler does while it holds the lock.\<close>

definition refresh :: "int \<Rightarrow> nat \<Rightarrow> SegmentRefreshPayload \<Rightarrow> (world, hresult) state" where
  "refresh maxRetries attempt p = do {
     s \<leftarrow> GetSegment (sr_SegmentID p) (sr_WorkspaceID p);
     case s of
       Inl e \<Rightarrow> nak_segment maxRetries attempt
     | Inr row \<Rightarrow>
         (case row of
            None \<Rightarrow> finish Term
          | Some seg \<Rightarrow>
              (case ParseFilterTree (sgr_FilterTree seg) of
                 Inl e \<Rightarrow> do {
                   _ \<leftarrow> UpdateSegmentStatus (sr_SegmentID p) (sr_WorkspaceID p) ''failed'';
                   finish Term
                 }
               | Inr tree \<Rightarrow> do {
                   u \<leftarrow> UpdateSegmentStatus (sr_SegmentID p) (sr_WorkspaceID p) ''processing'';
                   case u of
                     Inl e \<Rightarrow> nak_segment maxRetries attempt
                   | Inr _ \<Rightarrow> recompute maxRetries attempt p tree
                 }))
   }"

definition segment_lock_key :: "SegmentRefreshPayload \<Rightarrow> string" where
  "segment_lock_key p = ''segment:'' @ sr_SegmentID p @ '':refresh''"

text \<open>The deferred \<^verbatim>\<open>ReleaseLock\<close> runs on every way out of \<open>refresh\<close>, a panic included.\<close>

definition Handle_segment :: "int \<Rightarrow> SegmentRefreshPayload message \<Rightarrow> (world, hresult) state" where
  "Handle_segment maxRetries msg = do {
     inc ''segment_refresh_jobs_total'';
     case Data msg of
       None \<Rightarrow> finish Term
     | Some p \<Rightarrow>
         if sr_WorkspaceID p = '''' \<or> sr_SegmentID p = '''' then finish Term else do {
           lockVal \<leftarrow> new_uuid;
           l \<leftarrow> AcquireLock (segment_lock_key p) lockVal lockTTL;
           case l of
             Inl e \<Rightarrow> if errors_is e ErrLockNotAcquired then finish Ack else nak_segment maxRetries (attempt_of msg)
           | Inr _ \<Rightarrow> do {
               res \<leftarrow> refresh maxRetries (attempt_of msg) p;
               _ \<leftarrow> ReleaseLock (segment_lock_key p) lockVal;
               State_Monad.return res
             }
         }
   }"

section \<open>The message contract\<close>

lemma segment_query_frame [frame]:
  assumes "steady f" and "\<And>w d. f (w\<lparr>db := d\<rparr>) = f w"
  shows "preserves f (GetSegment s ws)" and "preserves f (UpdateSegmentStatus s ws st)"
    and "preserves f (UpdateSegmentReady s ws n)" and "preserves f (GetCurrentMemberIDs s ws)"
    and "preserves f (InsertSegmentMembers s ws ids)" and "preserves f (DeleteSegmentMembers s ws ids)"
  unfolding GetSegment_def UpdateSegmentStatus_def UpdateSegmentReady_def GetCurrentMemberIDs_def
    InsertSegmentMembers_def DeleteSegmentMembers_def
  by (intro frame assms)+

lemma Stream_loop_frame:
  assumes "steady f"
  shows "f (snd (StreamContactsForEval_loop ws n t a ms w)) = f w"
proof (induction ws n t a ms w rule: StreamContactsForEval_loop.induct)
  case (1 ws n t a ms w)
  have b: "f w1 = f w0" if "run_state (FetchEvalPage ws a n) w0 = (r, w1)" for w0 w1 r
    using preservesD [OF FetchEvalPage_frame [OF assms, of ws a n], of w0] that by simp
  have c: "f w1 = f w0" if "run_state (eval_page ws t page ms) w0 = (r, w1)" for page w0 w1 r
    using preservesD [OF eval_page_frame [OF assms, of ws t page ms], of w0] that by simp
  show ?case
    by (subst StreamContactsForEval_loop.simps)
      (auto split: prod.split sum.split scan.split dest!: b c simp: 1)
qed

lemma Stream_frame [frame]: "steady f \<Longrightarrow> preserves f (StreamContactsForEval ws n t)"
  by (simp add: preserves_def StreamContactsForEval_def Stream_loop_frame)

lemma settles_or_case_scan [settle_rules]:
  "(\<And>ms. settles_or_panics (g ms)) \<Longrightarrow> (\<And>e. settles_or_panics (h e)) \<Longrightarrow> settles_or_panics k \<Longrightarrow>
   settles_or_panics (case v of Scanned ms \<Rightarrow> g ms | ScanErr e \<Rightarrow> h e | ScanPanic \<Rightarrow> k)"
  by (cases v) auto

lemma settles_nak_segment [settle_rules]: "settles_once (nak_segment n k)"
  unfolding nak_segment_def by (intro settle_rules frame; simp)

lemma settles_apply_matched [settle_rules]: "settles_once (apply_matched n k p ms)"
  unfolding apply_matched_def by (intro settle_rules frame; simp)

lemma settles_refresh: "settles_or_panics (refresh n k p)"
  unfolding refresh_def recompute_def by (intro settle_rules settles_once_or_panics frame; simp)

lemma Handle_segment_settles: "settles_or_panics (Handle_segment n m)"
  unfolding Handle_segment_def
  by (intro settle_rules panics_defer settles_refresh settles_once_or_panics frame; simp)

interpretation segment: message_handler "Handle_segment n"
  by (rule message_handlerI) (rule Handle_segment_settles)

section \<open>What a refresh may touch, in every environment\<close>

definition segment_evolves :: "SegmentRefreshPayload \<Rightarrow> world \<Rightarrow> world \<Rightarrow> bool" where
  "segment_evolves p w w' \<longleftrightarrow>
     db w' = (db w)\<lparr>segments := segments (db w'), segment_memberships := segment_memberships (db w')\<rparr> \<and>
     filter (\<lambda>r. \<not> this_segment (sr_SegmentID p) (sr_WorkspaceID p) r) (segments (db w')) =
       filter (\<lambda>r. \<not> this_segment (sr_SegmentID p) (sr_WorkspaceID p) r) (segments (db w)) \<and>
     filter (\<lambda>r. \<not> this_membership (sr_SegmentID p) (sr_WorkspaceID p) r) (segment_memberships (db w')) =
       filter (\<lambda>r. \<not> this_membership (sr_SegmentID p) (sr_WorkspaceID p) r) (segment_memberships (db w)) \<and>
     mail w' = mail w \<and> published w' = published w \<and>
     (\<forall>k. k \<noteq> segment_lock_key p \<longrightarrow> redis w' k = redis w k)"

interpretation segment_guar: guarantee "segment_evolves p"
proof
  show "segment_evolves p s s" for s by (simp add: segment_evolves_def)
  fix s t u
  assume a: "segment_evolves p s t" "segment_evolves p t u"
  then have "db u = (db s)\<lparr>segments := segments (db t), segment_memberships := segment_memberships (db t)\<rparr>
      \<lparr>segments := segments (db u), segment_memberships := segment_memberships (db u)\<rparr>"
    unfolding segment_evolves_def by metis
  then show "segment_evolves p s u" using a by (simp add: segment_evolves_def)
qed

definition touched :: "world \<Rightarrow> pg \<times> ses_message list \<times> pubmsg list \<times> (string \<Rightarrow> (rval \<times> int) option)" where
  "touched w = (db w, mail w, published w, redis w)"

lemma steady_touched [simp]: "steady touched"
  by (simp add: steady_def touched_def)

lemma segment_guar_same: "preserves touched m \<Longrightarrow> state_io_rel (segment_evolves p) m"
  by (auto simp: state_io_rel_def preserves_def touched_def segment_evolves_def)

lemma segment_guar_exec:
  assumes "\<And>t d. f t d = d\<lparr>segments := segments (f t d), segment_memberships := segment_memberships (f t d)\<rparr> \<and>
     filter (\<lambda>r. \<not> this_segment (sr_SegmentID p) (sr_WorkspaceID p) r) (segments (f t d)) =
       filter (\<lambda>r. \<not> this_segment (sr_SegmentID p) (sr_WorkspaceID p) r) (segments d) \<and>
     filter (\<lambda>r. \<not> this_membership (sr_SegmentID p) (sr_WorkspaceID p) r) (segment_memberships (f t d)) =
       filter (\<lambda>r. \<not> this_membership (sr_SegmentID p) (sr_WorkspaceID p) r) (segment_memberships d)"
  shows "state_io_rel (segment_evolves p) (exec f)"
  using assms by (simp add: state_io_rel_def exec_def call_def Let_def segment_evolves_def split: fault.split)

lemma filter_update_own:
  "(\<And>r. P (f r) = P r) \<Longrightarrow> filter (\<lambda>r. \<not> P r) (update_where P f xs) = filter (\<lambda>r. \<not> P r) xs"
  by (induction xs) auto

lemma filter_insert_members:
  "filter (\<lambda>r. \<not> this_membership s ws r) (fold (insert_member s ws t) ids ms) = filter (\<lambda>r. \<not> this_membership s ws r) ms"
  by (induction ids arbitrary: ms) (auto simp: insert_member_def this_membership_def)

lemma fold_delete_member:
  "fold (delete_member s ws) ids ms = filter (\<lambda>r. \<not> (this_membership s ws r \<and> sm_contact_id r \<in> set ids)) ms"
  by (induction ids arbitrary: ms) (auto simp: delete_member_def intro!: filter_cong)

lemma filter_delete_members:
  "filter (\<lambda>r. \<not> this_membership s ws r) (fold (delete_member s ws) ids ms) = filter (\<lambda>r. \<not> this_membership s ws r) ms"
  by (auto simp: fold_delete_member intro!: filter_cong)

lemma this_segment_update [simp]:
  "this_segment s ws (sg_status_update f1 r) = this_segment s ws r"
  "this_segment s ws (sg_contact_count_update f2 r) = this_segment s ws r"
  "this_segment s ws (sg_last_computed_update f3 r) = this_segment s ws r"
  "this_segment s ws (sg_updated_at_update f4 r) = this_segment s ws r"
  by (simp_all add: this_segment_def)

lemma segment_guar_updates:
  "state_io_rel (segment_evolves p) (UpdateSegmentStatus (sr_SegmentID p) (sr_WorkspaceID p) st)"
  "state_io_rel (segment_evolves p) (UpdateSegmentReady (sr_SegmentID p) (sr_WorkspaceID p) n)"
  "state_io_rel (segment_evolves p) (InsertSegmentMembers (sr_SegmentID p) (sr_WorkspaceID p) ids)"
  "state_io_rel (segment_evolves p) (DeleteSegmentMembers (sr_SegmentID p) (sr_WorkspaceID p) ids)"
  unfolding UpdateSegmentStatus_def UpdateSegmentReady_def InsertSegmentMembers_def DeleteSegmentMembers_def
  by (intro segment_guar.guar_rules segment_guar_exec;
      simp add: set_segment_status_def set_segment_ready_def filter_update_own filter_insert_members filter_delete_members)+

lemma segment_guar_call:
  assumes "\<And>w. segment_evolves p w (snd (op w))"
  shows "state_io_rel (segment_evolves p) (call op)"
proof -
  have clock: "segment_evolves p s (step_clock s)" for s by (simp add: segment_evolves_def)
  have "segment_evolves p s (snd (op (step_clock s)))" for s
    by (rule segment_guar.R_trans [OF clock assms])
  then show ?thesis using clock by (simp add: state_io_rel_def call_def Let_def split: fault.split)
qed

lemma segment_guar_locks:
  "state_io_rel (segment_evolves p) (AcquireLock (segment_lock_key p) v ttl)"
  "state_io_rel (segment_evolves p) (ReleaseLock (segment_lock_key p) v)"
  unfolding AcquireLock_def ReleaseLock_def
  by (intro segment_guar.guar_bind segment_guar.guar_return segment_guar_call; simp add: segment_evolves_def split: prod.split)
    (rule segment_guar_call; simp add: segment_evolves_def split: prod.split)

lemma nak_segment_frame [frame]:
  "steady f \<Longrightarrow> (\<And>w s. f (w\<lparr>settled := s\<rparr>) = f w) \<Longrightarrow> preserves f (nak_segment n k)"
  unfolding nak_segment_def by (intro frame)

lemma segment_guar_case_scan:
  "(\<And>ms. state_io_rel (segment_evolves p) (g ms)) \<Longrightarrow> (\<And>e. state_io_rel (segment_evolves p) (h e)) \<Longrightarrow>
   state_io_rel (segment_evolves p) k \<Longrightarrow>
   state_io_rel (segment_evolves p) (case v of Scanned ms \<Rightarrow> g ms | ScanErr e \<Rightarrow> h e | ScanPanic \<Rightarrow> k)"
  by (cases v) auto

lemma segment_guar_quiet:
  "state_io_rel (segment_evolves p) (nak_segment n k)" "state_io_rel (segment_evolves p) (inc_by c i)"
  "state_io_rel (segment_evolves p) (finish d)" "state_io_rel (segment_evolves p) (GetSegment s ws)"
  "state_io_rel (segment_evolves p) (GetCurrentMemberIDs s ws)" "state_io_rel (segment_evolves p) (StreamContactsForEval ws z t)"
  "state_io_rel (segment_evolves p) new_uuid"
  unfolding GetSegment_def GetCurrentMemberIDs_def
  by (rule segment_guar_same, intro frame; simp add: touched_def)+

lemma segment_guar_Handle: "Data m = Some p \<Longrightarrow> state_io_rel (segment_evolves p) (Handle_segment n m)"
  unfolding Handle_segment_def refresh_def recompute_def apply_matched_def
  by (simp only: option.case, intro segment_guar.guar_rules segment_guar_updates segment_guar_locks
      segment_guar_quiet segment_guar_case_scan)

section \<open>The outcome of a refresh\<close>

text \<open>The contacts a filter selects, and the set of members of a segment.\<close>

definition selected :: "string \<Rightarrow> FilterNode option \<Rightarrow> pg \<Rightarrow> string set" where
  "selected ws tree d = {id_text c |c. c \<in> set (workspace_contacts ws d) \<and> verdict d ws (for_eval c) tree = EOk True}"

definition decided :: "string \<Rightarrow> FilterNode option \<Rightarrow> pg \<Rightarrow> bool" where
  "decided ws tree d \<longleftrightarrow> (\<forall>c \<in> set (workspace_contacts ws d). \<exists>b. verdict d ws (for_eval c) tree = EOk b)"

lemma add_key_simps [simp]: "set (add_key k ks) = insert k (set ks)" "distinct (add_key k ks) = distinct ks"
  by (auto simp: add_key_def)

lemma Matches_run:
  assumes "reliable (env w)"
  shows "\<exists>w'. run_state (Matches ws c t) w = (verdict (db w) ws c t, w') \<and> env w' = env w \<and> db w' = db w"
  using Matches_verdict [OF assms, of ws c t] preservesD [OF Matches_frame [of env ws c t], of w]
    preservesD [OF Matches_frame [of db ws c t], of w]
  by (cases "run_state (Matches ws c t) w") simp

lemma eval_page_scan:
  assumes "reliable (env w)" and "\<forall>c \<in> set page. \<exists>b. verdict (db w) ws c t = EOk b"
  shows "\<exists>ms'. fst (run_state (eval_page ws t page ms) w) = Scanned ms' \<and>
    set ms' = set ms \<union> fe_ID ` {c \<in> set page. verdict (db w) ws c t = EOk True} \<and> distinct ms' = distinct ms"
  using assms
proof (induction page arbitrary: ms w)
  case (Cons c page)
  obtain b where b: "verdict (db w) ws c t = EOk b" using Cons.prems(2) by auto
  obtain w' where r: "run_state (Matches ws c t) w = (EOk b, w')" "env w' = env w" "db w' = db w"
    using Matches_run [OF Cons.prems(1), of ws c t] b by auto
  have "reliable (env w')" and "\<forall>c \<in> set page. \<exists>b. verdict (db w') ws c t = EOk b" using Cons.prems r by simp_all
  from Cons.IH [OF this, of "if b then add_key (fe_ID c) ms else ms"] obtain ms' where
    "fst (run_state (eval_page ws t page (if b then add_key (fe_ID c) ms else ms)) w') = Scanned ms'"
    "set ms' = set (if b then add_key (fe_ID c) ms else ms) \<union> fe_ID ` {c \<in> set page. verdict (db w) ws c t = EOk True}"
    "distinct ms' = distinct ms"
    using r by (auto split: if_splits)
  then show ?case using r b by (auto split: if_splits)
qed simp

lemma contacts_page_prefix:
  assumes "distinct (map id_text (workspace_contacts ws d))" and "workspace_contacts ws d = pre @ rest"
  shows "contacts_page ws (if pre = [] then '''' else id_text (last pre)) n d = take n rest"
  using assms eval_keys.fetch_first [of ws n d] eval_keys.fetch_next [OF assms, of n] by simp

lemma page_run:
  assumes "reliable (env w)"
  shows "run_state (FetchEvalPage ws a n) w = (Inr (map for_eval (contacts_page ws a n (db w))), step_clock w)"
  using assms by (simp add: FetchEvalPage_def query_def call_def Let_def)

lemma stream_scan:
  assumes "reliable (env w)" and "0 < n" and "decided ws t (db w)"
    and "distinct (map id_text (workspace_contacts ws (db w)))" and "workspace_contacts ws (db w) = pre @ rest"
    and "a = (if pre = [] then '''' else id_text (last pre))"
  shows "\<exists>ms'. fst (StreamContactsForEval_loop ws n t a ms w) = Scanned ms' \<and>
    set ms' = set ms \<union> {id_text c |c. c \<in> set rest \<and> verdict (db w) ws (for_eval c) t = EOk True} \<and> distinct ms' = distinct ms"
  using assms
proof (induction ws n t a ms w arbitrary: pre rest rule: StreamContactsForEval_loop.induct)
  case (1 ws n t a ms w)
  let ?page = "map for_eval (take n rest)" and ?w1 = "step_clock w"
  have f: "run_state (FetchEvalPage ws a n) w = (Inr ?page, ?w1)"
    using page_run [OF 1(2), of ws a n] contacts_page_prefix [OF 1(5,6), of n] 1(7) by simp
  show ?case
  proof (cases "rest = []")
    case True
    then show ?thesis by (subst StreamContactsForEval_loop.simps) (simp add: f)
  next
    case False
    then have ne: "take n rest \<noteq> []" "?page \<noteq> []" using 1(3) by simp_all
    have "\<forall>c \<in> set ?page. \<exists>b. verdict (db ?w1) ws c t = EOk b"
      using 1(4,6) by (auto simp: decided_def dest: in_set_takeD)
    then obtain ms1 w2 where e: "run_state (eval_page ws t ?page ms) ?w1 = (Scanned ms1, w2)"
      and ms1: "set ms1 = set ms \<union> fe_ID ` {c \<in> set ?page. verdict (db w) ws c t = EOk True}" "distinct ms1 = distinct ms"
      using eval_page_scan [of ?w1 ?page ws t ms] 1(2) by (cases "run_state (eval_page ws t ?page ms) ?w1") auto
    have keep: "env w2 = env w" "db w2 = db w"
      using preservesD [OF eval_page_frame [of env ws t ?page ms], of ?w1]
        preservesD [OF eval_page_frame [of db ws t ?page ms], of ?w1] e by simp_all
    have ids: "fe_ID ` {c \<in> set ?page. verdict (db w) ws c t = EOk True} =
        {id_text c |c. c \<in> set (take n rest) \<and> verdict (db w) ws (for_eval c) t = EOk True}"
      by force
    show ?thesis
    proof (cases "length ?page < n")
      case True
      then have "take n rest = rest" by simp
      then show ?thesis using ms1 ids ne True e f
        by (subst StreamContactsForEval_loop.simps) simp
    next
      case go: False
      have "workspace_contacts ws (db w2) = (pre @ take n rest) @ drop n rest" using 1(6) keep by simp
      moreover have "fe_ID (last ?page) = id_text (last (pre @ take n rest))" using ne by (simp add: last_map)
      ultimately obtain ms' where ms': "fst (StreamContactsForEval_loop ws n t (fe_ID (last ?page)) ms1 w2) = Scanned ms'"
        "set ms' = set ms1 \<union> {id_text c |c. c \<in> set (drop n rest) \<and> verdict (db w) ws (for_eval c) t = EOk True}"
        "distinct ms' = distinct ms1"
        using 1(1) [OF f [symmetric] refl ne(2) e [symmetric] refl go, of "pre @ take n rest" "drop n rest"] 1(2,3,4,5) keep ne
        by auto
      have "set rest = set (take n rest) \<union> set (drop n rest)" by (metis append_take_drop_id set_append)
      then have "set ms' = set ms \<union> {id_text c |c. c \<in> set rest \<and> verdict (db w) ws (for_eval c) t = EOk True}"
        using ms'(2) ms1(1) ids by auto
      moreover have "StreamContactsForEval_loop ws n t a ms w = StreamContactsForEval_loop ws n t (fe_ID (last ?page)) ms1 w2"
        using ne go e f by (subst StreamContactsForEval_loop.simps) simp
      ultimately show ?thesis using ms' ms1(2) by simp
    qed
  qed
qed

definition members :: "string \<Rightarrow> string \<Rightarrow> pg \<Rightarrow> string set" where
  "members s ws d = set (member_ids s ws d)"

text \<open>The memberships of a segment are in the workspace of the segment.\<close>

definition owned :: "string \<Rightarrow> string \<Rightarrow> membership_row list \<Rightarrow> bool" where
  "owned s ws ms \<longleftrightarrow> (\<forall>r \<in> set ms. sm_segment_id r = s \<longrightarrow> sm_workspace_id r = ws)"

lemma insert_member_effect:
  assumes "owned s ws ms"
  shows "owned s ws (insert_member s ws t k ms) \<and>
   sm_contact_id ` {r \<in> set (insert_member s ws t k ms). this_membership s ws r} =
     insert k (sm_contact_id ` {r \<in> set ms. this_membership s ws r})"
proof (cases "list_ex (\<lambda>r. sm_segment_id r = s \<and> sm_contact_id r = k) ms")
  case True
  then have "k \<in> sm_contact_id ` {r \<in> set ms. this_membership s ws r}"
    using assms by (auto simp: owned_def this_membership_def list_ex_iff)
  then show ?thesis using True assms by (simp add: insert_member_def insert_absorb)
next
  case False
  let ?new = "\<lparr>sm_segment_id = s, sm_workspace_id = ws, sm_contact_id = k, sm_created_at = t\<rparr>"
  have "{r \<in> set (ms @ [?new]). this_membership s ws r} = insert ?new {r \<in> set ms. this_membership s ws r}"
    by (auto simp: this_membership_def)
  then have "sm_contact_id ` {r \<in> set (ms @ [?new]). this_membership s ws r}
      = insert k (sm_contact_id ` {r \<in> set ms. this_membership s ws r})"
    by simp
  then show ?thesis using False assms by (simp add: insert_member_def) (simp add: owned_def)
qed

lemma insert_members_effect:
  "owned s ws ms \<Longrightarrow> owned s ws (fold (insert_member s ws t) ids ms) \<and>
   sm_contact_id ` {r \<in> set (fold (insert_member s ws t) ids ms). this_membership s ws r} =
     sm_contact_id ` {r \<in> set ms. this_membership s ws r} \<union> set ids"
proof (induction ids arbitrary: ms)
  case (Cons k ids)
  then show ?case using insert_member_effect [OF Cons.prems, of t k] by auto
qed simp

lemma member_ids_simps [simp]:
  "distinct (member_ids s ws d)"
  "member_ids s ws (d\<lparr>segments := x\<rparr>) = member_ids s ws d"
  "members s ws (d\<lparr>segments := x\<rparr>) = members s ws d"
  by (simp_all add: member_ids_def members_def)

lemma members_rows: "members s ws d = sm_contact_id ` {r \<in> set (segment_memberships d). this_membership s ws r}"
  by (auto simp: members_def member_ids_def)

lemma length_diff: "distinct a \<Longrightarrow> length (diff a b) = card (set a - set b)"
proof -
  assume "distinct a"
  then have "distinct (diff a b)" by (simp add: diff_def)
  moreover have "set (diff a b) = set a - set b" by (auto simp: diff_def)
  ultimately show ?thesis by (metis distinct_card)
qed

lemma set_diff [simp]: "set (diff a b) = set a - set b"
  by (auto simp: diff_def)

lemma final_count:
  assumes "distinct a" and "distinct b"
  shows "int (length b) + int (length (diff a b)) - int (length (diff b a)) = int (card (set a))"
proof -
  have "card (set a) = card (set a \<inter> set b) + card (set a - set b)"
    and "card (set b) = card (set a \<inter> set b) + card (set b - set a)"
    using card_Int_Diff [of "set a" "set b"] card_Int_Diff [of "set b" "set a"] by (simp_all add: Int_commute)
  then show ?thesis using assms by (simp add: length_diff distinct_card [symmetric])
qed

text \<open>Without faults each update of the refresh is a run with a known database.\<close>

lemma segment_runs:
  assumes "reliable (env w)"
  shows "\<exists>w'. run_state (InsertSegmentMembers s ws ids) w = (Inr (), w') \<and> env w' = env w \<and> redis w' = redis w \<and>
      settled w' = settled w \<and>
      (\<exists>t. db w' = (db w)\<lparr>segment_memberships := fold (insert_member s ws t) ids (segment_memberships (db w))\<rparr>)"
    and "\<exists>w'. run_state (DeleteSegmentMembers s ws ids) w = (Inr (), w') \<and> env w' = env w \<and> redis w' = redis w \<and>
      settled w' = settled w \<and>
      db w' = (db w)\<lparr>segment_memberships := fold (delete_member s ws) ids (segment_memberships (db w))\<rparr>"
  using assms by (auto simp: InsertSegmentMembers_def DeleteSegmentMembers_def exec_def call_def Let_def)

definition ready_with :: "string \<Rightarrow> string \<Rightarrow> int \<Rightarrow> pg \<Rightarrow> bool" where
  "ready_with s ws n d \<longleftrightarrow> (\<forall>r \<in> set (segments d). this_segment s ws r \<longrightarrow>
     sg_status r = Some ''ready'' \<and> sg_contact_count r = n)"

lemma ready_with_set: "ready_with s ws n (set_segment_ready s ws n t d)"
  by (auto simp: ready_with_def set_segment_ready_def in_update_where)

lemma apply_outcome:
  assumes "reliable (env w)" and "distinct ms" and "owned (sr_SegmentID p) (sr_WorkspaceID p) (segment_memberships (db w))"
  shows "wp (apply_matched n k p ms) (\<lambda>r w'. r = Done \<and> settled w' = settled w @ [Ack] \<and> redis w' = redis w \<and> env w' = env w \<and>
    members (sr_SegmentID p) (sr_WorkspaceID p) (db w') = set ms \<and>
    ready_with (sr_SegmentID p) (sr_WorkspaceID p) (int (card (set ms))) (db w')) w"
proof -
  let ?s = "sr_SegmentID p" and ?ws = "sr_WorkspaceID p" and ?cur = "member_ids (sr_SegmentID p) (sr_WorkspaceID p) (db w)"
  let ?m = "''segment_contacts_matched_total''"
  define w1 where "w1 = step_clock (w\<lparr>metrics := (metrics w)(?m := metrics w ?m + length ms)\<rparr>)"
  have w1: "env w1 = env w" "redis w1 = redis w" "settled w1 = settled w" "db w1 = db w" by (simp_all add: w1_def)
  obtain w2 t where i: "run_state (InsertSegmentMembers ?s ?ws (diff ms ?cur)) w1 = (Inr (), w2)"
    and w2: "env w2 = env w" "redis w2 = redis w" "settled w2 = settled w"
      "db w2 = (db w)\<lparr>segment_memberships := fold (insert_member ?s ?ws t) (diff ms ?cur) (segment_memberships (db w))\<rparr>"
    using segment_runs(1) [of w1 ?s ?ws "diff ms ?cur"] assms(1) w1 by auto
  obtain w3 where x: "run_state (DeleteSegmentMembers ?s ?ws (diff ?cur ms)) w2 = (Inr (), w3)"
    and w3: "env w3 = env w" "redis w3 = redis w" "settled w3 = settled w"
      "db w3 = (db w2)\<lparr>segment_memberships := fold (delete_member ?s ?ws) (diff ?cur ms) (segment_memberships (db w2))\<rparr>"
    using segment_runs(2) [of w2 ?s ?ws "diff ?cur ms"] assms(1) w2 by auto
  have "members ?s ?ws (db w2) = members ?s ?ws (db w) \<union> set (diff ms ?cur)"
    using insert_members_effect [OF assms(3), of t "diff ms ?cur"] by (simp add: members_rows w2)
  moreover have "members ?s ?ws (db w3) = members ?s ?ws (db w2) - set (diff ?cur ms)"
    by (auto simp: members_rows w3 fold_delete_member)
  ultimately have m: "members ?s ?ws (db w3) = set ms" by (auto simp: members_def)
  have c: "int (length ?cur) + int (length (diff ms ?cur)) - int (length (diff ?cur ms)) = int (card (set ms))"
    using assms(2) by (simp add: final_count)
  have m': "members ?s ?ws (set_segment_ready ?s ?ws j u (db w3)) = set ms" for j u
    using m by (simp add: set_segment_ready_def)
  show ?thesis
    using assms(1) i x c w1 w3 m' ready_with_set
    by (simp add: apply_matched_def wp_rules GetCurrentMemberIDs_def Let_def w1_def [symmetric] UpdateSegmentReady_def)
      (simp add: wp_def wp_rules [unfolded wp_def] exec_def call_def Let_def finish_def settle_def inc_by_def)
qed

lemma status_verdict [simp]: "verdict (set_segment_status s ws' st t d) ws c tree = verdict d ws c tree"
  by (rule verdict_events) (simp add: set_segment_status_def)

lemma status_contacts [simp]: "workspace_contacts ws (set_segment_status s ws' st t d) = workspace_contacts ws d"
  by (simp add: set_segment_status_def workspace_contacts_def)

lemma status_reads [simp]:
  "segment_memberships (set_segment_status s ws' st t d) = segment_memberships d"
  "decided ws tree (set_segment_status s ws' st t d) = decided ws tree d"
  "selected ws tree (set_segment_status s ws' st t d) = selected ws tree d"
  by (simp_all add: decided_def selected_def) (simp add: set_segment_status_def)

text \<open>The two calls before the scan, without faults.\<close>

lemma refresh_starts:
  assumes "reliable (env w)" and "find (this_segment (sr_SegmentID p) (sr_WorkspaceID p)) (segments (db w)) = Some row"
    and "ParseFilterTree (coalesce (sg_filter_tree row) (JObj [])) = Inr tree"
  obtains w1 t where "env w1 = env w" "redis w1 = redis w" "settled w1 = settled w"
    and "db w1 = set_segment_status (sr_SegmentID p) (sr_WorkspaceID p) ''processing'' t (db w)"
    and "wp (refresh n k p) Q w = wp (recompute n k p tree) Q w1"
proof
  let ?w0 = "step_clock w" let ?w1 = "(step_clock ?w0)\<lparr>db := set_segment_status (sr_SegmentID p) (sr_WorkspaceID p) ''processing'' (now (step_clock ?w0)) (db w)\<rparr>"
  show "env ?w1 = env w" "redis ?w1 = redis w" "settled ?w1 = settled w" by simp_all
  show "db ?w1 = set_segment_status (sr_SegmentID p) (sr_WorkspaceID p) ''processing'' (now (step_clock ?w0)) (db w)" by simp
  show "wp (refresh n k p) Q w = wp (recompute n k p tree) Q ?w1"
    using assms by (simp add: refresh_def GetSegment_def UpdateSegmentStatus_def wp_bind wp_query wp_exec segment_of_def Let_def)
qed

lemma stream_run:
  assumes "reliable (env w)" and "decided ws t (db w)" and "distinct (map id_text (workspace_contacts ws (db w)))"
  obtains ms w' where "run_state (StreamContactsForEval ws evalPageSize t) w = (Scanned ms, w')"
    and "set ms = selected ws t (db w)" and "distinct ms"
    and "env w' = env w" "db w' = db w" "redis w' = redis w" "settled w' = settled w"
proof -
  obtain ms w' where r: "run_state (StreamContactsForEval ws evalPageSize t) w = (Scanned ms, w')"
    and ms: "set ms = selected ws t (db w)" "distinct ms"
    using stream_scan [OF assms(1) _ assms(2,3), of evalPageSize "[]" "workspace_contacts ws (db w)" "''''" "[]"]
    by (cases "StreamContactsForEval_loop ws evalPageSize t '''' [] w") (auto simp: StreamContactsForEval_def selected_def)
  have "env w' = env w" "db w' = db w" "redis w' = redis w" "settled w' = settled w"
    using preservesD [OF Stream_frame [OF steady_simps(1), of ws evalPageSize t], of w]
      preservesD [OF Stream_frame [OF steady_simps(2), of ws evalPageSize t], of w]
      preservesD [OF Stream_frame [OF steady_simps(6), of ws evalPageSize t], of w]
      preservesD [OF Stream_frame [OF steady_simps(5), of ws evalPageSize t], of w] r by simp_all
  then show thesis by (rule that [OF r ms])
qed

lemma refresh_outcome:
  assumes "reliable (env w)" and "find (this_segment (sr_SegmentID p) (sr_WorkspaceID p)) (segments (db w)) = Some row"
    and "ParseFilterTree (coalesce (sg_filter_tree row) (JObj [])) = Inr tree"
    and "decided (sr_WorkspaceID p) tree (db w)" and "distinct (map id_text (workspace_contacts (sr_WorkspaceID p) (db w)))"
    and "owned (sr_SegmentID p) (sr_WorkspaceID p) (segment_memberships (db w))"
  shows "wp (refresh n k p) (\<lambda>r w'. r = Done \<and> settled w' = settled w @ [Ack] \<and> redis w' = redis w \<and> env w' = env w \<and>
    members (sr_SegmentID p) (sr_WorkspaceID p) (db w') = selected (sr_WorkspaceID p) tree (db w) \<and>
    ready_with (sr_SegmentID p) (sr_WorkspaceID p) (int (card (selected (sr_WorkspaceID p) tree (db w)))) (db w')) w"
    (is "wp _ ?Q w")
proof -
  obtain w1 t where w1: "env w1 = env w" "redis w1 = redis w" "settled w1 = settled w"
    "db w1 = set_segment_status (sr_SegmentID p) (sr_WorkspaceID p) ''processing'' t (db w)"
    and step: "wp (refresh n k p) ?Q w = wp (recompute n k p tree) ?Q w1"
    by (rule refresh_starts [OF assms(1,2,3)])
  obtain ms w2 where s: "run_state (StreamContactsForEval (sr_WorkspaceID p) evalPageSize tree) w1 = (Scanned ms, w2)"
    and ms: "set ms = selected (sr_WorkspaceID p) tree (db w)" "distinct ms"
    and w2: "env w2 = env w1" "db w2 = db w1" "redis w2 = redis w1" "settled w2 = settled w1"
    using stream_run [of w1 "sr_WorkspaceID p" tree] assms w1 by auto
  have "wp (apply_matched n k p ms) ?Q w2"
    using apply_outcome [of w2 ms p n k] assms(1,6) ms w1 w2 by simp
  then show ?thesis unfolding step recompute_def wp_bind using s by (simp add: wp_def)
qed

text \<open>A valid message whose lock is free: the handler takes the lock, runs \<open>refresh\<close>, and gives it back.\<close>

definition valid_refresh :: "SegmentRefreshPayload \<Rightarrow> bool" where
  "valid_refresh p \<longleftrightarrow> sr_WorkspaceID p \<noteq> '''' \<and> sr_SegmentID p \<noteq> ''''"

definition lock_free :: "SegmentRefreshPayload \<Rightarrow> world \<Rightarrow> bool" where
  "lock_free p w \<longleftrightarrow> live (now (step_clock w)) (redis w (segment_lock_key p)) = None"

lemma locked_run:
  assumes "reliable (env w)" and "Data m = Some p" and "valid_refresh p" and "lock_free p w"
    and inner: "\<And>w1 v u. env w1 = env w \<Longrightarrow> db w1 = db w \<Longrightarrow> settled w1 = settled w \<Longrightarrow>
      redis w1 = (redis w)(segment_lock_key p := Some (RStr v, u)) \<Longrightarrow>
      wp (refresh n (attempt_of m) p) (\<lambda>r w'. R r (settled w') (db w') \<and> redis w' = redis w1 \<and> env w' = env w1) w1"
  shows "wp (Handle_segment n m) (\<lambda>r w'. R r (settled w') (db w') \<and>
    live (now w') (redis w' (segment_lock_key p)) = None) w"
proof -
  let ?j = "''segment_refresh_jobs_total''" and ?v = "uuids (env w) (uuid_next w)" and ?k = "segment_lock_key p"
  define w0 where "w0 = w\<lparr>metrics := (metrics w)(?j := metrics w ?j + 1), uuid_next := Suc (uuid_next w)\<rparr>"
  define w1 where "w1 = (step_clock w0)\<lparr>redis := (redis w)(?k := Some (RStr ?v, now (step_clock w0) + lockTTL))\<rparr>"
  have nowe: "now (step_clock w0) = now (step_clock w)" by (simp add: w0_def step_clock_def)
  have w0: "env w0 = env w" "redis w0 = redis w" "db w0 = db w" "settled w0 = settled w" by (simp_all add: w0_def)
  have acq: "run_state (AcquireLock ?k ?v lockTTL) w0 = (Inr (), w1)"
    using assms(1,4) by (simp add: AcquireLock_def call_def w0 Let_def set_nx_def lock_free_def nowe w1_def)
  have wp_AcquireLock: "wp (AcquireLock ?k ?v lockTTL) P w0 = P (Inr ()) w1" for P
    by (simp only: wp_def acq fst_conv snd_conv)
  have rel: "live (now (step_clock w2)) (redis (snd (run_state (ReleaseLock ?k ?v) w2)) ?k) = None \<and>
      now (snd (run_state (ReleaseLock ?k ?v) w2)) = now (step_clock w2) \<and>
      db (snd (run_state (ReleaseLock ?k ?v) w2)) = db w2 \<and> settled (snd (run_state (ReleaseLock ?k ?v) w2)) = settled w2"
    if "env w2 = env w" "redis w2 = redis w1" for w2
    using that assms(1) by (auto simp: ReleaseLock_def call_def Let_def del_if_equal_def live_def w1_def)
  have "wp (refresh n (attempt_of m) p) (\<lambda>r w'. R r (settled w') (db w') \<and> redis w' = redis w1 \<and> env w' = env w1) w1"
    by (rule inner) (simp_all add: w1_def w0)
  then have "wp (do { res \<leftarrow> refresh n (attempt_of m) p; _ \<leftarrow> ReleaseLock ?k ?v; State_Monad.return res })
      (\<lambda>r w'. R r (settled w') (db w') \<and> live (now w') (redis w' ?k) = None) w1"
    unfolding wp_bind wp_return
    by (rule wp_mono) (use rel in \<open>simp add: wp_def w1_def w0\<close>)
  moreover have "wp (Handle_segment n m) Q w =
      wp (do { res \<leftarrow> refresh n (attempt_of m) p; _ \<leftarrow> ReleaseLock ?k ?v; State_Monad.return res }) Q w1" for Q
  proof -
    have "wp (Handle_segment n m) Q w = wp (do {
        l \<leftarrow> AcquireLock ?k ?v lockTTL;
        case l of
          Inl e \<Rightarrow> if errors_is e ErrLockNotAcquired then finish Ack else nak_segment n (attempt_of m)
        | Inr _ \<Rightarrow> do { res \<leftarrow> refresh n (attempt_of m) p; _ \<leftarrow> ReleaseLock ?k ?v; State_Monad.return res } }) Q w0"
      using assms(2,3) by (simp add: Handle_segment_def valid_refresh_def wp_bind wp_inc_by wp_new_uuid w0_def)
    also have "\<dots> = wp (do { res \<leftarrow> refresh n (attempt_of m) p; _ \<leftarrow> ReleaseLock ?k ?v; State_Monad.return res }) Q w1"
      by (simp only: wp_bind wp_AcquireLock sum.case)
    finally show ?thesis .
  qed
  ultimately show ?thesis by simp
qed

lemma refresh_panics:
  assumes "reliable (env w)" and "find (this_segment (sr_SegmentID p) (sr_WorkspaceID p)) (segments (db w)) = Some row"
    and "ParseFilterTree (coalesce (sg_filter_tree row) (JObj [])) = Inr tree"
    and "workspace_contacts (sr_WorkspaceID p) (db w) = c # cs" and "verdict (db w) (sr_WorkspaceID p) (for_eval c) tree = EPanic"
  shows "wp (refresh n k p) (\<lambda>r w'. (r = Panic \<and> settled w' = settled w \<and>
    (\<exists>t. db w' = set_segment_status (sr_SegmentID p) (sr_WorkspaceID p) ''processing'' t (db w))) \<and>
    redis w' = redis w \<and> env w' = env w) w"
    (is "wp _ ?Q w")
proof -
  let ?s = "sr_SegmentID p" and ?ws = "sr_WorkspaceID p"
  obtain w1 t where w1: "env w1 = env w" "redis w1 = redis w" "settled w1 = settled w"
    "db w1 = set_segment_status ?s ?ws ''processing'' t (db w)"
    and step: "wp (refresh n k p) ?Q w = wp (recompute n k p tree) ?Q w1"
    by (rule refresh_starts [OF assms(1,2,3)])
  let ?w2 = "step_clock w1"
  have pg: "contacts_page ?ws '''' evalPageSize (db w1) = take evalPageSize (c # cs)"
    using eval_keys.fetch_first [of ?ws evalPageSize "db w1"] assms(4) w1 by simp
  have f: "run_state (FetchEvalPage ?ws '''' evalPageSize) w1 = (Inr (map for_eval (take evalPageSize (c # cs))), ?w2)"
    using page_run [of w1 ?ws "''''" evalPageSize] assms(1) w1 pg by simp
  obtain w3 where m: "run_state (Matches ?ws (for_eval c) tree) ?w2 = (EPanic, w3)"
    using Matches_run [of ?w2 ?ws "for_eval c" tree] assms(1,5) w1 by auto
  have s: "run_state (StreamContactsForEval ?ws evalPageSize tree) w1 = (ScanPanic, w3)"
    unfolding StreamContactsForEval_def state.sel
    by (subst StreamContactsForEval_loop.simps) (simp add: f m take_Cons')
  have keep: "env w3 = env w1" "db w3 = db w1" "redis w3 = redis w1" "settled w3 = settled w1"
    using preservesD [OF Stream_frame [OF steady_simps(1), of ?ws evalPageSize tree], of w1]
      preservesD [OF Stream_frame [OF steady_simps(2), of ?ws evalPageSize tree], of w1]
      preservesD [OF Stream_frame [OF steady_simps(6), of ?ws evalPageSize tree], of w1]
      preservesD [OF Stream_frame [OF steady_simps(5), of ?ws evalPageSize tree], of w1] s by simp_all
  show ?thesis unfolding step recompute_def wp_bind using s w1 keep by (auto simp: wp_def)
qed

lemma preserves_case_scan [frame]:
  "(\<And>ms. preserves f (g ms)) \<Longrightarrow> (\<And>e. preserves f (h e)) \<Longrightarrow> preserves f k \<Longrightarrow>
   preserves f (case v of Scanned ms \<Rightarrow> g ms | ScanErr e \<Rightarrow> h e | ScanPanic \<Rightarrow> k)"
  by (cases v) auto

lemma dispatch_segment_env: "preserves env (dispatch (Handle_segment n) m)"
proof -
  have "preserves env (Handle_segment n m)"
    unfolding Handle_segment_def nak_segment_def refresh_def recompute_def apply_matched_def by (intro frame; simp)
  then show ?thesis
    unfolding dispatch_def settle_def by (intro frame) (auto simp: preserves_def split: hresult.split)
qed

lemma meets_null_events:
  "events_enriched d' = events_enriched d \<Longrightarrow> meets_null d' ws ct n = meets_null d ws ct n"
  "events_enriched d' = events_enriched d \<Longrightarrow> rules_meet_null b d' ws ct rs = rules_meet_null b d ws ct rs"
proof (induction d ws ct n and b d ws ct rs rule: meets_null_rules_meet_null.induct)
  case (3 b d ws ct r rs)
  have "sat d' ws ct n = sat d ws ct n" if "sound_tree n" for n
    using verdict_sat [OF that, of d' ws ct] verdict_sat [OF that, of d ws ct] verdict_events [OF 3(3), of ws ct "Some n"] by simp
  with 3 show ?case by (auto split: option.split)
qed simp_all

text \<open>
  A segment whose stored filter has a null rule that the evaluation of the first contact reaches.
\<close>

definition poisoned :: "SegmentRefreshPayload \<Rightarrow> world \<Rightarrow> bool" where
  "poisoned p w \<longleftrightarrow> reliable (env w) \<and> lock_free p w \<and>
     (\<exists>row tree c cs. find (this_segment (sr_SegmentID p) (sr_WorkspaceID p)) (segments (db w)) = Some row \<and>
        ParseFilterTree (coalesce (sg_filter_tree row) (JObj [])) = Inr (Some tree) \<and>
        workspace_contacts (sr_WorkspaceID p) (db w) = c # cs \<and>
        meets_null (db w) (sr_WorkspaceID p) (for_eval c) tree)"

definition processing :: "SegmentRefreshPayload \<Rightarrow> world \<Rightarrow> bool" where
  "processing p w \<longleftrightarrow> find (this_segment (sr_SegmentID p) (sr_WorkspaceID p)) (segments (db w)) \<noteq> None \<and>
     (\<forall>r \<in> set (segments (db w)). this_segment (sr_SegmentID p) (sr_WorkspaceID p) r \<longrightarrow> sg_status r = Some ''processing'')"

definition deliver_segment :: "int \<Rightarrow> SegmentRefreshPayload message \<Rightarrow> world \<Rightarrow> world" where
  "deliver_segment n m w = snd (run_state (dispatch (Handle_segment n) m) w)"

lemma live_later: "live t e = None \<Longrightarrow> t \<le> t' \<Longrightarrow> live t' e = None"
  by (auto simp: live_def split: option.splits if_splits)

lemma poisoned_delivery:
  assumes "poisoned p w" and "Data m = Some p" and "valid_refresh p" and "w' = deliver_segment n m w"
  shows "settled w' = settled w @ [Nak]" and "processing p w'" and "poisoned p w'"
proof -
  let ?own = "this_segment (sr_SegmentID p) (sr_WorkspaceID p)"
  obtain row tree c cs where a: "reliable (env w)" "lock_free p w" "find ?own (segments (db w)) = Some row"
    "ParseFilterTree (coalesce (sg_filter_tree row) (JObj [])) = Inr (Some tree)"
    "workspace_contacts (sr_WorkspaceID p) (db w) = c # cs" "meets_null (db w) (sr_WorkspaceID p) (for_eval c) tree"
    using assms(1) by (auto simp: poisoned_def)
  have "wp (Handle_segment n m) (\<lambda>r w'. (r = Panic \<and> settled w' = settled w \<and>
      (\<exists>t. db w' = set_segment_status (sr_SegmentID p) (sr_WorkspaceID p) ''processing'' t (db w))) \<and>
      live (now w') (redis w' (segment_lock_key p)) = None) w"
  proof (rule locked_run [OF a(1) assms(2,3) a(2)], goal_cases)
    case (1 w1 v u)
    with a verdict_panics show ?case using refresh_panics [of w1 p row "Some tree" c cs n "attempt_of m"] by simp
  qed
  then have "wp (dispatch (Handle_segment n) m) (\<lambda>_ w'. settled w' = settled w @ [Nak] \<and>
      (\<exists>t. db w' = set_segment_status (sr_SegmentID p) (sr_WorkspaceID p) ''processing'' t (db w)) \<and>
      live (now w') (redis w' (segment_lock_key p)) = None) w"
    unfolding dispatch_def wp_bind by (rule wp_mono) (simp add: wp_settle)
  then obtain t where t: "settled w' = settled w @ [Nak]" "live (now w') (redis w' (segment_lock_key p)) = None"
    "db w' = set_segment_status (sr_SegmentID p) (sr_WorkspaceID p) ''processing'' t (db w)"
    by (auto simp: assms(4) deliver_segment_def wp_def case_prod_beta)
  have e: "env w' = env w"
    using preservesD [OF dispatch_segment_env [of n m], of w] by (simp add: assms(4) deliver_segment_def)
  have row': "find ?own (segments (db w')) = Some (row\<lparr>sg_status := Some ''processing'', sg_last_computed := Some t, sg_updated_at := t\<rparr>)"
    using a(3) find_update_sub [of ?own _ "\<lambda>_. True" "segments (db w)"] by (simp add: t(3) set_segment_status_def)
  have c': "workspace_contacts (sr_WorkspaceID p) (db w') = c # cs" using a(5) by (simp add: t(3))
  have n': "meets_null (db w') (sr_WorkspaceID p) (for_eval c) tree"
    using a(6) meets_null_events(1) [of "db w'" "db w"] by (simp add: t(3) set_segment_status_def)
  show "settled w' = settled w @ [Nak]" by (rule t(1))
  show "processing p w'"
    using row' by (auto simp: processing_def t(3) set_segment_status_def in_update_where)
  have "lock_free p w'" using live_later [OF t(2) step_clock_now] by (simp add: lock_free_def)
  with e a(1,4) row' c' n' show "poisoned p w'" by (auto simp: poisoned_def)
qed

lemma poisoned_deliveries:
  assumes "poisoned p w" and "valid_refresh p" and "\<forall>m \<in> set ms. Data m = Some p"
  shows "settled (fold (deliver_segment n) ms w) = settled w @ replicate (length ms) Nak \<and> poisoned p (fold (deliver_segment n) ms w) \<and>
    (ms \<noteq> [] \<longrightarrow> processing p (fold (deliver_segment n) ms w))"
  using assms
proof (induction ms rule: rev_induct)
  case (snoc m ms)
  then have "poisoned p (fold (deliver_segment n) ms w)" "settled (fold (deliver_segment n) ms w) = settled w @ replicate (length ms) Nak"
    by simp_all
  with poisoned_delivery [OF _ _ snoc.prems(2) refl, of "fold (deliver_segment n) ms w" m n] snoc.prems(3)
  show ?case by (simp add: replicate_append_same)
qed simp

section \<open>Properties\<close>

definition sample_row :: "json \<Rightarrow> segment_row" where
  "sample_row f = \<lparr>sg_id = ''s'', sg_workspace_id = ''w'', sg_name = ''Pros'', sg_filter_tree = Some f,
     sg_status = Some ''queued'', sg_contact_count = 0, sg_last_computed = None, sg_updated_at = 0\<rparr>"

definition sample_member :: "char \<Rightarrow> string \<Rightarrow> contact_row" where
  "sample_member c e = \<lparr>ct_id = Uuid c '''', ct_workspace_id = ''w'', ct_user_id = None, ct_anonymous_id = None,
     ct_email = Some e, ct_first_name = None, ct_last_name = None, ct_phone = None, ct_status = ''active'',
     ct_is_suppressed = None, ct_is_email_valid = None, ct_lifecycle_stage = None, ct_lead_score = None,
     ct_properties = None, ct_traits = None, ct_created_at = 0, ct_updated_at = 0, ct_deleted_at = None\<rparr>"

text \<open>Two contacts, of which the filter selects the second; the first is a member from before.\<close>

definition segment_world :: "json \<Rightarrow> world" where
  "segment_world f = quiet_world\<lparr>db := empty_pg\<lparr>segments := [sample_row f],
     contacts := [sample_member CHR ''b'' ''b@x.io'', sample_member CHR ''a'' ''a@y.io''],
     segment_memberships := [\<lparr>sm_segment_id = ''s'', sm_workspace_id = ''w'', sm_contact_id = ''a'', sm_created_at = 0\<rparr>]\<rparr>\<rparr>"

definition email_filter :: json where
  "email_filter = JObj [(''operator'', JStr ''ends_with''), (''field'', JStr ''email''), (''value'', JStr ''x.io'')]"

definition email_rule :: FilterNode where
  "email_rule = FilterNode ''ends_with'' [] ''email'' (JStr ''x.io'')"

definition null_filter :: json where
  "null_filter = JObj [(''operator'', JStr ''AND''), (''rules'', JArr [JNull])]"

definition sample_refresh :: SegmentRefreshPayload where
  "sample_refresh = \<lparr>sr_WorkspaceID = ''w'', sr_SegmentID = ''s''\<rparr>"

lemma segment_world_simps:
  "reliable (env (segment_world f))" "valid_refresh sample_refresh" "lock_free sample_refresh (segment_world f)"
  "find (this_segment (sr_SegmentID sample_refresh) (sr_WorkspaceID sample_refresh)) (segments (db (segment_world f))) = Some (sample_row f)"
  "owned (sr_SegmentID sample_refresh) (sr_WorkspaceID sample_refresh) (segment_memberships (db (segment_world f)))"
  "coalesce (sg_filter_tree (sample_row f)) (JObj []) = f"
  "settled (segment_world f) = []"
  by (simp_all add: segment_world_def reliable_def quiet_world_def sample_refresh_def valid_refresh_def lock_free_def
      live_def this_segment_def sample_row_def owned_def)

lemma sample_member_id: "id_text (sample_member c e) = [c]"
  by (simp add: id_text_def sample_member_def)

lemma segment_world_contacts:
  "workspace_contacts ''w'' (db (segment_world f)) = [sample_member CHR ''a'' ''a@y.io'', sample_member CHR ''b'' ''b@x.io'']"
proof -
  have "workspace_contacts ''w'' (db (segment_world f)) =
      sort_key id_text [sample_member CHR ''b'' ''b@x.io'', sample_member CHR ''a'' ''a@y.io'']"
    by (simp add: workspace_contacts_def segment_world_def sample_member_def)
  moreover have "\<not> ''b'' \<le> ''a''" by code_simp
  ultimately show ?thesis by (simp add: sample_member_id)
qed

text \<open>
  Claim C11. A refresh installs the segment: without faults, for a free lock and a filter that is decided on
  every contact of the workspace, the message is acknowledged, the members of the segment are exactly
  the contacts the filter selects, whatever they were before, the segment is ready with their number, and
  the lock is free again.
\<close>

theorem refresh_installs_selection:
  assumes "reliable (env w)" and "Data m = Some p" and "valid_refresh p" and "lock_free p w"
    and "find (this_segment (sr_SegmentID p) (sr_WorkspaceID p)) (segments (db w)) = Some row"
    and "ParseFilterTree (coalesce (sg_filter_tree row) (JObj [])) = Inr tree"
    and "decided (sr_WorkspaceID p) tree (db w)" and "distinct (map id_text (workspace_contacts (sr_WorkspaceID p) (db w)))"
    and "owned (sr_SegmentID p) (sr_WorkspaceID p) (segment_memberships (db w))"
  shows "wp (Handle_segment n m) (\<lambda>r w'. (r = Done \<and> settled w' = settled w @ [Ack] \<and>
    members (sr_SegmentID p) (sr_WorkspaceID p) (db w') = selected (sr_WorkspaceID p) tree (db w) \<and>
    ready_with (sr_SegmentID p) (sr_WorkspaceID p) (int (card (selected (sr_WorkspaceID p) tree (db w)))) (db w')) \<and>
    live (now w') (redis w' (segment_lock_key p)) = None) w"
proof (rule locked_run [OF assms(1-4)], goal_cases)
  case (1 w1 v u)
  with assms show ?case
    using refresh_outcome [of w1 p row tree n "attempt_of m"] by (simp add: conj_ac)
qed

lemma refresh_installs_selection_witness:
  "wp (Handle_segment 5 \<lparr>Data = Some sample_refresh, NumDelivered = Some 1\<rparr>)
    (\<lambda>r w'. members ''s'' ''w'' (db w') = {''b''} \<and> settled w' = [Ack]) (segment_world email_filter)"
proof -
  have v: "verdict (db (segment_world email_filter)) ''w'' (for_eval (sample_member CHR ''a'' ''a@y.io'')) (Some email_rule) = EOk False"
    "verdict (db (segment_world email_filter)) ''w'' (for_eval (sample_member CHR ''b'' ''b@x.io'')) (Some email_rule) = EOk True"
    by code_simp+
  have t: "ParseFilterTree email_filter = Inr (Some email_rule)" by code_simp
  have s: "selected ''w'' (Some email_rule) (db (segment_world email_filter)) = {''b''}"
    using v by (auto simp: selected_def segment_world_contacts sample_member_id
        intro!: exI [of _ "sample_member CHR ''b'' ''b@x.io''"])
  have d: "decided ''w'' (Some email_rule) (db (segment_world email_filter))"
    using v by (auto simp: decided_def segment_world_contacts)
  have p: "sr_SegmentID sample_refresh = ''s''" "sr_WorkspaceID sample_refresh = ''w''" by (simp_all add: sample_refresh_def)
  have "wp (Handle_segment 5 \<lparr>Data = Some sample_refresh, NumDelivered = Some 1\<rparr>)
    (\<lambda>r w'. (r = Done \<and> settled w' = settled (segment_world email_filter) @ [Ack] \<and>
      members (sr_SegmentID sample_refresh) (sr_WorkspaceID sample_refresh) (db w') =
        selected (sr_WorkspaceID sample_refresh) (Some email_rule) (db (segment_world email_filter)) \<and>
      ready_with (sr_SegmentID sample_refresh) (sr_WorkspaceID sample_refresh)
        (int (card (selected (sr_WorkspaceID sample_refresh) (Some email_rule) (db (segment_world email_filter))))) (db w')) \<and>
      live (now w') (redis w' (segment_lock_key sample_refresh)) = None) (segment_world email_filter)"
    by (rule refresh_installs_selection [where row = "sample_row email_filter"])
      (simp_all only: segment_world_simps t message.simps, simp_all only: p d segment_world_contacts list.map sample_member_id, simp_all)
  then show ?thesis by (rule wp_mono) (simp add: s p segment_world_simps)
qed

text \<open>
  In every environment, faults and panics included, a refresh stays inside its segment: no other
  segment, membership, table or lock changes, and nothing is sent or published.
\<close>

theorem refresh_stays_inside:
  assumes "Data m = Some p"
  shows "segment_evolves p w (snd (run_state (Handle_segment n m) w))"
  using segment_guar_Handle [OF assms] by (simp add: state_io_rel_def)

lemma refresh_stays_inside_witness:
  "segment_evolves sample_refresh (segment_world null_filter)
    (snd (run_state (Handle_segment 5 \<lparr>Data = Some sample_refresh, NumDelivered = None\<rparr>) (segment_world null_filter)))"
  by (rule refresh_stays_inside) simp

text \<open>
  Claim C38. A null in a filter tree poisons its segment. The parser accepts \<^verbatim>\<open>null\<close> as a rule and the evaluator dereferences
  it. When the rules before it leave its group undecided for the first contact, then, without faults and with the lock free,
  each delivery of a refresh, whatever its attempt number and however many there are, ends with a recovered panic and a plain \<^verbatim>\<open>Nak\<close>,
  and the segment says \<^verbatim>\<open>processing\<close> from then on, also after the last delivery that the consumer allows.
\<close>

theorem null_rule_poisons_segment:
  assumes "poisoned p w" and "valid_refresh p" and "\<forall>m \<in> set ms. Data m = Some p" and "w' = fold (deliver_segment n) ms w"
  shows "settled w' = settled w @ replicate (length ms) Nak \<and> (ms \<noteq> [] \<longrightarrow> processing p w')"
  using poisoned_deliveries [OF assms(1-3)] unfolding assms(4) by blast

lemma null_rule_poisons_segment_witness:
  "let w' = fold (deliver_segment 5) [\<lparr>Data = Some sample_refresh, NumDelivered = Some 1\<rparr>, \<lparr>Data = Some sample_refresh, NumDelivered = Some 6\<rparr>]
     (segment_world null_filter) in settled w' = [Nak, Nak] \<and> processing sample_refresh w'"
proof -
  have t: "ParseFilterTree null_filter = Inr (Some (FilterNode ''AND'' [None] [] JNull))" by code_simp
  have v: "meets_null (db (segment_world null_filter)) ''w'' (for_eval (sample_member CHR ''a'' ''a@y.io''))
      (FilterNode ''AND'' [None] [] JNull)" by code_simp
  have p: "sr_WorkspaceID sample_refresh = ''w''" by (simp add: sample_refresh_def)
  have "poisoned sample_refresh (segment_world null_filter)"
    unfolding poisoned_def
  proof (intro conjI exI)
    show "workspace_contacts (sr_WorkspaceID sample_refresh) (db (segment_world null_filter)) =
        sample_member CHR ''a'' ''a@y.io'' # [sample_member CHR ''b'' ''b@x.io'']"
      unfolding p segment_world_contacts ..
    show "meets_null (db (segment_world null_filter)) (sr_WorkspaceID sample_refresh) (for_eval (sample_member CHR ''a'' ''a@y.io''))
        (FilterNode ''AND'' [None] [] JNull)"
      unfolding p by (rule v)
    show "ParseFilterTree (coalesce (sg_filter_tree (sample_row null_filter)) (JObj [])) = Inr (Some (FilterNode ''AND'' [None] [] JNull))"
      unfolding segment_world_simps(6) by (rule t)
  qed (simp_all add: segment_world_simps)
  from null_rule_poisons_segment [OF this segment_world_simps(2) _ refl, of
      "[\<lparr>Data = Some sample_refresh, NumDelivered = Some 1\<rparr>, \<lparr>Data = Some sample_refresh, NumDelivered = Some 6\<rparr>]" 5]
  show ?thesis by (simp add: Let_def segment_world_simps(7) numeral_2_eq_2 del: fold.simps)
qed

end
