(* ===== verification/PgAutomation.thy ===== *)
theory PgAutomation
  imports PgDelivery
begin

text \<open>
  The queries of \<^verbatim>\<open>internal/infra/postgres/client.go\<close> behind the event worker and the workflow
  engine. The tables have the unique indexes that the \<^verbatim>\<open>ON CONFLICT\<close> clauses name, since
  Postgres accepts such a clause only with one: contacts by workspace and user id and by workspace
  and anonymous id, enriched events by raw event, executions by workflow, contact and trigger event.
  A statement that would break one of them, other than its own arbiter, fails and changes nothing.
\<close>

definition unique_violation :: goerr where
  "unique_violation = Err ''duplicate key value violates unique constraint''"

definition nullif_empty :: "string \<Rightarrow> string option" where
  "nullif_empty s = (if s = '''' then None else Some s)"

section \<open>Contacts\<close>

record ContactRow =
  cw_ID :: string
  cw_WorkspaceID :: string
  cw_UserID :: string
  cw_Email :: string
  cw_Name :: string
  cw_Traits :: json

definition contact_row_of :: "contact_row \<Rightarrow> ContactRow" where
  "contact_row_of c = \<lparr>cw_ID = id_text c, cw_WorkspaceID = ct_workspace_id c, cw_UserID = coalesce (ct_user_id c) '''',
     cw_Email = coalesce (ct_email c) '''', cw_Name = coalesce (ct_first_name c) '''',
     cw_Traits = coalesce (ct_traits c) (JObj [])\<rparr>"

definition has_user :: "string \<Rightarrow> string \<Rightarrow> contact_row \<Rightarrow> bool" where
  "has_user workspaceID userID c \<longleftrightarrow> ct_workspace_id c = workspaceID \<and> ct_user_id c = Some userID"

definition has_anonymous :: "string \<Rightarrow> string \<Rightarrow> contact_row \<Rightarrow> bool" where
  "has_anonymous workspaceID anonymousID c \<longleftrightarrow> ct_workspace_id c = workspaceID \<and> ct_anonymous_id c = Some anonymousID"

definition FindContactByUserID :: "string \<Rightarrow> string \<Rightarrow> (world, goerr + ContactRow option) state" where
  "FindContactByUserID workspaceID userID =
     query (\<lambda>_ d. map_option contact_row_of (find (has_user workspaceID userID) (contacts d)))"

definition FindContactByAnonymousID :: "string \<Rightarrow> string \<Rightarrow> (world, goerr + ContactRow option) state" where
  "FindContactByAnonymousID workspaceID anonymousID =
     query (\<lambda>_ d. map_option contact_row_of (find (has_anonymous workspaceID anonymousID) (contacts d)))"

text \<open>
  \<^verbatim>\<open>||\<close> on \<^verbatim>\<open>jsonb\<close>: two objects are merged, the right one winning; otherwise the operands are
  concatenated as arrays, an operand that is no array counting as an array of one element.
\<close>

fun jsonb_elements :: "json \<Rightarrow> json list" where
  "jsonb_elements (JArr xs) = xs"
| "jsonb_elements x = [x]"

fun jsonb_concat :: "json \<Rightarrow> json \<Rightarrow> json" where
  "jsonb_concat (JObj xs) (JObj ys) = JObj (filter (\<lambda>(k, _). k \<notin> fst ` set ys) xs @ ys)"
| "jsonb_concat a b = JArr (jsonb_elements a @ jsonb_elements b)"

fun mk_uuid :: "string \<Rightarrow> uuid" where
  "mk_uuid [] = Uuid (CHR ''0'') []"
| "mk_uuid (c # cs) = Uuid c cs"

definition new_contact :: "string \<Rightarrow> string \<Rightarrow> string option \<Rightarrow> string option \<Rightarrow> json \<Rightarrow> int \<Rightarrow> contact_row" where
  "new_contact newID workspaceID userID anonymousID traits t =
     \<lparr>ct_id = mk_uuid newID, ct_workspace_id = workspaceID, ct_user_id = userID, ct_anonymous_id = anonymousID,
      ct_email = None, ct_first_name = None, ct_last_name = None, ct_phone = None, ct_status = ''active'',
      ct_is_suppressed = None, ct_is_email_valid = None, ct_lifecycle_stage = None, ct_lead_score = None,
      ct_properties = None, ct_traits = Some traits, ct_created_at = t, ct_updated_at = t, ct_deleted_at = None\<rparr>"

text \<open>Does another row than the one with this id hold the anonymous id?\<close>

definition anonymous_taken :: "string \<Rightarrow> string option \<Rightarrow> uuid option \<Rightarrow> contact_row list \<Rightarrow> bool" where
  "anonymous_taken workspaceID anonymousID own cs =
     (case anonymousID of None \<Rightarrow> False
      | Some a \<Rightarrow> list_ex (\<lambda>c. has_anonymous workspaceID a c \<and> Some (ct_id c) \<noteq> own) cs)"

definition upsert_contact ::
    "string \<Rightarrow> string \<Rightarrow> string \<Rightarrow> json \<Rightarrow> string \<Rightarrow> int \<Rightarrow> pg \<Rightarrow> (goerr + string) \<times> pg" where
  "upsert_contact workspaceID userID anonymousID traits newID t d =
     (case find (has_user workspaceID userID) (contacts d) of
        Some r \<Rightarrow>
          (let a = (case nullif_empty anonymousID of None \<Rightarrow> ct_anonymous_id r | Some x \<Rightarrow> Some x) in
           if anonymous_taken workspaceID a (Some (ct_id r)) (contacts d) then (Inl unique_violation, d)
           else (Inr (id_text r), d\<lparr>contacts := update_where (has_user workspaceID userID)
             (\<lambda>c. c\<lparr>ct_traits := map_option (\<lambda>x. jsonb_concat x traits) (ct_traits c), ct_anonymous_id := a,
                    ct_updated_at := t\<rparr>) (contacts d)\<rparr>))
      | None \<Rightarrow>
          if anonymous_taken workspaceID (nullif_empty anonymousID) None (contacts d) then (Inl unique_violation, d)
          else (let c = new_contact newID workspaceID (Some userID) (nullif_empty anonymousID) traits t
                in (Inr (id_text c), d\<lparr>contacts := contacts d @ [c]\<rparr>)))"

definition UpsertContact :: "string \<Rightarrow> string \<Rightarrow> string \<Rightarrow> json \<Rightarrow> (world, goerr + string) state" where
  "UpsertContact workspaceID userID anonymousID traits = do {
     newID \<leftarrow> new_uuid;
     exec_returning (upsert_contact workspaceID userID anonymousID traits newID)
   }"

definition upsert_anonymous :: "string \<Rightarrow> string \<Rightarrow> json \<Rightarrow> string \<Rightarrow> int \<Rightarrow> pg \<Rightarrow> (goerr + string) \<times> pg" where
  "upsert_anonymous workspaceID anonymousID traits newID t d =
     (case find (has_anonymous workspaceID anonymousID) (contacts d) of
        Some r \<Rightarrow> (Inr (id_text r), d\<lparr>contacts := update_where (has_anonymous workspaceID anonymousID)
          (\<lambda>c. c\<lparr>ct_traits := map_option (\<lambda>x. jsonb_concat x traits) (ct_traits c), ct_updated_at := t\<rparr>) (contacts d)\<rparr>)
      | None \<Rightarrow>
          (let c = new_contact newID workspaceID None (Some anonymousID) traits t
           in (Inr (id_text c), d\<lparr>contacts := contacts d @ [c]\<rparr>)))"

definition UpsertAnonymousContact :: "string \<Rightarrow> string \<Rightarrow> json \<Rightarrow> (world, goerr + string) state" where
  "UpsertAnonymousContact workspaceID anonymousID traits = do {
     newID \<leftarrow> new_uuid;
     exec_returning (upsert_anonymous workspaceID anonymousID traits newID)
   }"

definition merge_anonymous :: "string \<Rightarrow> string \<Rightarrow> string \<Rightarrow> int \<Rightarrow> pg \<Rightarrow> (goerr + unit) \<times> pg" where
  "merge_anonymous workspaceID contactID anonymousID t d =
     (let this = (\<lambda>c. id_text c = contactID \<and> ct_workspace_id c = workspaceID) in
      case find this (contacts d) of
        None \<Rightarrow> (Inr (), d)
      | Some r \<Rightarrow>
          if anonymous_taken workspaceID (Some anonymousID) (Some (ct_id r)) (contacts d) then (Inl unique_violation, d)
          else (Inr (), d\<lparr>contacts := update_where this
                 (\<lambda>c. c\<lparr>ct_anonymous_id := Some anonymousID, ct_updated_at := t\<rparr>) (contacts d)\<rparr>))"

definition MergeAnonymousIntoContact :: "string \<Rightarrow> string \<Rightarrow> string \<Rightarrow> (world, goerr + unit) state" where
  "MergeAnonymousIntoContact workspaceID contactID anonymousID =
     exec_returning (merge_anonymous workspaceID contactID anonymousID)"

section \<open>Raw and enriched events\<close>

definition this_raw :: "string \<Rightarrow> string \<Rightarrow> raw_event_row \<Rightarrow> bool" where
  "this_raw eventID workspaceID r \<longleftrightarrow> rw_id r = eventID \<and> rw_workspace_id r = workspaceID"

definition GetRawEventStatus :: "string \<Rightarrow> string \<Rightarrow> (world, goerr + string) state" where
  "GetRawEventStatus eventID workspaceID =
     query (\<lambda>_ d. case find (this_raw eventID workspaceID) (events_raw d) of None \<Rightarrow> '''' | Some r \<Rightarrow> rw_status r)"

definition mark_raw_processing :: "string \<Rightarrow> string \<Rightarrow> int \<Rightarrow> pg \<Rightarrow> pg" where
  "mark_raw_processing eventID workspaceID t d = d\<lparr>events_raw :=
     update_where (\<lambda>r. this_raw eventID workspaceID r \<and> status_in (rw_status r) [''queued'', ''processing''])
       (\<lambda>r. r\<lparr>rw_status := ''processing'', rw_updated_at := t\<rparr>) (events_raw d)\<rparr>"

definition MarkRawEventProcessing :: "string \<Rightarrow> string \<Rightarrow> (world, goerr + unit) state" where
  "MarkRawEventProcessing eventID workspaceID = exec (mark_raw_processing eventID workspaceID)"

definition mark_raw_processed :: "string \<Rightarrow> string \<Rightarrow> int \<Rightarrow> pg \<Rightarrow> pg" where
  "mark_raw_processed eventID workspaceID t d = d\<lparr>events_raw :=
     update_where (this_raw eventID workspaceID)
       (\<lambda>r. r\<lparr>rw_status := ''processed'', rw_processed_at := Some t, rw_updated_at := t\<rparr>) (events_raw d)\<rparr>"

definition MarkRawEventProcessed :: "string \<Rightarrow> string \<Rightarrow> (world, goerr + unit) state" where
  "MarkRawEventProcessed eventID workspaceID = exec (mark_raw_processed eventID workspaceID)"

definition mark_raw_failed :: "string \<Rightarrow> string \<Rightarrow> string \<Rightarrow> int \<Rightarrow> pg \<Rightarrow> pg" where
  "mark_raw_failed eventID workspaceID reason t d = d\<lparr>events_raw :=
     update_where (this_raw eventID workspaceID)
       (\<lambda>r. r\<lparr>rw_status := ''failed'', rw_failure_reason := Some reason, rw_updated_at := t\<rparr>) (events_raw d)\<rparr>"

definition MarkRawEventFailed :: "string \<Rightarrow> string \<Rightarrow> string \<Rightarrow> (world, goerr + unit) state" where
  "MarkRawEventFailed eventID workspaceID reason = exec (mark_raw_failed eventID workspaceID reason)"

record EnrichedEventRow =
  ee_WorkspaceID :: string
  ee_RawEventID :: string
  ee_ContactID :: string
  ee_UserID :: string
  ee_AnonymousID :: string
  ee_EventType :: string
  ee_EventName :: string
  ee_Properties :: json
  ee_Traits :: json
  ee_Context :: json
  ee_EnrichedData :: json

definition insert_enriched :: "EnrichedEventRow \<Rightarrow> string \<Rightarrow> int \<Rightarrow> pg \<Rightarrow> pg" where
  "insert_enriched e newID t d =
     (if list_ex (\<lambda>r. en_raw_event_id r = ee_RawEventID e) (events_enriched d) then d
      else d\<lparr>events_enriched := events_enriched d @ [\<lparr>en_id = newID, en_workspace_id = ee_WorkspaceID e,
        en_raw_event_id = ee_RawEventID e, en_contact_id = nullif_empty (ee_ContactID e),
        en_user_id = nullif_empty (ee_UserID e), en_anonymous_id = nullif_empty (ee_AnonymousID e),
        en_event_type = ee_EventType e, en_event_name = ee_EventName e, en_properties = ee_Properties e,
        en_traits = ee_Traits e, en_context = ee_Context e, en_enriched_data = ee_EnrichedData e,
        en_processed_at = t\<rparr>]\<rparr>)"

definition InsertEnrichedEvent :: "EnrichedEventRow \<Rightarrow> (world, goerr + unit) state" where
  "InsertEnrichedEvent e = do {
     newID \<leftarrow> new_uuid;
     exec (insert_enriched e newID)
   }"

record WorkflowTriggerRule =
  rule_WorkflowID :: string
  rule_EventName :: string
  rule_EventType :: string

definition rule_matches :: "string \<Rightarrow> string \<Rightarrow> string \<Rightarrow> trigger_rule_row \<Rightarrow> bool" where
  "rule_matches workspaceID eventType eventName r \<longleftrightarrow> tr_workspace_id r = workspaceID \<and>
     (tr_event_type r = Some eventType \<or> tr_event_type r = None \<or> tr_event_type r = Some '''') \<and>
     (tr_event_name r = Some eventName \<or> tr_event_name r = None \<or> tr_event_name r = Some '''') \<and> tr_active r"

definition FindMatchingWorkflowTriggers ::
    "string \<Rightarrow> string \<Rightarrow> string \<Rightarrow> (world, goerr + WorkflowTriggerRule list) state" where
  "FindMatchingWorkflowTriggers workspaceID eventType eventName =
     query (\<lambda>_ d. map (\<lambda>r. \<lparr>rule_WorkflowID = tr_workflow_id r, rule_EventName = coalesce (tr_event_name r) '''',
              rule_EventType = coalesce (tr_event_type r) ''''\<rparr>)
            (filter (rule_matches workspaceID eventType eventName) (workflow_triggers d)))"

definition increment_raw_attempts :: "string \<Rightarrow> string \<Rightarrow> int \<Rightarrow> pg \<Rightarrow> (goerr + int) \<times> pg" where
  "increment_raw_attempts eventID workspaceID t d =
     (let d' = d\<lparr>events_raw := update_where (this_raw eventID workspaceID)
            (\<lambda>r. r\<lparr>rw_attempts := Some (coalesce (rw_attempts r) 0 + 1), rw_updated_at := t\<rparr>) (events_raw d)\<rparr>
      in case find (this_raw eventID workspaceID) (events_raw d') of
           None \<Rightarrow> (Inl ErrNoRows, d')
         | Some r \<Rightarrow> (Inr (coalesce (rw_attempts r) 0), d'))"

definition IncrementRawEventAttempts :: "string \<Rightarrow> string \<Rightarrow> (world, goerr + int) state" where
  "IncrementRawEventAttempts eventID workspaceID = exec_returning (increment_raw_attempts eventID workspaceID)"

section \<open>Workflows and executions\<close>

record WorkflowRow =
  wkf_ID :: string
  wkf_WorkspaceID :: string
  wkf_Status :: string
  wkf_Nodes :: json

definition GetWorkflow :: "string \<Rightarrow> string \<Rightarrow> (world, goerr + WorkflowRow option) state" where
  "GetWorkflow workflowID workspaceID =
     query (\<lambda>_ d. map_option (\<lambda>r. \<lparr>wkf_ID = wf_id r, wkf_WorkspaceID = wf_workspace_id r,
              wkf_Status = coalesce (wf_status r) ''draft'', wkf_Nodes = coalesce (wf_nodes r) (JArr [])\<rparr>)
            (find (\<lambda>r. wf_id r = workflowID \<and> wf_workspace_id r = workspaceID) (workflows d)))"

record ExecutionRow =
  xr_ID :: string
  xr_WorkspaceID :: string
  xr_WorkflowID :: string
  xr_ContactID :: string
  xr_Status :: string
  xr_CurrentNodeID :: string
  xr_NextRunAt :: "int option"
  xr_RetryCount :: int
  xr_FailureReason :: string

definition execution_of :: "string \<Rightarrow> execution_row \<Rightarrow> ExecutionRow" where
  "execution_of dflt r = \<lparr>xr_ID = ex_id r, xr_WorkspaceID = ex_workspace_id r, xr_WorkflowID = ex_workflow_id r,
     xr_ContactID = ex_contact_id r, xr_Status = coalesce (ex_status r) dflt,
     xr_CurrentNodeID = coalesce (ex_current_node_id r) '''', xr_NextRunAt = ex_next_run_at r,
     xr_RetryCount = coalesce (ex_retry_count r) 0, xr_FailureReason = coalesce (ex_failure_reason r) ''''\<rparr>"

definition trigger_key :: "execution_row \<Rightarrow> string \<times> string \<times> string" where
  "trigger_key r = (ex_workflow_id r, ex_contact_id r, ex_trigger_event_id r)"

definition create_execution ::
    "string \<Rightarrow> string \<Rightarrow> string \<Rightarrow> string \<Rightarrow> string \<Rightarrow> int \<Rightarrow> pg \<Rightarrow> (goerr + string \<times> bool) \<times> pg" where
  "create_execution workflowID workspaceID contactID triggerEventID newID t d =
     (if list_ex (\<lambda>r. trigger_key r = (workflowID, contactID, triggerEventID)) (workflow_executions d)
      then (Inr ('''', False), d)
      else (Inr (newID, True), d\<lparr>workflow_executions := workflow_executions d @
        [\<lparr>ex_id = newID, ex_workflow_id = workflowID, ex_workspace_id = workspaceID, ex_contact_id = contactID,
          ex_trigger_event_id = triggerEventID, ex_status = Some ''running'', ex_current_node_id = None,
          ex_next_run_at = None, ex_retry_count = None, ex_failure_reason = None, ex_completed_at = None,
          ex_updated_at = t\<rparr>]\<rparr>))"

definition CreateExecution ::
    "string \<Rightarrow> string \<Rightarrow> string \<Rightarrow> string \<Rightarrow> (world, goerr + string \<times> bool) state" where
  "CreateExecution workflowID workspaceID contactID triggerEventID = do {
     newID \<leftarrow> new_uuid;
     exec_returning (create_execution workflowID workspaceID contactID triggerEventID newID)
   }"

definition GetExecution :: "string \<Rightarrow> (world, goerr + ExecutionRow option) state" where
  "GetExecution executionID =
     query (\<lambda>_ d. map_option (execution_of ''running'') (find (\<lambda>r. ex_id r = executionID) (workflow_executions d)))"

text \<open>\<^verbatim>\<open>UPDATE workflow_executions SET .. WHERE id = $1\<close>.\<close>

definition update_execution :: "string \<Rightarrow> (int \<Rightarrow> execution_row \<Rightarrow> execution_row) \<Rightarrow> int \<Rightarrow> pg \<Rightarrow> pg" where
  "update_execution executionID f t d = d\<lparr>workflow_executions :=
     update_where (\<lambda>r. ex_id r = executionID) (f t) (workflow_executions d)\<rparr>"

definition AdvanceExecution :: "string \<Rightarrow> string \<Rightarrow> string \<Rightarrow> (world, goerr + unit) state" where
  "AdvanceExecution executionID nodeID status = exec (update_execution executionID
     (\<lambda>t r. r\<lparr>ex_current_node_id := Some nodeID, ex_status := Some status, ex_updated_at := t\<rparr>))"

definition ScheduleDelay :: "string \<Rightarrow> string \<Rightarrow> int \<Rightarrow> (world, goerr + unit) state" where
  "ScheduleDelay executionID nodeID nextRunAt = exec (update_execution executionID
     (\<lambda>t r. r\<lparr>ex_status := Some ''waiting'', ex_current_node_id := Some nodeID,
             ex_next_run_at := Some nextRunAt, ex_updated_at := t\<rparr>))"

definition CompleteExecution :: "string \<Rightarrow> (world, goerr + unit) state" where
  "CompleteExecution executionID = exec (update_execution executionID
     (\<lambda>t r. r\<lparr>ex_status := Some ''completed'', ex_completed_at := Some t, ex_updated_at := t\<rparr>))"

definition FailExecution :: "string \<Rightarrow> string \<Rightarrow> (world, goerr + unit) state" where
  "FailExecution executionID reason = exec (update_execution executionID
     (\<lambda>t r. r\<lparr>ex_status := Some ''failed'', ex_failure_reason := Some reason, ex_updated_at := t\<rparr>))"

definition IncrementExecutionRetry :: "string \<Rightarrow> (world, goerr + int) state" where
  "IncrementExecutionRetry executionID = exec_returning (\<lambda>t d.
     let d' = update_execution executionID
                (\<lambda>t r. r\<lparr>ex_retry_count := Some (coalesce (ex_retry_count r) 0 + 1), ex_updated_at := t\<rparr>) t d
     in case find (\<lambda>r. ex_id r = executionID) (workflow_executions d') of
          None \<Rightarrow> (Inl ErrNoRows, d')
        | Some r \<Rightarrow> (Inr (coalesce (ex_retry_count r) 0), d'))"

definition execution_due :: "int \<Rightarrow> execution_row \<Rightarrow> bool" where
  "execution_due t r \<longleftrightarrow> ex_status r = Some ''waiting'' \<and>
     (case ex_next_run_at r of None \<Rightarrow> False | Some n \<Rightarrow> n \<le> t)"

definition FetchDueExecutions :: "nat \<Rightarrow> (world, goerr + ExecutionRow list) state" where
  "FetchDueExecutions limit =
     query (\<lambda>t d. map (execution_of ''waiting'') (take limit (sort_key (\<lambda>r. coalesce (ex_next_run_at r) 0)
       (filter (execution_due t) (workflow_executions d)))))"

definition GetContactForWorkflow :: "string \<Rightarrow> string \<Rightarrow> (world, goerr + ContactRow option) state" where
  "GetContactForWorkflow contactID workspaceID = FindContactByUserID workspaceID contactID"

section \<open>What the queries leave alone\<close>

lemma automation_reads [frame]:
  assumes "steady f"
  shows "preserves f (FindContactByUserID ws u)" and "preserves f (FindContactByAnonymousID ws a)"
    and "preserves f (GetRawEventStatus i ws)" and "preserves f (FindMatchingWorkflowTriggers ws et en)"
    and "preserves f (GetWorkflow i ws)" and "preserves f (GetExecution i)" and "preserves f (FetchDueExecutions n)"
    and "preserves f (GetContactForWorkflow c ws)"
  unfolding FindContactByUserID_def FindContactByAnonymousID_def GetRawEventStatus_def FindMatchingWorkflowTriggers_def
    GetWorkflow_def GetExecution_def FetchDueExecutions_def GetContactForWorkflow_def
  by (intro frame assms)+

lemma automation_writes [frame]:
  assumes "steady f" and "\<And>w d. f (w\<lparr>db := d\<rparr>) = f w"
  shows "preserves f (UpsertContact ws u a tr)" and "preserves f (UpsertAnonymousContact ws a tr)"
    and "preserves f (MergeAnonymousIntoContact ws c a)" and "preserves f (MarkRawEventProcessing i ws)"
    and "preserves f (MarkRawEventProcessed i ws)" and "preserves f (MarkRawEventFailed i ws s)"
    and "preserves f (InsertEnrichedEvent e)" and "preserves f (CreateExecution i ws c te)"
    and "preserves f (AdvanceExecution x n s)" and "preserves f (ScheduleDelay x n t)"
    and "preserves f (CompleteExecution x)" and "preserves f (FailExecution x s)"
  unfolding UpsertContact_def UpsertAnonymousContact_def MergeAnonymousIntoContact_def MarkRawEventProcessing_def
    MarkRawEventProcessed_def MarkRawEventFailed_def InsertEnrichedEvent_def CreateExecution_def AdvanceExecution_def
    ScheduleDelay_def CompleteExecution_def FailExecution_def
  by (intro frame assms)+

end
