(* ===== verification/GoDuration.thy ===== *)
theory GoDuration
  imports GoValues
begin

text \<open>
  \<^verbatim>\<open>time.ParseDuration\<close> and the 64-bit arithmetic of \<^verbatim>\<open>time.Duration\<close>, for the delay nodes of
  workflows. The library computes the fraction of a unit in \<^verbatim>\<open>float64\<close>; the model takes its exact
  integer part.
\<close>

definition wrap64 :: "int \<Rightarrow> int" where
  "wrap64 n = (n + 2 ^ 63) mod 2 ^ 64 - 2 ^ 63"

lemma wrap64_range: "- (2 ^ 63) \<le> wrap64 n" "wrap64 n < 2 ^ 63"
  by (simp_all add: wrap64_def)

lemma wrap64_id: "- (2 ^ 63) \<le> n \<Longrightarrow> n < 2 ^ 63 \<Longrightarrow> wrap64 n = n"
  by (simp add: wrap64_def)

text \<open>
  \<^verbatim>\<open>int64(f)\<close> of a \<^verbatim>\<open>float64\<close>: truncation, and the least \<^verbatim>\<open>int64\<close> when the result does not fit,
  as on amd64.
\<close>

definition int64_of_rat :: "rat \<Rightarrow> int" where
  "int64_of_rat q = (let n = (if q < 0 then - \<lfloor>- q\<rfloor> else \<lfloor>q\<rfloor>) in
     if - (2 ^ 63) \<le> n \<and> n < 2 ^ 63 then n else - (2 ^ 63))"

text \<open>Nanoseconds per unit; the micro sign comes as U+00B5 or U+03BC, in UTF-8.\<close>

definition unitMap :: "string \<Rightarrow> int option" where
  "unitMap u = map_of [(''ns'', 1), (''us'', 1000), ([CHR 0xC2, CHR 0xB5, CHR ''s''], 1000),
     ([CHR 0xCE, CHR 0xBC, CHR ''s''], 1000), (''ms'', 1000000), (''s'', 1000000000),
     (''m'', 60000000000), (''h'', 3600000000000)] u"

definition is_unit_end :: "char \<Rightarrow> bool" where
  "is_unit_end c \<longleftrightarrow> c = CHR ''.'' \<or> is_digit c"

text \<open>
  One round of the loop: an integer part, a fraction, a unit. The result is the number of
  nanoseconds and the rest of the text.
\<close>

definition duration_term :: "string \<Rightarrow> (int \<times> string) option" where
  "duration_term s =
     (let ip = takeWhile is_digit s; s1 = dropWhile is_digit s;
          dot = (s1 \<noteq> [] \<and> hd s1 = CHR ''.'');
          fp = (if dot then takeWhile is_digit (tl s1) else []);
          s2 = (if dot then dropWhile is_digit (tl s1) else s1);
          u = takeWhile (\<lambda>c. \<not> is_unit_end c) s2; s3 = dropWhile (\<lambda>c. \<not> is_unit_end c) s2;
          v = int (digits_value 0 ip)
      in if ip = [] \<and> fp = [] \<or> v > 2 ^ 63 \<or> u = [] then None else
         case unitMap u of
           None \<Rightarrow> None
         | Some k \<Rightarrow>
             (let x = v * k + (int (digits_value 0 fp) * k) div 10 ^ length fp
              in if v * k > 2 ^ 63 \<or> x > 2 ^ 63 then None else Some (x, s3)))"

lemma duration_term_shorter: "duration_term s = Some (x, s') \<Longrightarrow> length s' < length s"
proof -
  assume a: "duration_term s = Some (x, s')"
  let ?s1 = "dropWhile is_digit s"
  let ?s2 = "if ?s1 \<noteq> [] \<and> hd ?s1 = CHR ''.'' then dropWhile is_digit (tl ?s1) else ?s1"
  have "takeWhile (\<lambda>c. \<not> is_unit_end c) ?s2 \<noteq> []" and s': "s' = dropWhile (\<lambda>c. \<not> is_unit_end c) ?s2"
    using a by (auto simp: duration_term_def Let_def split: if_splits option.splits)
  then have "length s' < length ?s2"
    by (metis length_append length_greater_0_conv less_add_same_cancel2 takeWhile_dropWhile_id)
  moreover have "length ?s2 \<le> length ?s1"
    by (auto intro: le_trans [OF length_dropWhile_le])
  moreover have "length ?s1 \<le> length s" by (rule length_dropWhile_le)
  ultimately show ?thesis by linarith
qed

function duration_terms :: "int \<Rightarrow> string \<Rightarrow> int option" where
  "duration_terms d s =
     (if s = [] then Some d
      else if \<not> is_unit_end (hd s) then None
      else case duration_term s of
             None \<Rightarrow> None
           | Some (x, s') \<Rightarrow> if d + x > 2 ^ 63 then None else duration_terms (d + x) s')"
  by pat_completeness auto
termination
  by (relation "measure (\<lambda>(d, s). length s)") (auto dest: duration_term_shorter)

declare duration_terms.simps [simp del]

definition ParseDuration :: "string \<Rightarrow> int option" where
  "ParseDuration s =
     (case parse_sign s of (neg, r) \<Rightarrow>
        if r = ''0'' then Some 0
        else if r = [] then None
        else case duration_terms 0 r of
               None \<Rightarrow> None
             | Some d \<Rightarrow> if neg then Some (wrap64 (- d)) else if d > 2 ^ 63 - 1 then None else Some d)"

text \<open>A parsed duration is an \<^verbatim>\<open>int64\<close>.\<close>

lemma unitMap_pos: "unitMap u = Some k \<Longrightarrow> 0 < k"
  by (auto simp: unitMap_def split: if_splits)

lemma duration_term_nonneg: "duration_term s = Some (x, s') \<Longrightarrow> 0 \<le> x"
  by (auto simp: duration_term_def Let_def pos_imp_zdiv_nonneg_iff split: if_splits option.splits
      dest!: unitMap_pos intro!: add_nonneg_nonneg mult_nonneg_nonneg)

lemma duration_terms_range: "duration_terms d s = Some r \<Longrightarrow> 0 \<le> d \<Longrightarrow> d \<le> 2 ^ 63 \<Longrightarrow> 0 \<le> r \<and> r \<le> 2 ^ 63"
proof (induction d s rule: duration_terms.induct)
  case (1 d s)
  show ?case
  proof (cases "s = [] \<or> \<not> is_unit_end (hd s)")
    case True
    then show ?thesis using 1 by (auto simp: duration_terms.simps [of d s] split: if_splits)
  next
    case False
    with 1(2) obtain x s' where t: "duration_term s = Some (x, s')" and n: "\<not> d + x > 2 ^ 63"
      and r: "duration_terms (d + x) s' = Some r"
      by (auto simp: duration_terms.simps [of d s] split: option.splits if_splits)
    then show ?thesis using 1(1) [OF _ _ t refl n r] False 1(3) duration_term_nonneg [OF t] by simp
  qed
qed

lemma ParseDuration_range:
  assumes "ParseDuration s = Some d"
  shows "- (2 ^ 63) \<le> d \<and> d < 2 ^ 63"
proof -
  obtain neg r where p: "parse_sign s = (neg, r)" by (cases "parse_sign s")
  show ?thesis
  proof (cases "r = ''0'' \<or> r = []")
    case True
    then show ?thesis using assms p by (auto simp: ParseDuration_def)
  next
    case False
    then obtain v where v: "duration_terms 0 r = Some v" and
      d: "d = wrap64 (- v) \<or> d = v \<and> \<not> v > 2 ^ 63 - 1"
      using assms p by (auto simp: ParseDuration_def split: option.splits if_splits)
    have "0 \<le> v" using duration_terms_range [OF v] by simp
    with d show ?thesis using wrap64_range [of "- v"] by auto
  qed
qed

lemma ParseDuration_examples:
  "ParseDuration ''1h30m'' = Some 5400000000000" "ParseDuration ''-1.5s'' = Some (-1500000000)"
  "ParseDuration ''24h'' = Some 86400000000000" "ParseDuration ''1d'' = None" "ParseDuration ''10'' = None"
  "ParseDuration ''0'' = Some 0" "ParseDuration ''.5ms'' = Some 500000"
  by code_simp+

end
