(* ===== verification/Executor.thy ===== *)
theory Executor
  imports PgAutomation GoDuration Messaging SegmentFilter
begin

text \<open>
  The workflow executor: \<^verbatim>\<open>internal/worker/workflows/executor.go\<close>. \<open>Run_loop\<close> walks from node to
  node until a delay, an end or an error; whether it ever stops depends on the graph and on the
  environment, so its value is an \<open>option\<close>, \<open>None\<close> meaning that it does not return.
\<close>

section \<open>Nodes\<close>

record WorkflowNode =
  wn_ID :: string
  wn_Type :: string
  wn_Config :: gomap
  wn_NextNode :: string

definition zero_node :: WorkflowNode where
  "zero_node = \<lparr>wn_ID = '''', wn_Type = '''', wn_Config = None, wn_NextNode = ''''\<rparr>"

fun string_field :: "json \<Rightarrow> (string \<Rightarrow> 'n \<Rightarrow> 'n) \<Rightarrow> 'n \<Rightarrow> 'n option" where
  "string_field (JStr s) put n = Some (put s n)"
| "string_field JNull put n = Some n"
| "string_field _ put n = None"

definition node_field :: "string \<times> json \<Rightarrow> WorkflowNode \<Rightarrow> WorkflowNode option" where
  "node_field kv n =
     (case kv of (k, v) \<Rightarrow>
        if ToLower k = ''id'' then string_field v (\<lambda>s n. n\<lparr>wn_ID := s\<rparr>) n
        else if ToLower k = ''type'' then string_field v (\<lambda>s n. n\<lparr>wn_Type := s\<rparr>) n
        else if ToLower k = ''nextnode'' then string_field v (\<lambda>s n. n\<lparr>wn_NextNode := s\<rparr>) n
        else if ToLower k = ''config'' then
          (case v of JObj m \<Rightarrow> Some (n\<lparr>wn_Config := Some m\<rparr>) | JNull \<Rightarrow> Some (n\<lparr>wn_Config := None\<rparr>) | _ \<Rightarrow> None)
        else Some n)"

fun node_fields :: "(string \<times> json) list \<Rightarrow> WorkflowNode \<Rightarrow> WorkflowNode option" where
  "node_fields [] n = Some n"
| "node_fields (kv # kvs) n = (case node_field kv n of None \<Rightarrow> None | Some n' \<Rightarrow> node_fields kvs n')"

fun parse_nodes :: "json list \<Rightarrow> WorkflowNode list option" where
  "parse_nodes [] = Some []"
| "parse_nodes (x # xs) =
     (case (case x of JObj kvs \<Rightarrow> node_fields kvs zero_node | JNull \<Rightarrow> Some zero_node | _ \<Rightarrow> None) of
        None \<Rightarrow> None
      | Some n \<Rightarrow> map_option (\<lambda>ns. n # ns) (parse_nodes xs))"

definition ParseWorkflowNodes :: "json \<Rightarrow> goerr + WorkflowNode list" where
  "ParseWorkflowNodes data =
     (case data of
        JNull \<Rightarrow> Inr []
      | JArr xs \<Rightarrow> (case parse_nodes xs of None \<Rightarrow> Inl (Err ''parse workflow nodes'') | Some ns \<Rightarrow> Inr ns)
      | _ \<Rightarrow> Inl (Err ''parse workflow nodes''))"

definition buildNodeMap :: "WorkflowNode list \<Rightarrow> (string \<rightharpoonup> WorkflowNode)" where
  "buildNodeMap nodes = fold (\<lambda>n m. m(wn_ID n \<mapsto> n)) nodes Map.empty"

definition config_value :: "gomap \<Rightarrow> string \<Rightarrow> json option" where
  "config_value cfg k = (case cfg of None \<Rightarrow> None | Some m \<Rightarrow> map_of m k)"

definition config_string :: "WorkflowNode \<Rightarrow> string \<Rightarrow> string" where
  "config_string n k = (case config_value (wn_Config n) k of Some (JStr s) \<Rightarrow> s | _ \<Rightarrow> '''')"

text \<open>JSON numbers decode to \<^verbatim>\<open>float64\<close>; the multiplication of two durations wraps.\<close>

definition parseDuration :: "gomap \<Rightarrow> goerr + int" where
  "parseDuration cfg =
     (case config_value cfg ''duration'' of
        Some (JStr d) \<Rightarrow>
          (case ParseDuration d of None \<Rightarrow> Inl (Err (''time: invalid duration '' @ quoted d)) | Some x \<Rightarrow> Inr x)
      | _ \<Rightarrow>
          (case config_value cfg ''seconds'' of
             Some (JNum m e) \<Rightarrow> Inr (wrap64 (int64_of_rat (scale10 (of_int m) e) * Second))
           | _ \<Rightarrow> Inl (Err ''delay node config missing duration or seconds'')))"

section \<open>Email nodes\<close>

definition workflow_job :: "ExecutionRow \<Rightarrow> WorkflowNode \<Rightarrow> string \<Rightarrow> string \<Rightarrow> string \<Rightarrow> TransactionalEmailPayload" where
  "workflow_job x n sendID toEmail toName =
     \<lparr>tx_JobID = ''wf-'' @ xr_ID x @ ''-'' @ wn_ID n, tx_WorkspaceID = xr_WorkspaceID x, tx_SendID = sendID,
      tx_To = [\<lparr>addr_Email = toEmail, addr_Name = toName\<rparr>],
      tx_From = \<lparr>addr_Email = config_string n ''fromEmail'', addr_Name = config_string n ''fromName''\<rparr>,
      tx_ReplyTo = config_string n ''replyTo'', tx_Subject = config_string n ''subject'',
      tx_HTML = config_string n ''html'', tx_Text = config_string n ''text'',
      tx_Tags = [(''workflow_id'', xr_WorkflowID x), (''execution_id'', xr_ID x)], tx_Provider = ''ses''\<rparr>"

definition workflow_msg_id :: "ExecutionRow \<Rightarrow> WorkflowNode \<Rightarrow> string" where
  "workflow_msg_id x n = ''wf-email-'' @ xr_ID x @ ''-'' @ wn_ID n"

definition sendable :: "WorkflowNode \<Rightarrow> bool" where
  "sendable n \<longleftrightarrow> config_string n ''subject'' \<noteq> '''' \<and>
     (config_string n ''html'' \<noteq> '''' \<or> config_string n ''text'' \<noteq> '''')"

definition executeEmail :: "ExecutionRow \<Rightarrow> WorkflowNode \<Rightarrow> (world, goerr + unit) state" where
  "executeEmail x n = do {
     c \<leftarrow> GetContactForWorkflow (xr_ContactID x) (xr_WorkspaceID x);
     case c of
       Inl e \<Rightarrow> State_Monad.return (Inl (Wrap ''load contact'' e))
     | Inr contact \<Rightarrow>
         if \<not> sendable n then State_Monad.return (Inl (Err (''email node '' @ wn_ID n @ '' missing subject or body'')))
         else
           (case contact of
              None \<Rightarrow> State_Monad.return (Inr ())
            | Some ct \<Rightarrow>
                if cw_Email ct = '''' then State_Monad.return (Inr ()) else do {
                  sendID \<leftarrow> new_uuid;
                  p \<leftarrow> Publish ''email.send.transactional''
                         (PTransactional (workflow_job x n sendID (cw_Email ct) (cw_Name ct))) (workflow_msg_id x n);
                  State_Monad.return (case p of Inl e \<Rightarrow> Inl (Wrap ''publish email'' e) | Inr _ \<Rightarrow> Inr ())
                })
   }"

section \<open>One node\<close>

datatype node_outcome = Goto string | Halt string | Fault goerr

definition finish_or_advance :: "ExecutionRow \<Rightarrow> WorkflowNode \<Rightarrow> string \<Rightarrow> (world, node_outcome) state" where
  "finish_or_advance x n what =
     (if wn_NextNode n = '''' then do {
        r \<leftarrow> CompleteExecution (xr_ID x);
        State_Monad.return (case r of Inl e \<Rightarrow> Fault (Wrap (''complete after '' @ what) e) | Inr _ \<Rightarrow> Halt ''completed'')
      } else do {
        r \<leftarrow> AdvanceExecution (xr_ID x) (wn_NextNode n) ''running'';
        State_Monad.return (case r of Inl e \<Rightarrow> Fault (Wrap (''advance from '' @ what) e) | Inr _ \<Rightarrow> Goto (wn_NextNode n))
      })"

definition run_node :: "ExecutionRow \<Rightarrow> WorkflowNode \<Rightarrow> (world, node_outcome) state" where
  "run_node x n =
     (if wn_Type n = ''trigger'' then finish_or_advance x n ''trigger''
      else if wn_Type n = ''email'' then do {
        r \<leftarrow> executeEmail x n;
        case r of
          Inl e \<Rightarrow> State_Monad.return (Fault (Wrap (''email node '' @ wn_ID n) e))
        | Inr _ \<Rightarrow> finish_or_advance x n ''email''
      }
      else if wn_Type n = ''delay'' then
        (case parseDuration (wn_Config n) of
           Inl e \<Rightarrow> State_Monad.return (Fault (Wrap (''delay node '' @ wn_ID n) e))
         | Inr delay \<Rightarrow> do {
             t \<leftarrow> time_now;
             r \<leftarrow> ScheduleDelay (xr_ID x) (wn_ID n) (t + delay);
             State_Monad.return (case r of Inl e \<Rightarrow> Fault (Wrap ''schedule delay'' e) | Inr _ \<Rightarrow> Halt ''waiting'')
           })
      else if wn_Type n = ''end'' then do {
        r \<leftarrow> CompleteExecution (xr_ID x);
        State_Monad.return (case r of Inl e \<Rightarrow> Fault (Wrap ''complete at end node'' e) | Inr _ \<Rightarrow> Halt ''completed'')
      }
      else State_Monad.return (Fault (Err (''unsupported node type '' @ quoted (wn_Type n)))))"

section \<open>The walk\<close>

text \<open>An error comes with the status \<^verbatim>\<open>failed\<close>, so the result is an error or a status.\<close>

partial_function (option) Run_loop ::
    "ExecutionRow \<Rightarrow> (string \<rightharpoonup> WorkflowNode) \<Rightarrow> string \<Rightarrow> world \<Rightarrow> ((goerr + string) \<times> world) option" where
  "Run_loop x nodeMap currentID w =
     (case nodeMap currentID of
        None \<Rightarrow> Some (Inl (Err (''node '' @ quoted currentID @ '' not found in workflow'')), w)
      | Some n \<Rightarrow>
          (case run_state (run_node x n) w of (r, w1) \<Rightarrow>
             (case r of
                Goto next \<Rightarrow> Run_loop x nodeMap next w1
              | Halt status \<Rightarrow> Some (Inr status, w1)
              | Fault e \<Rightarrow> Some (Inl e, w1))))"

declare Run_loop.simps [code]

definition Run :: "ExecutionRow \<Rightarrow> WorkflowNode list \<Rightarrow> world \<Rightarrow> ((goerr + string) \<times> world) option" where
  "Run x nodes = Run_loop x (buildNodeMap nodes)
     (if xr_CurrentNodeID x = '''' \<and> nodes \<noteq> [] then wn_ID (hd nodes) else xr_CurrentNodeID x)"

definition ResumeFromDelay :: "ExecutionRow \<Rightarrow> WorkflowNode list \<Rightarrow> world \<Rightarrow> ((goerr + string) \<times> world) option" where
  "ResumeFromDelay x nodes w =
     (case buildNodeMap nodes (xr_CurrentNodeID x) of
        None \<Rightarrow> Some (Inl (Err (''delay node '' @ quoted (xr_CurrentNodeID x) @ '' not found'')), w)
      | Some n \<Rightarrow>
          if wn_NextNode n = '''' then
            (case run_state (CompleteExecution (xr_ID x)) w of
               (Inl e, w1) \<Rightarrow> Some (Inl e, w1)
             | (Inr _, w1) \<Rightarrow> Some (Inr ''completed'', w1))
          else
            (case run_state (AdvanceExecution (xr_ID x) (wn_NextNode n) ''running'') w of
               (Inl e, w1) \<Rightarrow> Some (Inl e, w1)
             | (Inr _, w1) \<Rightarrow> Run (x\<lparr>xr_CurrentNodeID := wn_NextNode n\<rparr>) nodes w1))"

section \<open>What a node may touch\<close>

lemma executeEmail_frame [frame]:
  "steady f \<Longrightarrow> (\<And>w p. f (w\<lparr>published := p\<rparr>) = f w) \<Longrightarrow> preserves f (executeEmail x n)"
  unfolding executeEmail_def by (intro frame)

lemma run_node_frame [frame]:
  assumes "steady f" and "\<And>w p. f (w\<lparr>published := p\<rparr>) = f w" and "\<And>w d. f (w\<lparr>db := d\<rparr>) = f w"
  shows "preserves f (run_node x n)"
  unfolding run_node_def finish_or_advance_def by (intro frame assms)

text \<open>Induction along a walk that returns.\<close>

lemma Run_loop_induct [consumes 1, case_names missing goto halt fault]:
  assumes run: "Run_loop x nm cur w = Some (r, w')"
    and missing: "\<And>cur w. nm cur = None \<Longrightarrow>
      P cur w (Inl (Err (''node '' @ quoted cur @ '' not found in workflow''))) w"
    and goto: "\<And>cur n next w w1 r w'. nm cur = Some n \<Longrightarrow> run_state (run_node x n) w = (Goto next, w1) \<Longrightarrow>
      P next w1 r w' \<Longrightarrow> P cur w r w'"
    and halt: "\<And>cur n st w w1. nm cur = Some n \<Longrightarrow> run_state (run_node x n) w = (Halt st, w1) \<Longrightarrow> P cur w (Inr st) w1"
    and fault: "\<And>cur n e w w1. nm cur = Some n \<Longrightarrow> run_state (run_node x n) w = (Fault e, w1) \<Longrightarrow> P cur w (Inl e) w1"
  shows "P cur w r w'"
proof -
  let ?P = "\<lambda>x' nm' cur w y. x' = x \<and> nm' = nm \<longrightarrow> P cur w (fst y) (snd y)"
  have "(case (((x, nm), cur), w) of (v, w) \<Rightarrow> (case v of (v, cur) \<Rightarrow> (case v of (v, nm) \<Rightarrow> ?P v nm) cur) w) (r, w')"
  proof (rule Run_loop.raw_induct [where P = ?P])
    show "(case (((x, nm), cur), w) of (v, w) \<Rightarrow> (case v of (v, cur) \<Rightarrow> (case v of (v, nm) \<Rightarrow> Run_loop v nm) cur) w) = Some (r, w')"
      using run by simp
  next
    fix loop x' nm' cur' v y
    assume ih: "\<And>x' nm' cur' v y. loop x' nm' cur' v = Some y \<Longrightarrow> ?P x' nm' cur' v y"
      and body: "(case nm' cur' of
        None \<Rightarrow> Some (Inl (Err (''node '' @ quoted cur' @ '' not found in workflow'')), v)
      | Some n \<Rightarrow>
          (case run_state (run_node x' n) v of (r, w1) \<Rightarrow>
             (case r of
                Goto next \<Rightarrow> loop x' nm' next w1
              | Halt status \<Rightarrow> Some (Inr status, w1)
              | Fault e \<Rightarrow> Some (Inl e, w1)))) = Some y"
    show "?P x' nm' cur' v y"
    proof
      assume eq: "x' = x \<and> nm' = nm"
      show "P cur' v (fst y) (snd y)"
      proof (cases "nm cur'")
        case None
        then show ?thesis using body missing eq by auto
      next
        case (Some n)
        obtain o1 w1 where n: "run_state (run_node x n) v = (o1, w1)" by (cases "run_state (run_node x n) v")
        show ?thesis
        proof (cases o1)
          case (Goto nx)
          then have "loop x' nm' nx w1 = Some y" using body Some n eq by simp
          then show ?thesis using ih eq goto Some n Goto by blast
        next
          case (Halt st)
          then have "y = (Inr st, w1)" using body Some n eq by simp
          then show ?thesis using halt Some n Halt by simp
        next
          case (Fault e)
          then have "y = (Inl e, w1)" using body Some n eq by simp
          then show ?thesis using fault Some n Fault by simp
        qed
      qed
    qed
  qed
  then show ?thesis by simp
qed

lemma Run_loop_frame:
  assumes "steady f" and "\<And>w p. f (w\<lparr>published := p\<rparr>) = f w" and "\<And>w d. f (w\<lparr>db := d\<rparr>) = f w"
    and "Run_loop x nm cur w = Some (r, w')"
  shows "f w' = f w"
proof -
  have step: "f w1 = f w" if "run_state (run_node x n) w = (r1, w1)" for n w r1 w1
    using preservesD [OF run_node_frame [OF assms(1-3), of x n], of w] that by simp
  from assms(4) show ?thesis by (induction rule: Run_loop_induct) (auto dest: step)
qed

section \<open>Does a walk return?\<close>

definition passes :: "WorkflowNode \<Rightarrow> bool" where
  "passes n \<longleftrightarrow> (wn_Type n = ''trigger'' \<or> wn_Type n = ''email'') \<and> wn_NextNode n \<noteq> ''''"

text \<open>The steps a run can take without stopping.\<close>

definition edges :: "(string \<rightharpoonup> WorkflowNode) \<Rightarrow> (string \<times> string) set" where
  "edges nm = {(i, wn_NextNode n) |i n. nm i = Some n \<and> passes n}"

lemma goto_passes: "run_state (run_node x n) w = (Goto j, w1) \<Longrightarrow> passes n \<and> j = wn_NextNode n"
  by (auto simp: run_node_def finish_or_advance_def passes_def split: if_splits prod.splits sum.splits)

lemma finite_buildNodeMap: "finite (dom (buildNodeMap nodes))"
proof -
  have "finite (dom m) \<Longrightarrow> finite (dom (fold (\<lambda>n m. m(wn_ID n \<mapsto> n)) nodes m))" for m
    by (induction nodes arbitrary: m) simp_all
  then show ?thesis by (simp add: buildNodeMap_def)
qed

lemma finite_edges: "finite (dom nm) \<Longrightarrow> finite (edges nm)"
proof -
  assume "finite (dom nm)"
  moreover have "edges nm \<subseteq> (\<lambda>i. (i, wn_NextNode (the (nm i)))) ` dom nm" by (force simp: edges_def)
  ultimately show ?thesis using finite_surj by blast
qed

lemma Run_loop_acyclic:
  assumes "finite (dom nm)" and "acyclic (edges nm)"
  shows "\<exists>r. Run_loop x nm cur w = Some r"
proof -
  have "wf ((edges nm)\<inverse>)" using assms by (simp add: finite_edges finite_acyclic_wf_converse)
  then show ?thesis
  proof (induction cur arbitrary: w rule: wf_induct_rule)
    case (less cur)
    show ?case
    proof (cases "nm cur")
      case (Some n)
      obtain o1 w1 where n: "run_state (run_node x n) w = (o1, w1)" by (cases "run_state (run_node x n) w")
      show ?thesis
      proof (cases o1)
        case (Goto j)
        then have "(j, cur) \<in> (edges nm)\<inverse>" using goto_passes [of x n w j w1] n Some by (auto simp: edges_def)
        from less.IH [OF this, of w1] show ?thesis using Some n Goto by (simp add: Run_loop.simps)
      qed (use Some n in \<open>simp_all add: Run_loop.simps\<close>)
    qed (simp add: Run_loop.simps)
  qed
qed

text \<open>Time and the call counter only grow.\<close>

definition later :: "world \<Rightarrow> world \<Rightarrow> bool" where
  "later w w' \<longleftrightarrow> tick w \<le> tick w' \<and> now w \<le> now w'"

interpretation later: guarantee later
  by unfold_locales (auto simp: later_def)

lemma later_call: "(\<And>w. later w (snd (op w))) \<Longrightarrow> state_io_rel later (call op)"
proof -
  assume a: "\<And>w. later w (snd (op w))"
  have "later s (step_clock s)" for s by (simp add: later_def step_clock_now)
  then show ?thesis using a later.R_trans
    by (simp add: state_io_rel_def call_def Let_def split: fault.split) blast
qed

lemma later_rules:
  "state_io_rel later (query f)" "state_io_rel later (exec g)" "state_io_rel later new_uuid"
  "state_io_rel later time_now" "state_io_rel later (Publish s p i)"
  unfolding query_def exec_def Publish_def new_uuid_def time_now_def
  by (intro later.guar_rules later_call later.guar_State; simp add: later_def)+

lemma later_run_node: "state_io_rel later (run_node x n)"
  unfolding run_node_def finish_or_advance_def executeEmail_def GetContactForWorkflow_def FindContactByUserID_def
    CompleteExecution_def AdvanceExecution_def ScheduleDelay_def
  by (intro later.guar_rules later_rules)

lemma later_executeEmail: "run_state (executeEmail x n) w = (r, w1) \<Longrightarrow> later w w1"
proof -
  have "state_io_rel later (executeEmail x n)"
    unfolding executeEmail_def GetContactForWorkflow_def FindContactByUserID_def
    by (intro later.guar_rules later_rules)
  then show "run_state (executeEmail x n) w = (r, w1) \<Longrightarrow> later w w1"
    unfolding state_io_rel_def by (metis snd_conv)
qed

lemma advance_call:
  "run_state (finish_or_advance x n s) w = (Goto j, w1) \<Longrightarrow>
   fault (env w) (tick w) = NoFault \<and> tick w1 = Suc (tick w)"
  by (auto simp: finish_or_advance_def CompleteExecution_def AdvanceExecution_def exec_def call_def Let_def
      split: if_splits fault.splits prod.splits sum.splits)

lemma goto_call:
  assumes "run_state (run_node x n) w = (Goto j, w1)"
  shows "\<exists>k \<ge> tick w. fault (env w) k = NoFault \<and> tick w1 = Suc k"
proof (cases "wn_Type n = ''trigger''")
  case True
  then show ?thesis using assms advance_call [of x n "''trigger''" w j w1] by (auto simp: run_node_def)
next
  case False
  then have e: "wn_Type n = ''email''" using goto_passes [OF assms] by (simp add: passes_def)
  obtain r w0 where r: "run_state (executeEmail x n) w = (r, w0)" by (cases "run_state (executeEmail x n) w")
  have keep: "env w0 = env w" using preservesD [OF executeEmail_frame [of env x n], of w] r by simp
  have "tick w \<le> tick w0" using later_executeEmail [OF r] by (simp add: later_def)
  moreover have "run_state (finish_or_advance x n ''email'') w0 = (Goto j, w1)"
    using assms e r by (cases r) (simp_all add: run_node_def)
  then have "fault (env w0) (tick w0) = NoFault \<and> tick w1 = Suc (tick w0)" by (rule advance_call)
  ultimately show ?thesis using keep by auto
qed

text \<open>
  The context of a delivery has a deadline: from some call on, every call fails. Then every run
  returns, whatever the graph.
\<close>

definition has_deadline :: "env \<Rightarrow> bool" where
  "has_deadline e \<longleftrightarrow> (\<exists>K. \<forall>k \<ge> K. fault e k \<noteq> NoFault)"

lemma Run_loop_deadline:
  assumes "\<forall>k \<ge> K. fault (env w) k \<noteq> NoFault"
  shows "\<exists>r. Run_loop x nm cur w = Some r"
  using assms
proof (induction "K - tick w" arbitrary: cur w rule: less_induct)
  case less
  show ?case
  proof (cases "nm cur")
    case (Some n)
    obtain o1 w1 where n: "run_state (run_node x n) w = (o1, w1)" by (cases "run_state (run_node x n) w")
    show ?thesis
    proof (cases o1)
      case (Goto j)
      then obtain k where k: "tick w \<le> k" "fault (env w) k = NoFault" "tick w1 = Suc k"
        using goto_call [of x n w j w1] n by auto
      have "k < K" using k(2) less.prems by (meson not_le)
      then have "K - tick w1 < K - tick w" using k by simp
      moreover have "env w1 = env w" using preservesD [OF run_node_frame [of env x n], of w] n by simp
      ultimately obtain r where "Run_loop x nm j w1 = Some r" using less.hyps [of w1 j] less.prems by auto
      then show ?thesis using Some n Goto by (simp add: Run_loop.simps)
    qed (use Some n in \<open>simp_all add: Run_loop.simps\<close>)
  qed (simp add: Run_loop.simps)
qed

section \<open>Runs without faults\<close>

definition walkable :: "WorkflowNode \<Rightarrow> bool" where
  "walkable n \<longleftrightarrow> wn_Type n = ''trigger'' \<or> wn_Type n = ''email'' \<and> sendable n"

text \<open>The address an email node of this execution finds, and the message ids it publishes.\<close>

definition addressee :: "ExecutionRow \<Rightarrow> pg \<Rightarrow> string" where
  "addressee x d = (case find (has_user (xr_WorkspaceID x) (xr_ContactID x)) (contacts d) of
     None \<Rightarrow> '''' | Some c \<Rightarrow> coalesce (ct_email c) '''')"

definition mails_of :: "ExecutionRow \<Rightarrow> pg \<Rightarrow> WorkflowNode \<Rightarrow> string list" where
  "mails_of x d n = (if wn_Type n = ''email'' \<and> addressee x d \<noteq> '''' then [workflow_msg_id x n] else [])"

text \<open>What an execution leaves alone: all but its own row and the publication log.\<close>

definition only_execution :: "string \<Rightarrow> pg \<Rightarrow> pg \<Rightarrow> bool" where
  "only_execution i d d' \<longleftrightarrow> d' = d\<lparr>workflow_executions := workflow_executions d'\<rparr> \<and>
     filter (\<lambda>r. ex_id r \<noteq> i) (workflow_executions d') = filter (\<lambda>r. ex_id r \<noteq> i) (workflow_executions d) \<and>
     (\<exists>r \<in> set (workflow_executions d'). ex_id r = i) = (\<exists>r \<in> set (workflow_executions d). ex_id r = i)"

lemma only_execution_refl [simp]: "only_execution i d d"
  by (simp add: only_execution_def)

lemma only_execution_trans: "only_execution i d d' \<Longrightarrow> only_execution i d' d'' \<Longrightarrow> only_execution i d d''"
proof -
  assume a: "only_execution i d d'" "only_execution i d' d''"
  then have "d'' = d\<lparr>workflow_executions := workflow_executions d'\<rparr>\<lparr>workflow_executions := workflow_executions d''\<rparr>"
    unfolding only_execution_def by metis
  then show ?thesis using a by (simp add: only_execution_def)
qed

lemma only_execution_contacts: "only_execution i d d' \<Longrightarrow> contacts d' = contacts d"
  unfolding only_execution_def by (metis pg.select_convs(5) pg.surjective pg.update_convs(15))

lemma only_execution_update:
  assumes "\<And>r. ex_id (f t r) = ex_id r"
  shows "only_execution i d (update_execution i f t d)"
proof -
  have "filter (\<lambda>r. ex_id r \<noteq> i) (update_where (\<lambda>r. ex_id r = i) (f t) xs) = filter (\<lambda>r. ex_id r \<noteq> i) xs" for xs
    using assms by (induction xs) auto
  moreover have "(\<exists>r \<in> set (update_where (\<lambda>r. ex_id r = i) (f t) xs). ex_id r = i) = (\<exists>r \<in> set xs. ex_id r = i)" for xs
    using assms by (induction xs) auto
  ultimately show ?thesis by (simp add: only_execution_def update_execution_def)
qed

lemma executeEmail_run:
  assumes "reliable (env w)" and "sendable n"
  shows "\<exists>w'. run_state (executeEmail x n) w = (Inr (), w') \<and> env w' = env w \<and> db w' = db w \<and> settled w' = settled w \<and>
    redis w' = redis w \<and>
    map pm_MsgID (published w') = map pm_MsgID (published w) @
      (if addressee x (db w) \<noteq> '''' then [workflow_msg_id x n] else [])"
  using assms
  by (cases "find (has_user (xr_WorkspaceID x) (xr_ContactID x)) (contacts (db w))")
    (auto simp: executeEmail_def GetContactForWorkflow_def FindContactByUserID_def query_def call_def Let_def
      Publish_def new_uuid_def contact_row_of_def addressee_def split: prod.split)

lemma finish_run:
  assumes "reliable (env w)"
  shows "\<exists>w'. run_state (finish_or_advance x n s) w =
      (if wn_NextNode n = '''' then Halt ''completed'' else Goto (wn_NextNode n), w') \<and>
    env w' = env w \<and> published w' = published w \<and> settled w' = settled w \<and> redis w' = redis w \<and>
    only_execution (xr_ID x) (db w) (db w') \<and>
    (wn_NextNode n = '''' \<longrightarrow> (\<forall>r \<in> set (workflow_executions (db w')). ex_id r = xr_ID x \<longrightarrow> ex_status r = Some ''completed''))"
proof (cases "wn_NextNode n = ''''")
  case True
  then show ?thesis using assms
    by (simp add: finish_or_advance_def CompleteExecution_def exec_def call_def Let_def only_execution_update)
      (auto simp: update_execution_def in_update_where)
next
  case False
  then show ?thesis using assms
    by (simp add: finish_or_advance_def AdvanceExecution_def exec_def call_def Let_def only_execution_update)
qed

lemma walkable_run:
  assumes "reliable (env w)" and "walkable n"
  shows "\<exists>w'. run_state (run_node x n) w =
      (if wn_NextNode n = '''' then Halt ''completed'' else Goto (wn_NextNode n), w') \<and>
    env w' = env w \<and> settled w' = settled w \<and> redis w' = redis w \<and>
    map pm_MsgID (published w') = map pm_MsgID (published w) @ mails_of x (db w) n \<and>
    only_execution (xr_ID x) (db w) (db w') \<and>
    (wn_NextNode n = '''' \<longrightarrow> (\<forall>r \<in> set (workflow_executions (db w')). ex_id r = xr_ID x \<longrightarrow> ex_status r = Some ''completed''))"
proof (cases "wn_Type n = ''trigger''")
  case True
  then show ?thesis using finish_run [OF assms(1), of x n "''trigger''"] by (auto simp: run_node_def mails_of_def)
next
  case False
  then have e: "wn_Type n = ''email''" "sendable n" using assms(2) by (auto simp: walkable_def)
  obtain w1 where r: "run_state (executeEmail x n) w = (Inr (), w1)" and w1: "env w1 = env w" "db w1 = db w"
    "settled w1 = settled w" "redis w1 = redis w"
    "map pm_MsgID (published w1) = map pm_MsgID (published w) @ mails_of x (db w) n"
    using executeEmail_run [OF assms(1) e(2), of x] e by (auto simp: mails_of_def)
  show ?thesis using finish_run [of w1 x n "''email''"] assms(1) r w1 e by (auto simp: run_node_def)
qed

lemma cycle_diverges:
  assumes "reliable (env w)" and "cur \<in> C"
    and "\<forall>i \<in> C. \<exists>n. nm i = Some n \<and> walkable n \<and> wn_NextNode n \<noteq> '''' \<and> wn_NextNode n \<in> C"
  shows "Run_loop x nm cur w = None"
proof (rule ccontr)
  assume "Run_loop x nm cur w \<noteq> None"
  then obtain r w' where "Run_loop x nm cur w = Some (r, w')" by auto
  then have "reliable (env w) \<longrightarrow> cur \<notin> C"
  proof (induction rule: Run_loop_induct)
    case (goto cur n nx w w1 r w')
    then show ?case
    proof (intro impI notI)
      assume a: "reliable (env w)" "cur \<in> C"
      then have "walkable n" "wn_NextNode n \<in> C" "wn_NextNode n \<noteq> ''''" using assms(3) goto(1) by auto
      then show False using walkable_run [OF a(1), of n x] a goto by auto
    qed
  next
    case (halt cur n st w w1)
    then show ?case using assms(3) walkable_run [of w n x] by fastforce
  next
    case (fault cur n e w w1)
    then show ?case using assms(3) walkable_run [of w n x] by fastforce
  qed (use assms(3) in force)
  then show False using assms(1,2) by simp
qed

text \<open>
  The plan of a run, read off the graph alone: the nodes it passes, and how it ends.
\<close>

datatype plan_end = Completes | Waits string int

inductive plan :: "(string \<rightharpoonup> WorkflowNode) \<Rightarrow> string \<Rightarrow> WorkflowNode list \<Rightarrow> plan_end \<Rightarrow> bool"
  for nm :: "string \<rightharpoonup> WorkflowNode" where
  on: "nm i = Some n \<Longrightarrow> walkable n \<Longrightarrow> wn_NextNode n \<noteq> '''' \<Longrightarrow> plan nm (wn_NextNode n) ns e \<Longrightarrow> plan nm i (n # ns) e"
| last: "nm i = Some n \<Longrightarrow> walkable n \<Longrightarrow> wn_NextNode n = '''' \<Longrightarrow> plan nm i [n] Completes"
| stop: "nm i = Some n \<Longrightarrow> wn_Type n = ''end'' \<Longrightarrow> plan nm i [] Completes"
| delay: "nm i = Some n \<Longrightarrow> wn_Type n = ''delay'' \<Longrightarrow> parseDuration (wn_Config n) = Inr d \<Longrightarrow>
    plan nm i [] (Waits (wn_ID n) d)"

text \<open>The state of the row at the end of a run from \<open>w\<close> to \<open>w'\<close>.\<close>

fun ended :: "string \<Rightarrow> plan_end \<Rightarrow> world \<Rightarrow> world \<Rightarrow> bool" where
  "ended i Completes w w' \<longleftrightarrow>
     (\<forall>r \<in> set (workflow_executions (db w')). ex_id r = i \<longrightarrow> ex_status r = Some ''completed'')"
| "ended i (Waits node d) w w' \<longleftrightarrow> (\<exists>t. now w \<le> t \<and> t \<le> now w' \<and>
     (\<forall>r \<in> set (workflow_executions (db w')). ex_id r = i \<longrightarrow>
        ex_status r = Some ''waiting'' \<and> ex_current_node_id r = Some node \<and> ex_next_run_at r = Some (t + d)))"

fun end_status :: "plan_end \<Rightarrow> string" where
  "end_status Completes = ''completed''"
| "end_status (Waits node d) = ''waiting''"

lemma ended_later: "ended i e w1 w' \<Longrightarrow> now w \<le> now w1 \<Longrightarrow> ended i e w w'"
  by (cases e) (auto intro: order_trans)

definition planned :: "ExecutionRow \<Rightarrow> WorkflowNode list \<Rightarrow> plan_end \<Rightarrow> world \<Rightarrow> world \<Rightarrow> bool" where
  "planned x ns e w w' \<longleftrightarrow> only_execution (xr_ID x) (db w) (db w') \<and> ended (xr_ID x) e w w' \<and>
     map pm_MsgID (published w') = map pm_MsgID (published w) @ concat (map (mails_of x (db w)) ns) \<and>
     env w' = env w \<and> settled w' = settled w \<and> redis w' = redis w"

lemma run_node_later: "run_state (run_node x n) w = (r, w1) \<Longrightarrow> now w \<le> now w1"
  using later_run_node [of x n] unfolding state_io_rel_def later_def by (metis snd_conv)

lemma mails_of_cong: "contacts d' = contacts d \<Longrightarrow> mails_of x d' = mails_of x d"
  by (rule ext) (simp add: mails_of_def addressee_def)

lemma Run_loop_plan:
  assumes "plan nm cur ns e" and "reliable (env w)"
  shows "\<exists>w'. Run_loop x nm cur w = Some (Inr (end_status e), w') \<and> planned x ns e w w'"
  using assms
proof (induction arbitrary: w rule: plan.induct)
  case (on i n ns e)
  obtain w1 where r: "run_state (run_node x n) w = (Goto (wn_NextNode n), w1)"
    and w1: "env w1 = env w" "settled w1 = settled w" "redis w1 = redis w"
      "map pm_MsgID (published w1) = map pm_MsgID (published w) @ mails_of x (db w) n"
      "only_execution (xr_ID x) (db w) (db w1)"
    using walkable_run [OF on.prems on(2), of x] on(3) by auto
  obtain w' where w': "Run_loop x nm (wn_NextNode n) w1 = Some (Inr (end_status e), w')" "planned x ns e w1 w'"
    using on.IH [of w1] on.prems w1 by auto
  have m: "mails_of x (db w1) = mails_of x (db w)" by (rule mails_of_cong) (rule only_execution_contacts [OF w1(5)])
  have "only_execution (xr_ID x) (db w) (db w')"
    using w' w1(5) only_execution_trans unfolding planned_def by blast
  moreover have "ended (xr_ID x) e w w'" using w' run_node_later [OF r] ended_later unfolding planned_def by blast
  ultimately have "planned x (n # ns) e w w'" using w' w1 m by (simp add: planned_def)
  then show ?case using w' r on(1) by (simp add: Run_loop.simps)
next
  case (last i n)
  then show ?case using walkable_run [OF last.prems last(2), of x]
    by (auto simp: Run_loop.simps [of x nm i] planned_def)
next
  case (stop i n)
  then show ?case
    by (simp add: Run_loop.simps [of x nm i] planned_def run_node_def CompleteExecution_def exec_def call_def Let_def
        only_execution_update) (auto simp: update_execution_def in_update_where)
next
  case (delay i n d)
  let ?w' = "(step_clock w)\<lparr>db := update_execution (xr_ID x) (\<lambda>t r. r\<lparr>ex_status := Some ''waiting'', ex_current_node_id := Some (wn_ID n),
             ex_next_run_at := Some (now w + d), ex_updated_at := t\<rparr>) (now (step_clock w)) (db w)\<rparr>"
  have "Run_loop x nm i w = Some (Inr ''waiting'', ?w')"
    using delay by (simp add: Run_loop.simps [of x nm i] run_node_def ScheduleDelay_def exec_def call_def Let_def time_now_def)
  moreover have "ended (xr_ID x) (Waits (wn_ID n) d) w ?w'"
    using step_clock_now [of w] by (auto simp: update_execution_def in_update_where intro!: exI [of _ "now w"])
  then have "planned x [] (Waits (wn_ID n) d) w ?w'" by (simp add: planned_def only_execution_update)
  ultimately show ?case by simp
qed

section \<open>Properties\<close>

definition node :: "string \<Rightarrow> string \<Rightarrow> (string \<times> json) list \<Rightarrow> string \<Rightarrow> WorkflowNode" where
  "node i ty cfg nx = \<lparr>wn_ID = i, wn_Type = ty, wn_Config = Some cfg, wn_NextNode = nx\<rparr>"

definition onboarding :: "WorkflowNode list" where
  "onboarding = [node ''a'' ''trigger'' [] ''b'',
     node ''b'' ''email'' [(''subject'', JStr ''Hi''), (''html'', JStr ''Hello'')] ''c'',
     node ''c'' ''delay'' [(''duration'', JStr ''24h'')] ''d'', node ''d'' ''end'' [] '''']"

definition circular :: "WorkflowNode list" where
  "circular = [node ''a'' ''trigger'' [] ''b'', node ''b'' ''trigger'' [] ''a'']"

definition sample_run :: ExecutionRow where
  "sample_run = \<lparr>xr_ID = ''x'', xr_WorkspaceID = ''w'', xr_WorkflowID = ''f'', xr_ContactID = ''u1'', xr_Status = ''running'',
     xr_CurrentNodeID = '''', xr_NextRunAt = None, xr_RetryCount = 0, xr_FailureReason = ''''\<rparr>"

lemma onboarding_map:
  "buildNodeMap onboarding = [''a'' \<mapsto> node ''a'' ''trigger'' [] ''b'',
     ''b'' \<mapsto> node ''b'' ''email'' [(''subject'', JStr ''Hi''), (''html'', JStr ''Hello'')] ''c'',
     ''c'' \<mapsto> node ''c'' ''delay'' [(''duration'', JStr ''24h'')] ''d'', ''d'' \<mapsto> node ''d'' ''end'' [] '''']"
  by (simp add: buildNodeMap_def onboarding_def) (simp add: node_def)

lemma circular_map:
  "buildNodeMap circular = [''a'' \<mapsto> node ''a'' ''trigger'' [] ''b'', ''b'' \<mapsto> node ''b'' ''trigger'' [] ''a'']"
  by (simp add: buildNodeMap_def circular_def) (simp add: node_def)

lemma onboarding_plan:
  "plan (buildNodeMap onboarding) ''a'' [node ''a'' ''trigger'' [] ''b'',
     node ''b'' ''email'' [(''subject'', JStr ''Hi''), (''html'', JStr ''Hello'')] ''c''] (Waits ''c'' (24 * Hour))"
proof -
  have d: "parseDuration (Some [(''duration'', JStr ''24h'')]) = Inr 86400000000000" by code_simp
  have "plan (buildNodeMap onboarding) ''c'' [] (Waits (wn_ID (node ''c'' ''delay'' [(''duration'', JStr ''24h'')] ''d'')) 86400000000000)"
    by (rule plan.delay) (simp_all add: onboarding_map node_def d)
  then have "plan (buildNodeMap onboarding) ''c'' [] (Waits ''c'' (24 * Hour))" by (simp add: node_def)
  then show ?thesis
    by (intro plan.on) (simp_all add: onboarding_map node_def walkable_def sendable_def config_string_def config_value_def)
qed

text \<open>
  Claim C8. A run executes the plan of its graph: without faults it sends the emails of the nodes on its path,
  in order, to the contact's address when there is one, ends with the status of the plan, and leaves the
  row of the execution completed or waiting at its delay node until the delay has passed, and nothing else changed.
\<close>

theorem executor_follows_plan:
  assumes "reliable (env w)" and "nodes \<noteq> []" and "xr_CurrentNodeID x = ''''"
    and "plan (buildNodeMap nodes) (wn_ID (hd nodes)) ns e"
  shows "\<exists>w'. Run x nodes w = Some (Inr (end_status e), w') \<and> planned x ns e w w'"
  using Run_loop_plan [OF assms(4,1), of x] assms(2,3) by (simp add: Run_def)

lemma executor_follows_plan_witness:
  "\<exists>w'. Run sample_run onboarding quiet_world = Some (Inr ''waiting'', w') \<and>
     planned sample_run [node ''a'' ''trigger'' [] ''b'',
       node ''b'' ''email'' [(''subject'', JStr ''Hi''), (''html'', JStr ''Hello'')] ''c''] (Waits ''c'' (24 * Hour)) quiet_world w'"
proof -
  have h: "wn_ID (hd onboarding) = ''a''" and n: "onboarding \<noteq> []" by (simp_all add: onboarding_def node_def)
  have r: "reliable (env quiet_world)" "xr_CurrentNodeID sample_run = ''''" by (simp_all add: quiet_world_def sample_run_def)
  show ?thesis
    using executor_follows_plan [OF r(1) n r(2)] onboarding_plan h by fastforce
qed

text \<open>
  Claim C22. A run returns, in every environment, when no path of the graph leads back to itself without a
  delay, and also, whatever the graph, when its calls fail from some point on, as they do once the deadline
  of a delivery has passed.
\<close>

theorem executor_returns:
  assumes "acyclic (edges (buildNodeMap nodes)) \<or> has_deadline (env w)"
  shows "\<exists>r w'. Run x nodes w = Some (r, w')"
proof -
  have "\<exists>r. Run_loop x (buildNodeMap nodes) cur w = Some r" for cur
    using assms Run_loop_acyclic [OF finite_buildNodeMap] Run_loop_deadline unfolding has_deadline_def by blast
  then show ?thesis by (simp add: Run_def)
qed

lemma executor_returns_witness: "\<exists>r w'. Run sample_run onboarding quiet_world = Some (r, w')"
proof (rule executor_returns, rule disjI1, rule acyclicI_order)
  show "(case map_of [(''a'', 0), (''b'', 1), (''c'', 2), (''d'', 3)] j of None \<Rightarrow> 0 | Some k \<Rightarrow> 10 - (k :: nat))
      < (case map_of [(''a'', 0), (''b'', 1), (''c'', 2), (''d'', 3)] i of None \<Rightarrow> 0 | Some k \<Rightarrow> 10 - k)"
    if "(i, j) \<in> edges (buildNodeMap onboarding)" for i j
    using that by (auto simp: edges_def onboarding_map passes_def node_def split: if_splits)
qed

text \<open>
  Claim C37. A cycle of triggers and emails is never left: without faults the run does not return. A delivery
  escapes through its deadline, but the scheduler resumes executions under the context of the process,
  which has none, so one such workflow with a delay before its cycle stops the delay scheduler for good.
\<close>

theorem cyclic_workflow_diverges:
  assumes "reliable (env w)" and "xr_CurrentNodeID x \<in> C" and "xr_CurrentNodeID x \<noteq> ''''"
    and "\<forall>i \<in> C. \<exists>n. buildNodeMap nodes i = Some n \<and> walkable n \<and> wn_NextNode n \<noteq> '''' \<and> wn_NextNode n \<in> C"
  shows "Run x nodes w = None"
  using cycle_diverges [OF assms(1,2,4)] assms(3) by (simp add: Run_def)

lemma cyclic_workflow_diverges_witness:
  "Run (sample_run\<lparr>xr_CurrentNodeID := ''a''\<rparr>) circular quiet_world = None"
  by (rule cyclic_workflow_diverges [where C = "{''a'', ''b''}"])
    (simp_all add: quiet_world_def sample_run_def circular_map, simp_all add: node_def walkable_def)

end
