(* ===== verification/Workflows.thy ===== *)
theory Workflows
  imports Executor
begin

text \<open>
  The workflow engine around the executor: the trigger and register handlers
  (\<^verbatim>\<open>internal/worker/workflows/handler.go\<close>) and the delay scheduler
  (\<^verbatim>\<open>internal/worker/workflows/scheduler.go\<close>). Where the executor may run for ever the value is an
  \<open>option\<close>.
\<close>

section \<open>The trigger handler\<close>

definition nak_trigger :: "int \<Rightarrow> nat \<Rightarrow> (world, unit) state" where
  "nak_trigger maxRetries attempt =
     (if int attempt \<ge> maxRetries then do { inc ''workflow_failures_total''; settle Term } else settle Nak)"

definition recordOutcome :: "string \<Rightarrow> (world, unit) state" where
  "recordOutcome status =
     (if status = ''completed'' then inc ''workflow_completions_total''
      else if status = ''waiting'' then inc ''workflow_delays_scheduled_total''
      else State_Monad.return ())"

definition execution_lock_key :: "string \<Rightarrow> string" where
  "execution_lock_key execID = ''workflow:execution:'' @ execID"

definition trigger_lock_value :: "WorkflowTriggerPayload \<Rightarrow> string" where
  "trigger_lock_value p = ''trigger-'' @ wt_EventID p"

text \<open>
  Up to the lock on the new execution; \<open>None\<close> when the message has been settled on the way.
\<close>

definition start_execution ::
    "int \<Rightarrow> nat \<Rightarrow> WorkflowTriggerPayload \<Rightarrow> (world, (string \<times> WorkflowRow) option) state" where
  "start_execution maxRetries attempt p = do {
     g \<leftarrow> GetWorkflow (wt_WorkflowID p) (wt_WorkspaceID p);
     case g of
       Inl e \<Rightarrow> do { nak_trigger maxRetries attempt; State_Monad.return None }
     | Inr row \<Rightarrow>
         (case row of
            None \<Rightarrow> do { settle Term; State_Monad.return None }
          | Some flow \<Rightarrow>
              if wkf_Status flow \<noteq> ''published'' then do { settle Ack; State_Monad.return None } else do {
                c \<leftarrow> CreateExecution (wt_WorkflowID p) (wt_WorkspaceID p) (wt_ContactID p) (wt_EventID p);
                case c of
                  Inl e \<Rightarrow> do { nak_trigger maxRetries attempt; State_Monad.return None }
                | Inr (execID, created) \<Rightarrow>
                    if \<not> created then do { settle Ack; State_Monad.return None } else do {
                      inc ''workflow_executions_started_total'';
                      l \<leftarrow> AcquireLock (execution_lock_key execID) (trigger_lock_value p) (5 * Minute);
                      case l of
                        Inl e \<Rightarrow> do {
                          (if errors_is e ErrLockNotAcquired then settle Ack else nak_trigger maxRetries attempt);
                          State_Monad.return None
                        }
                      | Inr _ \<Rightarrow> State_Monad.return (Some (execID, flow))
                    }
              })
   }"

definition trigger_execution :: "WorkflowTriggerPayload \<Rightarrow> string \<Rightarrow> ExecutionRow" where
  "trigger_execution p execID = \<lparr>xr_ID = execID, xr_WorkspaceID = wt_WorkspaceID p, xr_WorkflowID = wt_WorkflowID p,
     xr_ContactID = wt_ContactID p, xr_Status = ''running'', xr_CurrentNodeID = '''', xr_NextRunAt = None,
     xr_RetryCount = 0, xr_FailureReason = ''''\<rparr>"

definition fail_run :: "string \<Rightarrow> string \<Rightarrow> (world, unit) state" where
  "fail_run execID reason = do {
     _ \<leftarrow> FailExecution execID reason;
     inc ''workflow_failures_total''
   }"

text \<open>What the handler does while it holds the lock.\<close>

definition run_triggered ::
    "int \<Rightarrow> nat \<Rightarrow> WorkflowTriggerPayload \<Rightarrow> string \<Rightarrow> WorkflowRow \<Rightarrow> world \<Rightarrow> (unit \<times> world) option" where
  "run_triggered maxRetries attempt p execID flow w =
     (case ParseWorkflowNodes (wkf_Nodes flow) of
        Inl e \<Rightarrow> Some (run_state (do { fail_run execID (''invalid nodes: '' @ err_string e); settle Term }) w)
      | Inr nodes \<Rightarrow>
          (case Run (trigger_execution p execID) nodes w of
             None \<Rightarrow> None
           | Some (Inl e, w1) \<Rightarrow>
               Some (run_state (do { fail_run execID (err_string e); nak_trigger maxRetries attempt }) w1)
           | Some (Inr status, w1) \<Rightarrow> Some (run_state (do { recordOutcome status; settle Ack }) w1)))"

definition Handle_trigger ::
    "int \<Rightarrow> WorkflowTriggerPayload message \<Rightarrow> world \<Rightarrow> (hresult \<times> world) option" where
  "Handle_trigger maxRetries msg w =
     (case run_state (inc ''workflow_triggers_total'') w of (_, w0) \<Rightarrow>
        (case Data msg of
           None \<Rightarrow> Some (run_state (finish Term) w0)
         | Some p \<Rightarrow>
             if wt_WorkspaceID p = '''' \<or> wt_WorkflowID p = '''' \<or> wt_ContactID p = ''''
             then Some (run_state (finish Term) w0)
             else
               (case run_state (start_execution maxRetries (attempt_of msg) p) w0 of
                  (None, w1) \<Rightarrow> Some (Done, w1)
                | (Some (execID, flow), w1) \<Rightarrow>
                    (case run_triggered maxRetries (attempt_of msg) p execID flow w1 of
                       None \<Rightarrow> None
                     | Some (_, w2) \<Rightarrow>
                         Some (Done, snd (run_state
                           (ReleaseLock (execution_lock_key execID) (trigger_lock_value p)) w2))))))"

section \<open>The register handler\<close>

definition Handle_register :: "WorkflowRegisterPayload message \<Rightarrow> (world, hresult) state" where
  "Handle_register msg =
     (case Data msg of
        None \<Rightarrow> finish Term
      | Some p \<Rightarrow>
          if wr_WorkspaceID p = '''' \<or> wr_WorkflowID p = '''' then finish Term else do {
            g \<leftarrow> GetWorkflow (wr_WorkflowID p) (wr_WorkspaceID p);
            case g of
              Inl e \<Rightarrow> finish Nak
            | Inr row \<Rightarrow> (case row of None \<Rightarrow> finish Term | Some flow \<Rightarrow> finish Ack)
          })"

lemma Handle_register_settles: "settles_once (Handle_register m)"
  unfolding Handle_register_def by (intro settle_rules frame; simp)

interpretation register: total_handler Handle_register
  by (rule total_handlerI) (rule Handle_register_settles)

section \<open>The scheduler\<close>

abbreviation schedulerLockKey :: string where "schedulerLockKey \<equiv> ''workflow:scheduler:lock''"
abbreviation schedulerLockTTL :: int where "schedulerLockTTL \<equiv> 45 * Second"
abbreviation schedulerBatch :: nat where "schedulerBatch \<equiv> 50"

definition resume_locked :: "ExecutionRow \<Rightarrow> world \<Rightarrow> world option" where
  "resume_locked x w =
     (let fail_with = (\<lambda>reason w. Some (snd (run_state (FailExecution (xr_ID x) reason) w))) in
      case run_state (GetWorkflow (xr_WorkflowID x) (xr_WorkspaceID x)) w of
        (Inl e, w1) \<Rightarrow> fail_with ''workflow not found during resume'' w1
      | (Inr None, w1) \<Rightarrow> fail_with ''workflow not found during resume'' w1
      | (Inr (Some flow), w1) \<Rightarrow>
          (case ParseWorkflowNodes (wkf_Nodes flow) of
             Inl e \<Rightarrow> fail_with (''invalid workflow nodes: '' @ err_string e) w1
           | Inr nodes \<Rightarrow>
               (case run_state (GetExecution (xr_ID x)) w1 of
                  (Inl e, w2) \<Rightarrow> Some w2
                | (Inr None, w2) \<Rightarrow> Some w2
                | (Inr (Some latest), w2) \<Rightarrow>
                    if xr_Status latest \<noteq> ''waiting'' then Some w2
                    else (case ResumeFromDelay latest nodes w2 of
                            None \<Rightarrow> None
                          | Some (Inl e, w3) \<Rightarrow> fail_with (err_string e) w3
                          | Some (Inr status, w3) \<Rightarrow> Some w3))))"

definition resume :: "ExecutionRow \<Rightarrow> world \<Rightarrow> world option" where
  "resume x w =
     (case run_state (AcquireLock (execution_lock_key (xr_ID x)) ''scheduler-resume'' (2 * Minute)) w of
        (Inl e, w1) \<Rightarrow> Some w1
      | (Inr _, w1) \<Rightarrow>
          (case resume_locked x w1 of
             None \<Rightarrow> None
           | Some w2 \<Rightarrow> Some (snd (run_state (ReleaseLock (execution_lock_key (xr_ID x)) ''scheduler-resume'') w2))))"

fun resume_all :: "ExecutionRow list \<Rightarrow> world \<Rightarrow> world option" where
  "resume_all [] w = Some w"
| "resume_all (x # xs) w =
     (case run_state ctx_err w of
        (True, w1) \<Rightarrow> Some w1
      | (False, w1) \<Rightarrow> (case resume x w1 of None \<Rightarrow> None | Some w2 \<Rightarrow> resume_all xs w2))"

definition poll_workflows :: "world \<Rightarrow> world option" where
  "poll_workflows w =
     (case run_state (AcquireLock schedulerLockKey ''scheduler'' schedulerLockTTL) w of
        (Inl e, w1) \<Rightarrow> Some w1
      | (Inr _, w1) \<Rightarrow>
          (case (case run_state (FetchDueExecutions schedulerBatch) w1 of
                   (Inl e, w2) \<Rightarrow> Some w2
                 | (Inr xs, w2) \<Rightarrow> resume_all xs w2) of
             None \<Rightarrow> None
           | Some w3 \<Rightarrow> Some (snd (run_state (ReleaseLock schedulerLockKey ''scheduler'') w3))))"

section \<open>The message contract\<close>

text \<open>The dispositions without a delay.\<close>

definition plain :: "disposition set" where
  "plain = {Ack, Nak, Term}"

lemma plain_simps [simp]: "Ack \<in> plain" "Nak \<in> plain" "Term \<in> plain"
  by (simp_all add: plain_def)

lemma start_execution_settles:
  "wp (start_execution n k p) (\<lambda>r w'. case r of None \<Rightarrow> \<exists>d \<in> plain. settled w' = settled w @ [d] | Some _ \<Rightarrow> settled w' = settled w) w"
  unfolding start_execution_def
  by (simp add: wp_rules GetWorkflow_def CreateExecution_def AcquireLock_def nak_trigger_def Let_def
      split: option.split prod.split fault.split sum.split)

lemma fail_run_frame [frame]:
  "steady f \<Longrightarrow> (\<And>w d. f (w\<lparr>db := d\<rparr>) = f w) \<Longrightarrow> preserves f (fail_run i s)"
  unfolding fail_run_def by (intro frame)

lemma recordOutcome_frame [frame]: "steady f \<Longrightarrow> preserves f (recordOutcome s)"
  unfolding recordOutcome_def by (intro frame)

definition settled_once :: "world \<Rightarrow> world \<Rightarrow> bool" where
  "settled_once w w' \<longleftrightarrow> (\<exists>d \<in> plain. settled w' = settled w @ [d])"

lemma settled_once_bind:
  assumes "preserves settled m" and "\<And>x w1. settled_once w1 (snd (run_state (g x) w1))"
  shows "settled_once w (snd (run_state (State_Monad.bind m g) w))"
proof -
  obtain x w1 where m: "run_state m w = (x, w1)" by (cases "run_state m w")
  have "settled w1 = settled w" using preservesD [OF assms(1), of w] m by simp
  then show ?thesis using assms(2) [of w1 x] m by (simp add: settled_once_def)
qed

lemma settled_once_ends:
  "d \<in> plain \<Longrightarrow> settled_once w (snd (run_state (settle d) w))" "settled_once w (snd (run_state (nak_trigger n k) w))"
  by (simp_all add: settled_once_def settle_def nak_trigger_def inc_by_def)

lemma run_triggered_settles:
  assumes "run_triggered n k p execID flow w = Some (u, w')"
  shows "settled_once w w'"
proof (cases "ParseWorkflowNodes (wkf_Nodes flow)")
  case (Inl e)
  then have "w' = snd (run_state (do { fail_run execID (''invalid nodes: '' @ err_string e); settle Term }) w)"
    using assms by (simp add: run_triggered_def)
  then show ?thesis by (simp only:) (rule settled_once_bind, (intro frame; simp), simp add: settled_once_ends)
next
  case (Inr nodes)
  then obtain r w1 where r: "Run (trigger_execution p execID) nodes w = Some (r, w1)"
    using assms by (cases "Run (trigger_execution p execID) nodes w") (auto simp: run_triggered_def)
  have s: "settled w1 = settled w" using Run_loop_frame [of settled] r unfolding Run_def by simp
  have "settled_once w1 w'"
  proof (cases r)
    case (Inl e)
    then have "w' = snd (run_state (do { fail_run execID (err_string e); nak_trigger n k }) w1)"
      using assms Inr r by (simp add: run_triggered_def)
    then show ?thesis by (simp only:) (rule settled_once_bind, (intro frame; simp), simp add: settled_once_ends)
  next
    case (Inr st)
    then have "w' = snd (run_state (do { recordOutcome st; settle Ack }) w1)"
      using assms \<open>ParseWorkflowNodes (wkf_Nodes flow) = Inr nodes\<close> r by (simp add: run_triggered_def)
    then show ?thesis by (simp only:) (rule settled_once_bind, (intro frame; simp), simp add: settled_once_ends)
  qed
  then show ?thesis using s by (simp add: settled_once_def)
qed

lemma Handle_trigger_settles:
  assumes "Handle_trigger n m w = Some (r, w')"
  shows "r = Done \<and> settled_once w w'"
proof -
  obtain w0 where w0: "run_state (inc ''workflow_triggers_total'') w = ((), w0)" "settled w0 = settled w"
    by (simp add: inc_by_def)
  have fin: "run_state (finish Term) w0 = (Done, w0\<lparr>settled := settled w0 @ [Term]\<rparr>)"
    by (simp add: finish_def settle_def)
  show ?thesis
  proof (cases "\<exists>p. Data m = Some p \<and> wt_WorkspaceID p \<noteq> '''' \<and> wt_WorkflowID p \<noteq> '''' \<and> wt_ContactID p \<noteq> ''''")
    case False
    then show ?thesis using assms w0 fin
      by (auto simp: Handle_trigger_def settled_once_def split: option.splits if_splits)
  next
    case True
    then obtain p where p: "Data m = Some p" "wt_WorkspaceID p \<noteq> ''''" "wt_WorkflowID p \<noteq> ''''" "wt_ContactID p \<noteq> ''''"
      by blast
    obtain x w1 where s: "run_state (start_execution n (attempt_of m) p) w0 = (x, w1)"
      by (cases "run_state (start_execution n (attempt_of m) p) w0")
    note st = start_execution_settles [of n "attempt_of m" p w0, unfolded wp_def s fst_conv snd_conv]
    show ?thesis
    proof (cases x)
      case None
      then show ?thesis using assms w0 p s st by (auto simp: Handle_trigger_def settled_once_def)
    next
      case (Some y)
      obtain execID flow where y: "y = (execID, flow)" by (cases y)
      obtain u w2 where t: "run_triggered n (attempt_of m) p execID flow w1 = Some (u, w2)"
        and w': "r = Done" "w' = snd (run_state (ReleaseLock (execution_lock_key execID) (trigger_lock_value p)) w2)"
        using assms w0 p s Some y by (auto simp: Handle_trigger_def split: option.splits)
      have "settled w' = settled w2"
        unfolding w'(2) by (rule preservesD) (intro frame; simp)
      then show ?thesis using run_triggered_settles [OF t] st Some w0 w' by (simp add: settled_once_def)
    qed
  qed
qed

section \<open>One execution per trigger\<close>

definition has_run :: "WorkflowTriggerPayload \<Rightarrow> pg \<Rightarrow> bool" where
  "has_run p d \<longleftrightarrow> list_ex (\<lambda>r. trigger_key r = (wt_WorkflowID p, wt_ContactID p, wt_EventID p)) (workflow_executions d)"

lemma has_run_image:
  "has_run p d \<longleftrightarrow> (wt_WorkflowID p, wt_ContactID p, wt_EventID p) \<in> set (map trigger_key (workflow_executions d))"
  by (force simp: has_run_def list_ex_iff)

lemma start_again:
  assumes "has_run p (db w)"
  shows "wp (start_execution n k p) (\<lambda>r w'. r = None \<and> db w' = db w \<and> published w' = published w \<and> redis w' = redis w) w"
  using assms unfolding start_execution_def has_run_def
  by (simp add: wp_rules GetWorkflow_def CreateExecution_def create_execution_def nak_trigger_def Let_def
      split: option.split prod.split fault.split sum.split)

lemma trigger_again:
  assumes "has_run p (db w)" and "Data m = Some p"
  shows "\<exists>w'. Handle_trigger n m w = Some (Done, w') \<and> db w' = db w \<and> published w' = published w \<and> redis w' = redis w"
proof -
  obtain w0 where w0: "run_state (inc ''workflow_triggers_total'') w = ((), w0)" "db w0 = db w" "published w0 = published w"
    "redis w0 = redis w" by (simp add: inc_by_def)
  have fin: "run_state (finish Term) w0 = (Done, w0\<lparr>settled := settled w0 @ [Term]\<rparr>)"
    by (simp add: finish_def settle_def)
  have "has_run p (db w0)" using assms(1) w0 by simp
  from start_again [OF this, of n "attempt_of m"]
  obtain w1 where "run_state (start_execution n (attempt_of m) p) w0 = (None, w1)" "db w1 = db w0" "published w1 = published w0"
    "redis w1 = redis w0"
    by (cases "run_state (start_execution n (attempt_of m) p) w0") (auto simp: wp_def)
  then show ?thesis using assms(2) w0 fin by (simp add: Handle_trigger_def)
qed

lemma start_run_row:
  "wp (start_execution n k p) (\<lambda>r w'. (published w' = published w) \<and> (r \<noteq> None \<longrightarrow> has_run p (db w'))) w"
  unfolding start_execution_def has_run_def
  by (simp add: wp_rules GetWorkflow_def CreateExecution_def create_execution_def nak_trigger_def AcquireLock_def trigger_key_def Let_def
      split: option.split prod.split fault.split sum.split)

text \<open>A run never changes which triggers have an execution, nor their ids.\<close>

definition keys :: "world \<Rightarrow> (string \<times> string \<times> string \<times> string) list \<times> workflow_row list" where
  "keys w = (map (\<lambda>r. (ex_id r, trigger_key r)) (workflow_executions (db w)), workflows (db w))"

definition runs :: "string \<Rightarrow> WorkflowTriggerPayload \<Rightarrow> string \<times> string \<times> string \<times> string" where
  "runs i p = (i, wt_WorkflowID p, wt_ContactID p, wt_EventID p)"

lemma steady_keys [simp]: "steady keys"
  by (simp add: steady_def keys_def)

lemma keys_published: "keys (w\<lparr>published := p\<rparr>) = keys w"
  by (simp add: keys_def)

lemma has_run_keys: "has_run p (db w) \<longleftrightarrow> (\<exists>i. runs i p \<in> set (fst (keys w)))"
proof
  assume "has_run p (db w)"
  then obtain r where r: "r \<in> set (workflow_executions (db w))" "runs (ex_id r) p = (ex_id r, trigger_key r)"
    by (auto simp: has_run_def list_ex_iff runs_def)
  have "runs (ex_id r) p \<in> set (fst (keys w))" unfolding keys_def r(2) using r(1) by simp
  then show "\<exists>i. runs i p \<in> set (fst (keys w))" ..
qed (auto simp: has_run_def keys_def list_ex_iff runs_def)

lemma keys_update:
  assumes "\<And>t r. ex_id (f t r) = ex_id r \<and> trigger_key (f t r) = trigger_key r"
  shows "preserves keys (exec (update_execution i f))"
  by (rule preserves_exec) (simp_all add: keys_def update_execution_def map_update_where assms)

lemma keys_frame:
  "preserves keys (AdvanceExecution i n s)" "preserves keys (ScheduleDelay i n t)"
  "preserves keys (CompleteExecution i)" "preserves keys (FailExecution i s)"
  unfolding AdvanceExecution_def ScheduleDelay_def CompleteExecution_def FailExecution_def
  by (rule keys_update, simp add: trigger_key_def)+

lemma keys_run_node: "preserves keys (run_node x n)"
  unfolding run_node_def finish_or_advance_def
  by (intro frame keys_frame; simp add: keys_published)

lemma keys_Run: "Run x nodes w = Some (r, w') \<Longrightarrow> keys w' = keys w"
proof -
  have step: "keys w1 = keys w" if "run_state (run_node x n) w = (r1, w1)" for n w r1 w1
    using preservesD [OF keys_run_node, of x n w] that by simp
  have "Run_loop x nm cur w = Some (r, w') \<Longrightarrow> keys w' = keys w" for nm cur
    by (induction rule: Run_loop_induct) (auto dest: step)
  then show "Run x nodes w = Some (r, w') \<Longrightarrow> keys w' = keys w" by (simp add: Run_def)
qed

lemma keys_fail_run: "preserves keys (fail_run i s)"
  unfolding fail_run_def by (intro frame(1) keys_frame frame steady_keys)

lemma keys_settle: "preserves keys (settle d)" "preserves keys (nak_trigger n k)"
  by (simp_all add: preserves_def keys_def settle_def nak_trigger_def inc_by_def)

lemma keys_ends:
  "keys (snd (run_state (do { fail_run i s; settle d }) w)) = keys w"
  "keys (snd (run_state (do { fail_run i s; nak_trigger n k }) w)) = keys w"
  "keys (snd (run_state (do { recordOutcome st; settle d }) w)) = keys w"
  by (rule preservesD, rule preserves_bind, rule keys_fail_run keys_settle recordOutcome_frame,
      (rule steady_keys)?, rule keys_settle)+

lemma run_triggered_keys:
  assumes "run_triggered n k p i flow w = Some (u, w')"
  shows "keys w' = keys w"
proof (cases "ParseWorkflowNodes (wkf_Nodes flow)")
  case (Inl e)
  then have "w' = snd (run_state (do { fail_run i (''invalid nodes: '' @ err_string e); settle Term }) w)"
    using assms by (simp add: run_triggered_def)
  then show ?thesis by (simp only: keys_ends)
next
  case (Inr nodes)
  then obtain r w1 where r: "Run (trigger_execution p i) nodes w = Some (r, w1)"
    using assms by (cases "Run (trigger_execution p i) nodes w") (auto simp: run_triggered_def)
  have "w' = snd (run_state (do { fail_run i (err_string e); nak_trigger n k }) w1)" if "r = Inl e" for e
    using assms Inr r that by (simp add: run_triggered_def)
  moreover have "w' = snd (run_state (do { recordOutcome st; settle Ack }) w1)" if "r = Inr st" for st
    using assms Inr r that by (simp add: run_triggered_def)
  ultimately have "keys w' = keys w1" by (cases r) (simp_all only: keys_ends)
  then show ?thesis using keys_Run [OF r] by simp
qed

lemma effect_leaves_run:
  assumes "Handle_trigger n m w = Some (r, w')" and "Data m = Some p" and "published w' \<noteq> published w"
  shows "has_run p (db w')"
proof -
  obtain w0 where w0: "run_state (inc ''workflow_triggers_total'') w = ((), w0)" "published w0 = published w"
    by (simp add: inc_by_def)
  have fin: "run_state (finish Term) w0 = (Done, w0\<lparr>settled := settled w0 @ [Term]\<rparr>)"
    by (simp add: finish_def settle_def)
  obtain x w1 where s: "run_state (start_execution n (attempt_of m) p) w0 = (x, w1)"
    by (cases "run_state (start_execution n (attempt_of m) p) w0")
  note st = start_run_row [of n "attempt_of m" p w0, unfolded wp_def s fst_conv snd_conv]
  have ok: "\<not> (wt_WorkspaceID p = '''' \<or> wt_WorkflowID p = '''' \<or> wt_ContactID p = '''')"
    using assms w0 fin by (auto simp: Handle_trigger_def)
  show ?thesis
  proof (cases x)
    case None
    then show ?thesis using assms w0 s st ok by (simp add: Handle_trigger_def)
  next
    case (Some y)
    obtain execID flow where y: "y = (execID, flow)" by (cases y)
    obtain u w2 where t: "run_triggered n (attempt_of m) p execID flow w1 = Some (u, w2)"
      and w': "w' = snd (run_state (ReleaseLock (execution_lock_key execID) (trigger_lock_value p)) w2)"
      using assms w0 s Some y ok by (auto simp: Handle_trigger_def split: option.splits)
    have "keys w' = keys w2"
      unfolding w' by (rule preservesD) (intro frame steady_keys; simp add: keys_def)
    then have "keys w' = keys w1" using run_triggered_keys [OF t] by simp
    moreover have "has_run p (db w1)" using st Some by simp
    ultimately show ?thesis by (simp add: has_run_keys)
  qed
qed

section \<open>A run that fails without faults\<close>

definition live_flow :: "WorkflowTriggerPayload \<Rightarrow> workflow_row list \<Rightarrow> bool" where
  "live_flow p ws \<longleftrightarrow> (case find (\<lambda>r. wf_id r = wt_WorkflowID p \<and> wf_workspace_id r = wt_WorkspaceID p) ws of
     None \<Rightarrow> False | Some r \<Rightarrow> coalesce (wf_status r) ''draft'' = ''published'')"

lemma start_reliable:
  assumes "reliable (env w)"
  shows "wp (start_execution n k p) (\<lambda>r w'. env w' = env w \<and>
    (case r of None \<Rightarrow> settled w' \<noteq> settled w @ [Nak]
     | Some x \<Rightarrow> settled w' = settled w \<and> runs (fst x) p \<in> set (fst (keys w')) \<and> live_flow p (snd (keys w')))) w"
  using assms unfolding start_execution_def
  by (cases "find (\<lambda>r. wf_id r = wt_WorkflowID p \<and> wf_workspace_id r = wt_WorkspaceID p) (workflows (db w))")
    (simp_all add: wp_rules GetWorkflow_def CreateExecution_def create_execution_def AcquireLock_def trigger_key_def Let_def
      runs_def keys_def live_flow_def errors_is_def split: prod.split)

lemma start_again_reliable:
  assumes "reliable (env w)" and "runs i p \<in> set (fst (keys w))" and "live_flow p (snd (keys w))"
  shows "\<exists>w'. run_state (start_execution n k p) w = (None, w') \<and> db w' = db w \<and> published w' = published w \<and>
    settled w' = settled w @ [Ack]"
proof -
  have "has_run p (db w)" using assms(2) by (auto simp: has_run_keys)
  then have h: "list_ex (\<lambda>r. trigger_key r = (wt_WorkflowID p, wt_ContactID p, wt_EventID p)) (workflow_executions (db w))"
    by (simp add: has_run_def)
  obtain r where "find (\<lambda>r. wf_id r = wt_WorkflowID p \<and> wf_workspace_id r = wt_WorkspaceID p) (workflows (db w)) = Some r"
    "coalesce (wf_status r) ''draft'' = ''published''"
    using assms(3) by (auto simp: live_flow_def keys_def split: option.splits)
  then show ?thesis using assms(1) h
    by (simp add: start_execution_def GetWorkflow_def CreateExecution_def create_execution_def query_def exec_returning_def
        call_def new_uuid_def settle_def Let_def)
qed

lemma failed_rows:
  "\<forall>r \<in> set (update_where (\<lambda>r. ex_id r = i) (\<lambda>r. r\<lparr>ex_status := Some s, ex_failure_reason := x, ex_updated_at := t\<rparr>) xs).
     ex_id r = i \<longrightarrow> ex_status r = Some s"
  by (induction xs) auto

lemma failing_run_row:
  assumes "reliable (env w)" and "run_triggered n k p i flow w = Some (u, w')" and "settled w' = settled w @ [Nak]"
  shows "env w' = env w \<and> (\<forall>r \<in> set (workflow_executions (db w')). ex_id r = i \<longrightarrow> ex_status r = Some ''failed'')"
proof (cases "ParseWorkflowNodes (wkf_Nodes flow)")
  case (Inl e)
  then show ?thesis using assms
    by (auto simp: run_triggered_def fail_run_def FailExecution_def exec_def call_def inc_by_def settle_def Let_def)
next
  case (Inr nodes)
  then obtain r w1 where r: "Run (trigger_execution p i) nodes w = Some (r, w1)"
    using assms by (cases "Run (trigger_execution p i) nodes w") (auto simp: run_triggered_def)
  have s: "settled w1 = settled w" "env w1 = env w"
    using Run_loop_frame [of settled] Run_loop_frame [of env] r unfolding Run_def by simp_all
  show ?thesis
  proof (cases r)
    case (Inl e)
    have "wp (do { fail_run i (err_string e); nak_trigger n k }) (\<lambda>_ w2. env w2 = env w1 \<and>
        (\<forall>r \<in> set (workflow_executions (db w2)). ex_id r = i \<longrightarrow> ex_status r = Some ''failed'')) w1"
      using assms(1) s
      by (simp add: wp_rules fail_run_def FailExecution_def nak_trigger_def Let_def update_execution_def failed_rows)
    moreover have "run_state (do { fail_run i (err_string e); nak_trigger n k }) w1 = (u, w')"
      using assms(2) Inr r Inl by (simp add: run_triggered_def)
    ultimately show ?thesis using s by (auto dest: wpD)
  next
    case (Inr st)
    then show ?thesis using assms \<open>ParseWorkflowNodes (wkf_Nodes flow) = Inr nodes\<close> r s
      by (auto simp: run_triggered_def recordOutcome_def inc_by_def settle_def split: if_splits)
  qed
qed

text \<open>The parts of a delivery that ends with a negative acknowledgement in a world without faults.\<close>

lemma nak_without_faults:
  assumes "reliable (env w)" and "Handle_trigger n m w = Some (r, w1)" and "settled w1 = settled w @ [Nak]"
    and "Data m = Some p"
  obtains i where "runs i p \<in> set (fst (keys w1))" and "live_flow p (snd (keys w1))" and "env w1 = env w"
    and "\<forall>x \<in> set (workflow_executions (db w1)). ex_id x = i \<longrightarrow> ex_status x = Some ''failed''"
    and "\<not> (wt_WorkspaceID p = '''' \<or> wt_WorkflowID p = '''' \<or> wt_ContactID p = '''')"
proof -
  obtain w0 where w0: "run_state (inc ''workflow_triggers_total'') w = ((), w0)" "env w0 = env w" "settled w0 = settled w"
    by (simp add: inc_by_def)
  have fin: "run_state (finish Term) w0 = (Done, w0\<lparr>settled := settled w0 @ [Term]\<rparr>)"
    by (simp add: finish_def settle_def)
  have ok: "\<not> (wt_WorkspaceID p = '''' \<or> wt_WorkflowID p = '''' \<or> wt_ContactID p = '''')"
    using assms w0 fin by (auto simp: Handle_trigger_def)
  obtain x v where s: "run_state (start_execution n (attempt_of m) p) w0 = (x, v)"
    by (cases "run_state (start_execution n (attempt_of m) p) w0")
  have "reliable (env w0)" using assms(1) w0 by simp
  note st = start_reliable [OF this, of n "attempt_of m" p, unfolded wp_def s fst_conv snd_conv]
  have "x \<noteq> None" using st assms w0 s ok by (cases x) (auto simp: Handle_trigger_def)
  then obtain i flow where x: "x = Some (i, flow)" by auto
  obtain u w2 where t: "run_triggered n (attempt_of m) p i flow v = Some (u, w2)"
    and w1: "w1 = snd (run_state (ReleaseLock (execution_lock_key i) (trigger_lock_value p)) w2)"
    using assms w0 s x ok by (auto simp: Handle_trigger_def split: option.splits)
  have keep: "preserves settled (ReleaseLock a b)" "preserves db (ReleaseLock a b)" "preserves env (ReleaseLock a b)" for a b
    by (intro frame; simp)+
  have w12: "settled w1 = settled w2" "db w1 = db w2" "env w1 = env w2"
    unfolding w1 by (rule keep [THEN preservesD])+
  have v: "env v = env w" "settled v = settled w" "runs i p \<in> set (fst (keys v))" "live_flow p (snd (keys v))"
    using st w0 x by simp_all
  have "settled w2 = settled v @ [Nak]" using assms(3) w12 v by simp
  then have f: "env w2 = env v" "\<forall>x \<in> set (workflow_executions (db w2)). ex_id x = i \<longrightarrow> ex_status x = Some ''failed''"
    using failing_run_row [OF _ t] assms(1) v by auto
  have "keys w1 = keys w2" using w12 by (simp add: keys_def)
  then have k: "keys w1 = keys v" using run_triggered_keys [OF t] by simp
  show ?thesis
    by (rule that [of i]) (use k v f w12 ok in simp_all)
qed

section \<open>Properties\<close>

text \<open>A published workflow of one email node, with and without its content, and a trigger for it.\<close>

definition flow_db :: "json \<Rightarrow> pg" where
  "flow_db nodes = empty_pg\<lparr>
     workflows := [\<lparr>wf_id = ''f'', wf_workspace_id = ''w'', wf_status = Some ''published'', wf_nodes = Some nodes\<rparr>],
     contacts := [(new_contact ''c'' ''w'' (Some ''u1'') None (JObj []) 0)\<lparr>ct_email := Some ''a@b.c''\<rparr>]\<rparr>"

definition flow_world :: "json \<Rightarrow> world" where
  "flow_world nodes = quiet_world\<lparr>db := flow_db nodes\<rparr>"

definition greeting :: json where
  "greeting = JArr [JObj [(''id'', JStr ''a''), (''type'', JStr ''email''),
     (''config'', JObj [(''subject'', JStr ''Hi''), (''html'', JStr ''Hello'')])]]"

definition blank_mail :: json where
  "blank_mail = JArr [JObj [(''id'', JStr ''a''), (''type'', JStr ''email'')]]"

definition sample_trigger :: "nat \<Rightarrow> WorkflowTriggerPayload message" where
  "sample_trigger k = \<lparr>Data = Some \<lparr>wt_WorkspaceID = ''w'', wt_WorkflowID = ''f'', wt_ContactID = ''u1'',
     wt_EventName = ''signup'', wt_EventID = ''e''\<rparr>, NumDelivered = Some k\<rparr>"

lemma greeting_runs:
  "\<exists>w1. Handle_trigger 5 (sample_trigger 1) (flow_world greeting) = Some (Done, w1) \<and> length (published w1) = 1"
proof -
  have "map_option (\<lambda>(r, w1). (r, length (published w1))) (Handle_trigger 5 (sample_trigger 1) (flow_world greeting)) = Some (Done, 1)"
    by code_simp
  then show ?thesis by auto
qed

lemma blank_mail_fails:
  "\<exists>w1. Handle_trigger 5 (sample_trigger 1) (flow_world blank_mail) = Some (Done, w1) \<and>
     settled w1 = settled (flow_world blank_mail) @ [Nak]"
proof -
  have "map_option (\<lambda>(r, w1). (r, settled w1)) (Handle_trigger 5 (sample_trigger 1) (flow_world blank_mail)) =
      Some (Done, settled (flow_world blank_mail) @ [Nak])"
    by code_simp
  then show ?thesis by auto
qed

text \<open>
  Claim C9. A trigger has effects at most once, in every environment: when a delivery has published
  anything, no later delivery of the trigger, in any later world that still holds its execution, changes
  the database, the queue or the locks; it returns after settling its message.
\<close>

theorem trigger_runs_at_most_once:
  assumes "Handle_trigger n m w = Some (r, w1)" and "Data m = Some p" and "published w1 \<noteq> published w"
    and "set (map trigger_key (workflow_executions (db w1))) \<subseteq> set (map trigger_key (workflow_executions (db v)))"
    and "Data m' = Some p"
  shows "\<exists>v'. Handle_trigger n m' v = Some (Done, v') \<and> db v' = db v \<and> published v' = published v \<and> redis v' = redis v"
proof -
  have "has_run p (db w1)" by (rule effect_leaves_run [OF assms(1-3)])
  then have "has_run p (db v)" using assms(4) unfolding has_run_image by (rule subsetD [rotated])
  then show ?thesis using assms(5) by (rule trigger_again)
qed

lemma trigger_runs_at_most_once_witness:
  "\<exists>w1 v'. Handle_trigger 5 (sample_trigger 1) (flow_world greeting) = Some (Done, w1) \<and>
     Handle_trigger 5 (sample_trigger 2) w1 = Some (Done, v') \<and> published v' = published w1 \<and> length (published v') = 1"
proof -
  obtain w1 where w1: "Handle_trigger 5 (sample_trigger 1) (flow_world greeting) = Some (Done, w1)" "length (published w1) = 1"
    using greeting_runs by blast
  then have ne: "published w1 \<noteq> published (flow_world greeting)" by (auto simp: flow_world_def quiet_world_def)
  obtain p where p: "Data (sample_trigger 1) = Some p" "Data (sample_trigger 2) = Some p" by (simp add: sample_trigger_def)
  show ?thesis using trigger_runs_at_most_once [OF w1(1) p(1) ne subset_refl p(2)] w1 by auto
qed

text \<open>
  Claim C32. A failing run is not retried. In a world without faults, when a delivery ends with a negative
  acknowledgement, which asks for a redelivery, the redelivery finds the execution that the first one
  created, acknowledges the message and changes nothing: the execution stays failed, and the
  attempts that the handler counts are never made.
\<close>

theorem failed_run_is_dropped:
  assumes "reliable (env w)" and "Handle_trigger n m w = Some (r, w1)" and "settled w1 = settled w @ [Nak]"
    and "Data m = Some p" and "Data m' = Some p"
  shows "\<exists>w2. Handle_trigger n m' w1 = Some (Done, w2) \<and> settled w2 = settled w1 @ [Ack] \<and> db w2 = db w1 \<and>
    published w2 = published w1 \<and>
    (\<exists>x \<in> set (workflow_executions (db w2)). trigger_key x = (wt_WorkflowID p, wt_ContactID p, wt_EventID p) \<and>
       ex_status x = Some ''failed'')"
proof -
  obtain i where i: "runs i p \<in> set (fst (keys w1))" "live_flow p (snd (keys w1))" "env w1 = env w"
    "\<forall>x \<in> set (workflow_executions (db w1)). ex_id x = i \<longrightarrow> ex_status x = Some ''failed''"
    "\<not> (wt_WorkspaceID p = '''' \<or> wt_WorkflowID p = '''' \<or> wt_ContactID p = '''')"
    using nak_without_faults [OF assms(1-4)] by blast
  obtain v where v: "run_state (inc ''workflow_triggers_total'') w1 = ((), v)" "env v = env w1" "db v = db w1"
    "settled v = settled w1" "published v = published w1" by (simp add: inc_by_def)
  have "keys v = keys w1" using v by (simp add: keys_def)
  then obtain w2 where w2: "run_state (start_execution n (attempt_of m') p) v = (None, w2)" "db w2 = db v"
    "published w2 = published v" "settled w2 = settled v @ [Ack]"
    using start_again_reliable [of v i p n "attempt_of m'"] assms(1) i v by auto
  have h: "Handle_trigger n m' w1 = Some (Done, w2)"
    using assms(5) i(5) v w2 by (simp add: Handle_trigger_def)
  obtain x where "x \<in> set (workflow_executions (db w1))" "ex_id x = i"
    "trigger_key x = (wt_WorkflowID p, wt_ContactID p, wt_EventID p)"
    using i(1) by (auto simp: keys_def runs_def)
  then show ?thesis using h w2 v i(4) by auto
qed

lemma failed_run_is_dropped_witness:
  "\<exists>w1 w2. Handle_trigger 5 (sample_trigger 1) (flow_world blank_mail) = Some (Done, w1) \<and> settled w1 = [Nak] \<and>
     Handle_trigger 5 (sample_trigger 2) w1 = Some (Done, w2) \<and> settled w2 = [Nak, Ack] \<and> db w2 = db w1"
proof -
  obtain w1 where w1: "Handle_trigger 5 (sample_trigger 1) (flow_world blank_mail) = Some (Done, w1)"
    "settled w1 = settled (flow_world blank_mail) @ [Nak]"
    using blank_mail_fails by blast
  have r: "reliable (env (flow_world blank_mail))" and s: "settled (flow_world blank_mail) = []"
    by (simp_all add: flow_world_def quiet_world_def)
  obtain p where p: "Data (sample_trigger 1) = Some p" "Data (sample_trigger 2) = Some p" by (simp add: sample_trigger_def)
  show ?thesis using failed_run_is_dropped [OF r w1 p] w1 s by auto
qed

section \<open>What the scheduler leaves alone\<close>

text \<open>
  Between two worlds only executions with ids in \<open>I\<close> have changed, and the clock has not gone back.
\<close>

definition touches :: "string set \<Rightarrow> world \<Rightarrow> world \<Rightarrow> bool" where
  "touches I w w' \<longleftrightarrow> now w \<le> now w' \<and> db w' = db w\<lparr>workflow_executions := workflow_executions (db w')\<rparr> \<and>
     filter (\<lambda>r. ex_id r \<notin> I) (workflow_executions (db w')) = filter (\<lambda>r. ex_id r \<notin> I) (workflow_executions (db w))"

lemma touches_trans: "touches I u v \<Longrightarrow> touches I v w \<Longrightarrow> touches I u w"
proof -
  assume a: "touches I u v" "touches I v w"
  then have "db w = db u\<lparr>workflow_executions := workflow_executions (db v)\<rparr>\<lparr>workflow_executions := workflow_executions (db w)\<rparr>"
    unfolding touches_def by metis
  then show ?thesis using a by (simp add: touches_def)
qed

interpretation touches: guarantee "touches I" for I
  by unfold_locales ((erule (1) touches_trans) | simp add: touches_def)+

lemma touches_call:
  assumes "\<And>w. touches I w (snd (op w))"
  shows "state_io_rel (touches I) (call op)"
proof -
  have "touches I s (step_clock s)" for s by (simp add: touches_def step_clock_now)
  then show ?thesis using assms touches_trans
    by (simp add: state_io_rel_def call_def Let_def split: fault.split) blast
qed

lemma touches_update:
  assumes "i \<in> I" and "\<And>t r. ex_id (f t r) = ex_id r"
  shows "state_io_rel (touches I) (exec (update_execution i f))"
proof -
  have "filter (\<lambda>r. ex_id r \<notin> I) (update_where (\<lambda>r. ex_id r = i) (f t) xs) = filter (\<lambda>r. ex_id r \<notin> I) xs" for t xs
    using assms by (induction xs) auto
  then show ?thesis unfolding exec_def by (intro touches_call) (simp add: touches_def update_execution_def)
qed

lemma touches_writes:
  assumes "i \<in> I"
  shows "state_io_rel (touches I) (AdvanceExecution i n s)" and "state_io_rel (touches I) (ScheduleDelay i n t)"
    and "state_io_rel (touches I) (CompleteExecution i)" and "state_io_rel (touches I) (FailExecution i s)"
  unfolding AdvanceExecution_def ScheduleDelay_def CompleteExecution_def FailExecution_def
  by (rule touches_update [OF assms], simp)+

lemma touches_others:
  "state_io_rel (touches I) (query g)" "state_io_rel (touches I) new_uuid" "state_io_rel (touches I) time_now"
  "state_io_rel (touches I) (Publish s p i)" "state_io_rel (touches I) ctx_err"
  "state_io_rel (touches I) (AcquireLock k v d)" "state_io_rel (touches I) (ReleaseLock k v)"
  unfolding query_def Publish_def new_uuid_def time_now_def ctx_err_def AcquireLock_def ReleaseLock_def
  by (intro touches.guar_rules touches_call touches.guar_State; simp add: touches_def split: prod.split)+

lemma touches_reads:
  "state_io_rel (touches I) (GetWorkflow a b)" "state_io_rel (touches I) (GetExecution a)"
  "state_io_rel (touches I) (FetchDueExecutions n)" "state_io_rel (touches I) (GetContactForWorkflow a b)"
  unfolding GetWorkflow_def GetExecution_def FetchDueExecutions_def GetContactForWorkflow_def FindContactByUserID_def
  by (rule touches_others)+

lemma touches_run_node: "state_io_rel (touches {xr_ID x}) (run_node x n)"
  unfolding run_node_def finish_or_advance_def executeEmail_def
  by (intro touches.guar_rules touches_writes touches_others touches_reads; simp)

lemma touchesD: "state_io_rel (touches I) m \<Longrightarrow> run_state m w = (r, w') \<Longrightarrow> touches I w w'"
  unfolding state_io_rel_def by (metis snd_conv)

lemma touches_Run: "Run x nodes w = Some (r, w') \<Longrightarrow> touches {xr_ID x} w w'"
proof -
  have "Run_loop x nm cur w = Some (r, w') \<Longrightarrow> touches {xr_ID x} w w'" for nm cur
    by (induction rule: Run_loop_induct)
      (auto dest: touchesD [OF touches_run_node] intro: touches.R_refl touches_trans)
  then show "Run x nodes w = Some (r, w') \<Longrightarrow> touches {xr_ID x} w w'" by (simp add: Run_def)
qed

lemma touches_ResumeFromDelay:
  assumes "ResumeFromDelay x nodes w = Some (r, w')"
  shows "touches {xr_ID x} w w'"
proof -
  have c: "touches {xr_ID x} v v'" if "run_state (CompleteExecution (xr_ID x)) v = (y, v')" for v y v'
    using touchesD [OF touches_writes(3) that] by simp
  have a: "touches {xr_ID x} v v'" if "run_state (AdvanceExecution (xr_ID x) s t) v = (y, v')" for s t v y v'
    using touchesD [OF touches_writes(1) that] by simp
  show ?thesis using assms
    by (auto simp: ResumeFromDelay_def split: option.splits if_splits prod.splits sum.splits
        intro: touches.R_refl c a touches_trans [OF a] dest!: touches_Run)
qed

lemma GetExecution_id:
  "run_state (GetExecution i) w = (Inr (Some x), w') \<Longrightarrow> xr_ID x = i"
  by (auto simp: GetExecution_def query_def call_def Let_def execution_of_def split: fault.splits dest: find_SomeD)

lemma touches_resume_locked:
  assumes "resume_locked x w = Some w'"
  shows "touches {xr_ID x} w w'"
proof -
  have f: "touches {xr_ID x} v (snd (run_state (FailExecution (xr_ID x) s) v))" for s v
    using touches_writes(4) [of "xr_ID x"] by (simp add: state_io_rel_def)
  obtain r1 w1 where g: "run_state (GetWorkflow (xr_WorkflowID x) (xr_WorkspaceID x)) w = (r1, w1)"
    by (cases "run_state (GetWorkflow (xr_WorkflowID x) (xr_WorkspaceID x)) w")
  have s1: "touches {xr_ID x} w w1" by (rule touchesD [OF touches_reads(1) g])
  obtain r2 w2 where h: "run_state (GetExecution (xr_ID x)) w1 = (r2, w2)" by (cases "run_state (GetExecution (xr_ID x)) w1")
  have s2: "touches {xr_ID x} w1 w2" by (rule touchesD [OF touches_reads(2) h])
  have s3: "touches {xr_ID x} w1 w3" if "ResumeFromDelay l nodes w2 = Some (r, w3)"
      and "run_state (GetExecution (xr_ID x)) w1 = (Inr (Some l), w2)" for l nodes r w3
    using touches_trans [OF s2] touches_ResumeFromDelay [OF that(1)] GetExecution_id [OF that(2)] by simp
  have "touches {xr_ID x} w1 w'"
    using assms g h s2 f
    by (auto simp: resume_locked_def split: sum.splits option.splits if_splits
        intro: touches.R_refl touches_trans [OF s2 f] f s3 touches_trans [OF s3 f])
  then show ?thesis using s1 touches_trans by blast
qed

lemma touches_resume:
  assumes "resume x w = Some w'"
  shows "touches {xr_ID x} w w'"
proof -
  obtain r w1 where a: "run_state (AcquireLock (execution_lock_key (xr_ID x)) ''scheduler-resume'' (2 * Minute)) w = (r, w1)"
    by (cases "run_state (AcquireLock (execution_lock_key (xr_ID x)) ''scheduler-resume'' (2 * Minute)) w")
  have s: "touches {xr_ID x} w w1" by (rule touchesD [OF touches_others(6) a])
  have rel: "touches {xr_ID x} v (snd (run_state (ReleaseLock k t) v))" for k t v
    using touches_others(7) [of "{xr_ID x}"] by (simp add: state_io_rel_def)
  show ?thesis
  proof (cases r)
    case (Inl e)
    then show ?thesis using assms a s unfolding resume_def by simp
  next
    case (Inr u)
    then obtain w2 where "resume_locked x w1 = Some w2"
      "w' = snd (run_state (ReleaseLock (execution_lock_key (xr_ID x)) ''scheduler-resume'') w2)"
      using assms a unfolding resume_def by (auto split: option.splits)
    then show ?thesis using touches_trans [OF touches_trans [OF s touches_resume_locked] rel] by simp
  qed
qed

lemma touches_mono: "touches I w w' \<Longrightarrow> I \<subseteq> J \<Longrightarrow> touches J w w'"
proof -
  assume a: "touches I w w'" "I \<subseteq> J"
  have "filter (\<lambda>r. ex_id r \<notin> J) xs = filter (\<lambda>r. ex_id r \<notin> J) (filter (\<lambda>r. ex_id r \<notin> I) xs)" for xs
    using a(2) by (auto intro: filter_cong)
  then show ?thesis using a(1) unfolding touches_def by (metis (no_types))
qed

lemma touches_resume_all: "resume_all xs w = Some w' \<Longrightarrow> touches (xr_ID ` set xs) w w'"
proof (induction xs arbitrary: w)
  case Nil
  then show ?case by (simp add: touches.R_refl)
next
  case (Cons x xs)
  obtain b w1 where c: "run_state ctx_err w = (b, w1)" by (cases "run_state ctx_err w")
  have s1: "touches (xr_ID ` set (x # xs)) w w1" by (rule touchesD [OF touches_others(5) c])
  show ?case
  proof (cases b)
    case True
    then show ?thesis using Cons.prems c s1 by simp
  next
    case False
    then obtain w2 where w2: "resume x w1 = Some w2" "resume_all xs w2 = Some w'"
      using Cons.prems c by (auto split: option.splits)
    have "touches (xr_ID ` set (x # xs)) w1 w2" by (rule touches_mono [OF touches_resume [OF w2(1)]]) simp
    moreover have "touches (xr_ID ` set (x # xs)) w2 w'" by (rule touches_mono [OF Cons.IH [OF w2(2)]]) auto
    ultimately show ?thesis using s1 touches_trans by blast
  qed
qed

lemma fetched_due:
  assumes "run_state (FetchDueExecutions n) w = (Inr xs, w')" and "x \<in> set xs"
  shows "\<exists>r \<in> set (workflow_executions (db w)). ex_id r = xr_ID x \<and> execution_due (now w') r"
proof -
  have "xs = map (execution_of ''waiting'') (take n (sort_key (\<lambda>r. coalesce (ex_next_run_at r) 0)
      (filter (execution_due (now w')) (workflow_executions (db w)))))"
    using assms(1) by (auto simp: FetchDueExecutions_def query_def call_def Let_def split: fault.splits)
  then obtain r where "x = execution_of ''waiting'' r" "r \<in> set (filter (execution_due (now w')) (workflow_executions (db w)))"
    using assms(2) by (auto dest!: in_set_takeD)
  then show ?thesis by (auto simp: execution_of_def)
qed

lemma not_due_later: "t \<le> t' \<Longrightarrow> execution_due t r \<Longrightarrow> execution_due t' r"
  by (auto simp: execution_due_def split: option.splits)

section \<open>Properties of the scheduler\<close>

definition resumable :: "pg \<Rightarrow> execution_row \<Rightarrow> WorkflowNode list \<Rightarrow> WorkflowNode \<Rightarrow> bool" where
  "resumable d r nodes n \<longleftrightarrow> find (\<lambda>q. ex_id q = ex_id r) (workflow_executions d) = Some r \<and> ex_status r = Some ''waiting'' \<and>
     (case find (\<lambda>f. wf_id f = ex_workflow_id r \<and> wf_workspace_id f = ex_workspace_id r) (workflows d) of
        None \<Rightarrow> False | Some f \<Rightarrow> ParseWorkflowNodes (coalesce (wf_nodes f) (JArr [])) = Inr nodes) \<and>
     buildNodeMap nodes (coalesce (ex_current_node_id r) '''') = Some n"

lemma resume_locked_plan:
  assumes "reliable (env w)" and "resumable (db w) r nodes n" and "wn_NextNode n \<noteq> ''''"
    and "plan (buildNodeMap nodes) (wn_NextNode n) ns e"
  shows "\<exists>w'. resume_locked (execution_of ''waiting'' r) w = Some w' \<and>
    only_execution (ex_id r) (db w) (db w') \<and> ended (ex_id r) e w w' \<and>
    map pm_MsgID (published w') = map pm_MsgID (published w) @ concat (map (mails_of (execution_of ''running'' r) (db w)) ns)"
proof -
  let ?x = "(execution_of ''running'' r)\<lparr>xr_CurrentNodeID := wn_NextNode n\<rparr>"
  obtain f where f: "find (\<lambda>f. wf_id f = ex_workflow_id r \<and> wf_workspace_id f = ex_workspace_id r) (workflows (db w)) = Some f"
    "ParseWorkflowNodes (coalesce (wf_nodes f) (JArr [])) = Inr nodes"
    using assms(2) by (auto simp: resumable_def split: option.splits)
  have r: "find (\<lambda>q. ex_id q = ex_id r) (workflow_executions (db w)) = Some r" "ex_status r = Some ''waiting''"
    "buildNodeMap nodes (coalesce (ex_current_node_id r) '''') = Some n"
    using assms(2) by (auto simp: resumable_def)
  define w2 where "w2 = step_clock (step_clock w)"
  define w3 where "w3 = (step_clock w2)\<lparr>db := update_execution (ex_id r)
    (\<lambda>t r. r\<lparr>ex_current_node_id := Some (wn_NextNode n), ex_status := Some ''running'', ex_updated_at := t\<rparr>)
    (now (step_clock w2)) (db w2)\<rparr>"
  have a: "run_state (AdvanceExecution (ex_id r) (wn_NextNode n) ''running'') w2 = (Inr (), w3)"
    using assms(1) by (simp add: AdvanceExecution_def exec_def call_def Let_def w3_def w2_def)
  have w3: "env w3 = env w" "published w3 = published w" "only_execution (ex_id r) (db w) (db w3)" "now w \<le> now w3"
    using step_clock_now [of w] step_clock_now [of "step_clock w"] step_clock_now [of w2]
    by (simp_all add: w3_def w2_def only_execution_update)
  obtain w' where w': "Run_loop ?x (buildNodeMap nodes) (wn_NextNode n) w3 = Some (Inr (end_status e), w')" "planned ?x ns e w3 w'"
    using Run_loop_plan [OF assms(4), of w3 ?x] assms(1) w3 by auto
  have "Run ?x nodes w3 = Some (Inr (end_status e), w')" using w' assms(3) by (simp add: Run_def)
  then have res: "ResumeFromDelay (execution_of ''running'' r) nodes w2 = Some (Inr (end_status e), w')"
    using r(3) assms(3) a by (simp add: ResumeFromDelay_def execution_of_def)
  have "resume_locked (execution_of ''waiting'' r) w = Some w'"
    using assms(1) f r res
    by (simp add: resume_locked_def GetWorkflow_def GetExecution_def query_def call_def Let_def w2_def execution_of_def)
  moreover have "mails_of ?x (db w3) = mails_of (execution_of ''running'' r) (db w)"
    using only_execution_contacts [OF w3(3)] by (intro ext) (simp add: mails_of_def addressee_def workflow_msg_id_def)
  moreover have "only_execution (ex_id r) (db w) (db w')" "ended (ex_id r) e w w'"
    using w'(2) w3 only_execution_trans ended_later by (auto simp: planned_def execution_of_def)
  ultimately show ?thesis using w'(2) w3 by (simp add: planned_def)
qed

text \<open>Two executions of a workflow that pause at its delay node, the second one until 7.\<close>

definition pausing :: json where
  "pausing = JArr [JObj [(''id'', JStr ''c''), (''type'', JStr ''delay''),
       (''config'', JObj [(''duration'', JStr ''24h'')]), (''nextNode'', JStr ''d'')],
     JObj [(''id'', JStr ''d''), (''type'', JStr ''end'')]]"

definition paused :: "string \<Rightarrow> int \<Rightarrow> execution_row" where
  "paused i t = \<lparr>ex_id = i, ex_workflow_id = ''f'', ex_workspace_id = ''w'', ex_contact_id = ''u1'',
     ex_trigger_event_id = i, ex_status = Some ''waiting'', ex_current_node_id = Some ''c'', ex_next_run_at = Some t,
     ex_retry_count = None, ex_failure_reason = None, ex_completed_at = None, ex_updated_at = 0\<rparr>"

definition paused_world :: "int \<Rightarrow> world" where
  "paused_world k = quiet_world\<lparr>db := (flow_db pausing)\<lparr>workflow_executions := [paused ''x'' (k - 5), paused ''y'' 7]\<rparr>\<rparr>"

definition pausing_nodes :: "WorkflowNode list" where
  "pausing_nodes = [node ''c'' ''delay'' [(''duration'', JStr ''24h'')] ''d'', zero_node\<lparr>wn_ID := ''d'', wn_Type := ''end''\<rparr>]"

lemma pausing_resumable: "resumable (db (paused_world 5)) (paused ''x'' 0) pausing_nodes (hd pausing_nodes)"
  by code_simp

lemma pausing_plan: "plan (buildNodeMap pausing_nodes) (wn_NextNode (hd pausing_nodes)) [] Completes"
  by (rule plan.stop [where n = "zero_node\<lparr>wn_ID := ''d'', wn_Type := ''end''\<rparr>"])
    (simp_all add: pausing_nodes_def node_def buildNodeMap_def zero_node_def)

text \<open>
  Claim C26. The scheduler continues a delayed run where it stopped: without faults, when nobody holds the
  lock of the execution, resuming it executes the plan of the graph from the successor of its delay node on,
  whatever became of the status of the workflow meanwhile.
\<close>

theorem resume_continues_plan:
  assumes "reliable (env w)" and "resumable (db w) r nodes n" and "wn_NextNode n \<noteq> ''''"
    and "plan (buildNodeMap nodes) (wn_NextNode n) ns e" and "redis w (execution_lock_key (ex_id r)) = None"
  shows "\<exists>w'. resume (execution_of ''waiting'' r) w = Some w' \<and>
    only_execution (ex_id r) (db w) (db w') \<and> ended (ex_id r) e w w' \<and>
    map pm_MsgID (published w') = map pm_MsgID (published w) @ concat (map (mails_of (execution_of ''running'' r) (db w)) ns)"
proof -
  let ?k = "execution_lock_key (ex_id r)"
  obtain w1 where w1: "run_state (AcquireLock ?k ''scheduler-resume'' (2 * Minute)) w = (Inr (), w1)"
    "env w1 = env w" "db w1 = db w" "published w1 = published w" "now w \<le> now w1"
    using assms(1,5) step_clock_now [of w] by (simp add: AcquireLock_def call_def Let_def set_nx_def live_def)
  obtain w2 where w2: "resume_locked (execution_of ''waiting'' r) w1 = Some w2" "only_execution (ex_id r) (db w) (db w2)"
    "ended (ex_id r) e w1 w2"
    "map pm_MsgID (published w2) = map pm_MsgID (published w) @ concat (map (mails_of (execution_of ''running'' r) (db w)) ns)"
    using resume_locked_plan [of w1 r nodes n ns e] assms w1 by auto
  let ?w' = "snd (run_state (ReleaseLock ?k ''scheduler-resume'') w2)"
  have "resume (execution_of ''waiting'' r) w = Some ?w'"
    using w1(1) w2(1) unfolding resume_def by (simp add: execution_of_def)
  moreover have "db ?w' = db w2" "published ?w' = published w2"
    by (rule preservesD, intro frame; simp)+
  moreover have "now w2 \<le> now ?w'"
    using touches_others(7) [of "{}" ?k "''scheduler-resume''"] unfolding state_io_rel_def touches_def by blast
  then have "ended (ex_id r) e w1 ?w'"
    using w2(3) \<open>db ?w' = db w2\<close> by (cases e) (auto intro: order_trans)
  ultimately show ?thesis using w2 ended_later [OF _ w1(5)] by auto
qed

lemma resume_continues_plan_witness:
  "\<exists>w'. resume (execution_of ''waiting'' (paused ''x'' 0)) (paused_world 5) = Some w' \<and>
     ended ''x'' Completes (paused_world 5) w'"
proof -
  have "reliable (env (paused_world 5))" "wn_NextNode (hd pausing_nodes) \<noteq> ''''"
    "redis (paused_world 5) (execution_lock_key (ex_id (paused ''x'' 0))) = None" and x: "ex_id (paused ''x'' 0) = ''x''"
    by (simp_all add: paused_world_def quiet_world_def pausing_nodes_def node_def paused_def)
  then show ?thesis
    using resume_continues_plan [OF _ pausing_resumable _ pausing_plan] x by (simp del: ended.simps) blast
qed

text \<open>
  Claim C27. The scheduler touches nothing but executions whose delay has passed, in every environment:
  a poll leaves alone every execution that is not waiting or not due by its end, and every other table.
\<close>

theorem scheduler_touches_only_due:
  assumes "poll_workflows w = Some w'" and "distinct (map ex_id (workflow_executions (db w)))"
    and "r \<in> set (workflow_executions (db w))" and "\<not> execution_due (now w') r"
  shows "r \<in> set (workflow_executions (db w')) \<and>
    db w' = db w\<lparr>workflow_executions := workflow_executions (db w')\<rparr>"
proof -
  obtain a w1 where a: "run_state (AcquireLock schedulerLockKey ''scheduler'' schedulerLockTTL) w = (a, w1)"
    by (cases "run_state (AcquireLock schedulerLockKey ''scheduler'' schedulerLockTTL) w")
  obtain b w2 where b: "run_state (FetchDueExecutions schedulerBatch) w1 = (b, w2)"
    by (cases "run_state (FetchDueExecutions schedulerBatch) w1")
  have s: "touches I w w1" "touches I w1 w2" for I
    by (rule touchesD [OF touches_others(6) a], rule touchesD [OF touches_reads(3) b])
  have "preserves db (AcquireLock schedulerLockKey ''scheduler'' schedulerLockTTL)" by (intro frame; simp)
  from preservesD [OF this, of w] have db1: "db w1 = db w" by (simp only: a snd_conv)
  have "\<exists>I. touches I w w' \<and> ex_id r \<notin> I"
  proof (cases a)
    case (Inl e)
    then have "w' = w1" using assms(1) a by (simp add: poll_workflows_def)
    then show ?thesis using s(1) [of "{}"] by auto
  next
    case (Inr u)
    then obtain w3 where w3: "(case b of Inl e \<Rightarrow> Some w2 | Inr xs \<Rightarrow> resume_all xs w2) = Some w3"
      and w': "w' = snd (run_state (ReleaseLock schedulerLockKey ''scheduler'') w3)"
      using assms(1) a b by (auto simp: poll_workflows_def split: option.splits sum.splits)
    let ?I = "case b of Inl e \<Rightarrow> {} | Inr xs \<Rightarrow> xr_ID ` set xs"
    have m: "touches ?I w2 w3" using w3 touches_resume_all by (cases b) (auto intro: touches.R_refl)
    have e: "touches I w3 w'" for I using touches_others(7) [of I] by (simp add: state_io_rel_def w')
    have "touches ?I w w'" by (rule touches_trans [OF touches_trans [OF touches_trans [OF s] m] e])
    moreover have "ex_id r \<notin> ?I"
    proof
      assume "ex_id r \<in> ?I"
      then obtain xs x where x: "b = Inr xs" "x \<in> set xs" "ex_id r = xr_ID x" by (auto split: sum.splits)
      then obtain q where q: "q \<in> set (workflow_executions (db w))" "ex_id q = ex_id r" "execution_due (now w2) q"
        using fetched_due b db1 by metis
      have "q = r" using q assms(2,3) by (metis distinct_map inj_onD)
      moreover have "now w2 \<le> now w'" using touches_trans [OF m e] by (simp add: touches_def)
      ultimately show False using q(3) assms(4) not_due_later by blast
    qed
    ultimately show ?thesis by blast
  qed
  then obtain I where I: "touches I w w'" "ex_id r \<notin> I" by blast
  have "r \<in> set (filter (\<lambda>r. ex_id r \<notin> I) (workflow_executions (db w)))" using assms(3) I(2) by simp
  then have "r \<in> set (filter (\<lambda>r. ex_id r \<notin> I) (workflow_executions (db w')))"
    using I(1) by (simp only: touches_def)
  then show ?thesis using I by (simp add: touches_def)
qed

lemma scheduler_touches_only_due_witness:
  "\<exists>w'. poll_workflows (paused_world 5) = Some w' \<and> paused ''y'' 7 \<in> set (workflow_executions (db w'))"
proof -
  have "map_option now (poll_workflows (paused_world 5)) = Some 0" by code_simp
  then obtain w' where w': "poll_workflows (paused_world 5) = Some w'" "now w' = 0" by auto
  have "distinct (map ex_id (workflow_executions (db (paused_world 5))))"
    "paused ''y'' 7 \<in> set (workflow_executions (db (paused_world 5)))"
    by (simp_all add: paused_world_def paused_def)
  moreover have "\<not> execution_due (now w') (paused ''y'' 7)" by (simp add: w' execution_due_def paused_def)
  ultimately show ?thesis using scheduler_touches_only_due [OF w'(1)] w'(1) by blast
qed

end
