(* ===== verification/EventWorker.thy ===== *)
theory EventWorker
  imports Workflows
begin

text \<open>
  The event worker: identity resolution and enrichment (\<^verbatim>\<open>internal/worker/events/enricher.go\<close>) and the
  handler around it (\<^verbatim>\<open>internal/worker/events/handler.go\<close>).
\<close>

section \<open>Traits\<close>

definition put_entry :: "string \<Rightarrow> json \<Rightarrow> (string \<times> json) list \<Rightarrow> (string \<times> json) list" where
  "put_entry k v m = filter (\<lambda>(k', _). k' \<noteq> k) m @ [(k, v)]"

text \<open>
  \<^verbatim>\<open>json.Unmarshal\<close> into an empty map: \<^verbatim>\<open>null\<close> makes the map nil, and anything but an object is an
  error, which the code ignores.
\<close>

definition base_traits :: "json \<Rightarrow> gomap" where
  "base_traits j = (case j of JObj m \<Rightarrow> Some m | JNull \<Rightarrow> None | _ \<Rightarrow> Some [])"

text \<open>An assignment to an entry of a nil map panics: the value is \<open>None\<close>.\<close>

fun merge_into :: "(string \<times> json) list \<Rightarrow> gomap \<Rightarrow> gomap option" where
  "merge_into [] merged = Some merged"
| "merge_into ((k, v) # kvs) merged =
     (if v = JNull then merge_into kvs merged
      else (case merged of None \<Rightarrow> None | Some m \<Rightarrow> merge_into kvs (Some (put_entry k v m))))"

definition mergeTraits :: "json \<Rightarrow> gomap \<Rightarrow> gomap option" where
  "mergeTraits existing incoming = merge_into (coalesce incoming []) (base_traits existing)"

section \<open>Identity resolution\<close>

record EnrichmentResult =
  er_ContactID :: string
  er_MergedTraits :: gomap
  er_EnrichedData :: "(string \<times> json) list"

datatype enriched = Enriched EnrichmentResult | EnrichErr goerr | EnrichPanic

definition linked :: "EnrichmentResult \<Rightarrow> string \<Rightarrow> gomap \<Rightarrow> enriched" where
  "linked res i traits = Enriched (res\<lparr>er_ContactID := i, er_MergedTraits := traits\<rparr>)"

definition merged_with :: "EnrichmentResult \<Rightarrow> ContactRow \<Rightarrow> RawEventPayload \<Rightarrow> enriched" where
  "merged_with res c ev = (case mergeTraits (cw_Traits c) (re_Traits ev) of
     None \<Rightarrow> EnrichPanic | Some m \<Rightarrow> linked res (cw_ID c) m)"

definition handleTrack :: "RawEventPayload \<Rightarrow> EnrichmentResult \<Rightarrow> (world, enriched) state" where
  "handleTrack ev res =
     (if re_UserID ev \<noteq> '''' then do {
        f \<leftarrow> FindContactByUserID (re_WorkspaceID ev) (re_UserID ev);
        case f of
          Inl e \<Rightarrow> State_Monad.return (EnrichErr (Wrap ''find contact by userId'' e))
        | Inr found \<Rightarrow>
            (case found of
               Some c \<Rightarrow> State_Monad.return (merged_with res c ev)
             | None \<Rightarrow> do {
                 u \<leftarrow> UpsertContact (re_WorkspaceID ev) (re_UserID ev) (re_AnonymousID ev) (marshal (re_Traits ev));
                 State_Monad.return (case u of Inl e \<Rightarrow> EnrichErr (Wrap ''upsert contact'' e) | Inr i \<Rightarrow> linked res i (re_Traits ev))
               })
      } else if re_AnonymousID ev \<noteq> '''' then do {
        f \<leftarrow> FindContactByAnonymousID (re_WorkspaceID ev) (re_AnonymousID ev);
        case f of
          Inl e \<Rightarrow> State_Monad.return (EnrichErr (Wrap ''find contact by anonymousId'' e))
        | Inr found \<Rightarrow>
            (case found of
               Some c \<Rightarrow> State_Monad.return (merged_with res c ev)
             | None \<Rightarrow> do {
                 u \<leftarrow> UpsertAnonymousContact (re_WorkspaceID ev) (re_AnonymousID ev) (marshal (re_Traits ev));
                 State_Monad.return (case u of Inl e \<Rightarrow> EnrichErr (Wrap ''upsert anonymous contact'' e) | Inr i \<Rightarrow> linked res i (re_Traits ev))
               })
      } else State_Monad.return (Enriched res))"

definition handleIdentify :: "RawEventPayload \<Rightarrow> EnrichmentResult \<Rightarrow> (world, enriched) state" where
  "handleIdentify ev res =
     (if re_UserID ev = '''' then handleTrack ev res else do {
        u \<leftarrow> UpsertContact (re_WorkspaceID ev) (re_UserID ev) (re_AnonymousID ev) (marshal (re_Traits ev));
        case u of
          Inl e \<Rightarrow> State_Monad.return (EnrichErr (Wrap ''upsert contact (identify)'' e))
        | Inr i \<Rightarrow> do {
            (if re_AnonymousID ev \<noteq> '''' then do {
               f \<leftarrow> FindContactByAnonymousID (re_WorkspaceID ev) (re_AnonymousID ev);
               case f of
                 Inl e \<Rightarrow> State_Monad.return ()
               | Inr found \<Rightarrow>
                   (case found of
                      None \<Rightarrow> State_Monad.return ()
                    | Some c \<Rightarrow>
                        if cw_ID c \<noteq> i then do {
                          _ \<leftarrow> MergeAnonymousIntoContact (re_WorkspaceID ev) i (re_AnonymousID ev);
                          State_Monad.return ()
                        } else State_Monad.return ())
             } else State_Monad.return ());
            State_Monad.return (linked (res\<lparr>er_EnrichedData := put_entry ''identified'' (JBool True) (er_EnrichedData res)\<rparr>) i (re_Traits ev))
          }
      })"

definition handleAlias :: "RawEventPayload \<Rightarrow> EnrichmentResult \<Rightarrow> (world, enriched) state" where
  "handleAlias ev res =
     (if re_UserID ev = '''' \<or> re_AnonymousID ev = '''' then State_Monad.return (Enriched res) else do {
        u \<leftarrow> UpsertContact (re_WorkspaceID ev) (re_UserID ev) (re_AnonymousID ev) (marshal (re_Traits ev));
        case u of
          Inl e \<Rightarrow> State_Monad.return (EnrichErr (Wrap ''upsert contact (alias)'' e))
        | Inr i \<Rightarrow> do {
            m \<leftarrow> MergeAnonymousIntoContact (re_WorkspaceID ev) i (re_AnonymousID ev);
            State_Monad.return
              (case m of
                 Inl e \<Rightarrow> EnrichErr (Wrap ''merge alias'' e)
               | Inr _ \<Rightarrow> linked (res\<lparr>er_EnrichedData := put_entry ''aliased'' (JBool True) (er_EnrichedData res)\<rparr>) i (re_Traits ev))
          }
      })"

definition Enrich :: "RawEventPayload \<Rightarrow> (world, enriched) state" where
  "Enrich ev =
     (let res = \<lparr>er_ContactID = '''', er_MergedTraits = None, er_EnrichedData = [(''eventType'', JStr (re_EventType ev))]\<rparr> in
      if re_EventType ev = ''identify'' then handleIdentify ev res
      else if re_EventType ev = ''alias'' then handleAlias ev res
      else handleTrack ev res)"

section \<open>The handler\<close>

definition validate_event :: "RawEventPayload \<Rightarrow> bool" where
  "validate_event p \<longleftrightarrow> re_EventID p \<noteq> '''' \<and> re_WorkspaceID p \<noteq> '''' \<and> re_EventType p \<noteq> ''''"

definition handleTransient :: "int \<Rightarrow> nat \<Rightarrow> RawEventPayload \<Rightarrow> string \<Rightarrow> (world, hresult) state" where
  "handleTransient maxRetries attempt p reason =
     (if int attempt \<ge> maxRetries then do {
        _ \<leftarrow> MarkRawEventFailed (re_EventID p) (re_WorkspaceID p) reason;
        inc ''events_enrich_failures_total'';
        finish Term
      } else do { inc ''events_retries_total''; finish Nak })"

definition enriched_event :: "RawEventPayload \<Rightarrow> EnrichmentResult \<Rightarrow> EnrichedEventRow" where
  "enriched_event p res = \<lparr>ee_WorkspaceID = re_WorkspaceID p, ee_RawEventID = re_EventID p, ee_ContactID = er_ContactID res,
     ee_UserID = re_UserID p, ee_AnonymousID = re_AnonymousID p, ee_EventType = re_EventType p, ee_EventName = re_EventName p,
     ee_Properties = marshal (re_Properties p), ee_Traits = marshal (er_MergedTraits res), ee_Context = marshal (re_Context p),
     ee_EnrichedData = JObj (er_EnrichedData res)\<rparr>"

definition persistEnriched :: "RawEventPayload \<Rightarrow> EnrichmentResult \<Rightarrow> (world, goerr + unit) state" where
  "persistEnriched p res = InsertEnrichedEvent (enriched_event p res)"

text \<open>The payload has no workflow id: only the message id names the workflow.\<close>

definition event_trigger :: "RawEventPayload \<Rightarrow> string \<Rightarrow> WorkflowTriggerPayload" where
  "event_trigger p contactID = \<lparr>wt_WorkspaceID = re_WorkspaceID p, wt_WorkflowID = '''', wt_ContactID = contactID,
     wt_EventName = re_EventName p, wt_EventID = re_EventID p\<rparr>"

definition trigger_msg_id :: "RawEventPayload \<Rightarrow> WorkflowTriggerRule \<Rightarrow> string" where
  "trigger_msg_id p t = ''wf-'' @ rule_WorkflowID t @ ''-'' @ re_EventID p"

fun publish_triggers :: "RawEventPayload \<Rightarrow> string \<Rightarrow> WorkflowTriggerRule list \<Rightarrow> (world, unit) state" where
  "publish_triggers p contactID [] = State_Monad.return ()"
| "publish_triggers p contactID (t # ts) = do {
     r \<leftarrow> Publish ''workflow.trigger'' (PWorkflowTrigger (event_trigger p contactID)) (trigger_msg_id p t);
     (case r of Inl e \<Rightarrow> State_Monad.return () | Inr _ \<Rightarrow> inc ''events_workflows_triggered_total'');
     publish_triggers p contactID ts
   }"

definition evaluateWorkflowTriggers :: "RawEventPayload \<Rightarrow> string \<Rightarrow> (world, unit) state" where
  "evaluateWorkflowTriggers p contactID = do {
     ts \<leftarrow> FindMatchingWorkflowTriggers (re_WorkspaceID p) (re_EventType p) (re_EventName p);
     case ts of Inl e \<Rightarrow> State_Monad.return () | Inr rules \<Rightarrow> publish_triggers p contactID rules
   }"

text \<open>From the enrichment on.\<close>

definition process_event :: "int \<Rightarrow> nat \<Rightarrow> RawEventPayload \<Rightarrow> (world, hresult) state" where
  "process_event maxRetries attempt p = do {
     r \<leftarrow> Enrich p;
     case r of
       EnrichPanic \<Rightarrow> State_Monad.return Panic
     | EnrichErr e \<Rightarrow> do {
         inc ''events_enrich_failures_total'';
         handleTransient maxRetries attempt p (err_string e)
       }
     | Enriched res \<Rightarrow> do {
         i \<leftarrow> persistEnriched p res;
         case i of
           Inl e \<Rightarrow> handleTransient maxRetries attempt p (err_string e)
         | Inr _ \<Rightarrow> do {
             evaluateWorkflowTriggers p (er_ContactID res);
             _ \<leftarrow> MarkRawEventProcessed (re_EventID p) (re_WorkspaceID p);
             finish Ack
           }
       }
   }"

definition Handle_event :: "int \<Rightarrow> RawEventPayload message \<Rightarrow> (world, hresult) state" where
  "Handle_event maxRetries msg = do {
     inc ''events_processed_total'';
     case Data msg of
       None \<Rightarrow> finish Term
     | Some p \<Rightarrow>
         if \<not> validate_event p then finish Term else do {
           s \<leftarrow> GetRawEventStatus (re_EventID p) (re_WorkspaceID p);
           case s of
             Inl e \<Rightarrow> finish Nak
           | Inr status \<Rightarrow>
               if status = ''processed'' then do { inc ''events_duplicate_drops_total''; finish Ack } else do {
                 m \<leftarrow> MarkRawEventProcessing (re_EventID p) (re_WorkspaceID p);
                 case m of
                   Inl e \<Rightarrow> finish Nak
                 | Inr _ \<Rightarrow> process_event maxRetries (attempt_of msg) p
               }
         }
   }"

section \<open>The message contract\<close>

lemma preserves_case_enriched [frame]:
  "(\<And>r. preserves f (g r)) \<Longrightarrow> (\<And>e. preserves f (h e)) \<Longrightarrow> preserves f k \<Longrightarrow>
   preserves f (case v of Enriched r \<Rightarrow> g r | EnrichErr e \<Rightarrow> h e | EnrichPanic \<Rightarrow> k)"
  by (cases v) auto

lemma panics_case_enriched [settle_rules]:
  "(\<And>r. settles_or_panics (g r)) \<Longrightarrow> (\<And>e. settles_or_panics (h e)) \<Longrightarrow> settles_or_panics k \<Longrightarrow>
   settles_or_panics (case v of Enriched r \<Rightarrow> g r | EnrichErr e \<Rightarrow> h e | EnrichPanic \<Rightarrow> k)"
  by (cases v) auto

lemma Enrich_frame [frame]:
  assumes "steady f" and "\<And>w d. f (w\<lparr>db := d\<rparr>) = f w"
  shows "preserves f (Enrich p)"
  unfolding Enrich_def Let_def handleIdentify_def handleAlias_def handleTrack_def by (intro frame assms)

lemma publish_triggers_frame [frame]:
  "steady f \<Longrightarrow> (\<And>w p. f (w\<lparr>published := p\<rparr>) = f w) \<Longrightarrow> preserves f (publish_triggers p i ts)"
  by (induction ts) (auto intro!: frame)

lemma evaluate_frame [frame]:
  "steady f \<Longrightarrow> (\<And>w p. f (w\<lparr>published := p\<rparr>) = f w) \<Longrightarrow> preserves f (evaluateWorkflowTriggers p i)"
  unfolding evaluateWorkflowTriggers_def by (intro frame)

lemma settles_handleTransient [settle_rules]: "settles_once (handleTransient n k p s)"
  unfolding handleTransient_def by (intro settle_rules frame; simp)

lemma Handle_event_settles: "settles_or_panics (Handle_event n m)"
  unfolding Handle_event_def process_event_def persistEnriched_def
  by (intro settle_rules settles_once_or_panics frame; simp)

interpretation event: message_handler "Handle_event n"
  by (rule message_handlerI) (rule Handle_event_settles)

section \<open>What an event may touch, in every environment\<close>

definition has_enriched :: "RawEventPayload \<Rightarrow> pg \<Rightarrow> bool" where
  "has_enriched p d \<longleftrightarrow> list_ex (\<lambda>r. en_raw_event_id r = re_EventID p) (events_enriched d)"

text \<open>
  The contacts of other workspaces, the other raw events and all other tables stay as they are; one row
  at most is appended to the enriched events, for this event, and only when it had none.
\<close>

definition event_evolves :: "RawEventPayload \<Rightarrow> world \<Rightarrow> world \<Rightarrow> bool" where
  "event_evolves p w w' \<longleftrightarrow>
     db w' = db w\<lparr>contacts := contacts (db w'), events_raw := events_raw (db w'), events_enriched := events_enriched (db w')\<rparr> \<and>
     filter (\<lambda>c. ct_workspace_id c \<noteq> re_WorkspaceID p) (contacts (db w')) = filter (\<lambda>c. ct_workspace_id c \<noteq> re_WorkspaceID p) (contacts (db w)) \<and>
     filter (\<lambda>r. \<not> this_raw (re_EventID p) (re_WorkspaceID p) r) (events_raw (db w')) =
       filter (\<lambda>r. \<not> this_raw (re_EventID p) (re_WorkspaceID p) r) (events_raw (db w)) \<and>
     (events_enriched (db w') = events_enriched (db w) \<or>
      \<not> has_enriched p (db w) \<and> (\<exists>r. en_raw_event_id r = re_EventID p \<and> en_workspace_id r = re_WorkspaceID p \<and>
        events_enriched (db w') = events_enriched (db w) @ [r])) \<and>
     mail w' = mail w \<and> redis w' = redis w"

lemma event_evolves_refl: "event_evolves p w w"
  by (simp add: event_evolves_def)

lemma event_evolves_trans:
  assumes "event_evolves p u v" and "event_evolves p v w"
  shows "event_evolves p u w"
proof -
  have "db w = db u\<lparr>contacts := contacts (db v), events_raw := events_raw (db v), events_enriched := events_enriched (db v)\<rparr>
      \<lparr>contacts := contacts (db w), events_raw := events_raw (db w), events_enriched := events_enriched (db w)\<rparr>"
    using assms unfolding event_evolves_def by metis
  then have "db w = db u\<lparr>contacts := contacts (db w), events_raw := events_raw (db w), events_enriched := events_enriched (db w)\<rparr>"
    by simp
  then show ?thesis using assms unfolding event_evolves_def has_enriched_def by auto
qed

interpretation event_evolves: guarantee "event_evolves p" for p
  by unfold_locales ((rule event_evolves_refl) | (erule (1) event_evolves_trans))+

lemma event_call:
  assumes "\<And>w. event_evolves p w (snd (op w))"
  shows "state_io_rel (event_evolves p) (call op)"
proof -
  have "event_evolves p s (step_clock s)" for s by (simp add: event_evolves_def)
  then show ?thesis using assms event_evolves_trans
    by (simp add: state_io_rel_def call_def Let_def split: fault.split) blast
qed

lemma event_quiet:
  "state_io_rel (event_evolves p) (query g)" "state_io_rel (event_evolves p) new_uuid"
  "state_io_rel (event_evolves p) (Publish s x i)" "state_io_rel (event_evolves p) (inc_by c n)"
  "state_io_rel (event_evolves p) (finish d)"
  unfolding query_def Publish_def new_uuid_def inc_by_def finish_def settle_def
  by (intro event_evolves.guar_rules event_call event_evolves.guar_State event_evolves.guar_modify; simp add: event_evolves_def)+

lemma event_reads:
  "state_io_rel (event_evolves p) (FindContactByUserID a b)" "state_io_rel (event_evolves p) (FindContactByAnonymousID a b)"
  "state_io_rel (event_evolves p) (GetRawEventStatus a b)" "state_io_rel (event_evolves p) (FindMatchingWorkflowTriggers a b c)"
  unfolding FindContactByUserID_def FindContactByAnonymousID_def GetRawEventStatus_def FindMatchingWorkflowTriggers_def
  by (rule event_quiet)+

lemma event_contacts:
  assumes "\<And>t d. snd (g t d) = d\<lparr>contacts := contacts (snd (g t d))\<rparr>"
    and "\<And>t d. filter (\<lambda>c. ct_workspace_id c \<noteq> re_WorkspaceID p) (contacts (snd (g t d))) =
      filter (\<lambda>c. ct_workspace_id c \<noteq> re_WorkspaceID p) (contacts d)"
  shows "state_io_rel (event_evolves p) (exec_returning g)"
  unfolding exec_returning_def
proof (rule event_call)
  fix w :: world
  define d where "d = snd (g (now w) (db w))"
  have e: "d = (db w)\<lparr>contacts := contacts d\<rparr>" using assms(1) unfolding d_def .
  then have "db (w\<lparr>db := d\<rparr>) = (db w)\<lparr>contacts := contacts d\<rparr>" by simp
  moreover have "events_raw d = events_raw (db w)" "events_enriched d = events_enriched (db w)"
    using arg_cong [OF e, of events_raw] arg_cong [OF e, of events_enriched] by simp_all
  ultimately have "event_evolves p w (w\<lparr>db := d\<rparr>)"
    using assms(2) [of "now w" "db w"] by (simp add: event_evolves_def d_def [symmetric])
  then show "event_evolves p w (snd (case g (now w) (db w) of (r, d) \<Rightarrow> (r, w\<lparr>db := d\<rparr>)))"
    by (auto simp: d_def split: prod.split)
qed

lemma other_workspaces_kept:
  "ws = ws' \<Longrightarrow> (\<And>c. ct_workspace_id (f c) = ct_workspace_id c) \<Longrightarrow>
   filter (\<lambda>c. ct_workspace_id c \<noteq> ws) (update_where (has_user ws' u) f cs) = filter (\<lambda>c. ct_workspace_id c \<noteq> ws) cs"
  "ws = ws' \<Longrightarrow> (\<And>c. ct_workspace_id (f c) = ct_workspace_id c) \<Longrightarrow>
   filter (\<lambda>c. ct_workspace_id c \<noteq> ws) (update_where (has_anonymous ws' u) f cs) = filter (\<lambda>c. ct_workspace_id c \<noteq> ws) cs"
  "ws = ws' \<Longrightarrow> (\<And>c. ct_workspace_id (f c) = ct_workspace_id c) \<Longrightarrow>
   filter (\<lambda>c. ct_workspace_id c \<noteq> ws) (update_where (\<lambda>c. id_text c = u \<and> ct_workspace_id c = ws') f cs) =
     filter (\<lambda>c. ct_workspace_id c \<noteq> ws) cs"
  by (induction cs) (auto simp: has_user_def has_anonymous_def)

lemma event_contact_writes:
  assumes "ws = re_WorkspaceID p"
  shows "state_io_rel (event_evolves p) (UpsertContact ws u a tr)"
    and "state_io_rel (event_evolves p) (UpsertAnonymousContact ws a tr)"
    and "state_io_rel (event_evolves p) (MergeAnonymousIntoContact ws i a)"
  unfolding UpsertContact_def UpsertAnonymousContact_def MergeAnonymousIntoContact_def assms
  by (intro event_evolves.guar_bind event_quiet event_contacts;
      simp add: upsert_contact_def upsert_anonymous_def merge_anonymous_def Let_def new_contact_def
        other_workspaces_kept split: option.split)+

lemma other_raw_kept:
  "(\<And>r. P r \<Longrightarrow> this_raw i ws r) \<Longrightarrow> (\<And>r. this_raw i ws (f r) = this_raw i ws r) \<Longrightarrow>
   filter (\<lambda>r. \<not> this_raw i ws r) (update_where P f xs) = filter (\<lambda>r. \<not> this_raw i ws r) xs"
  by (induction xs) auto

lemma event_raw_update:
  assumes "\<And>t d. g t d = d\<lparr>events_raw := update_where P (f t) (events_raw d)\<rparr>"
    and "\<And>r. P r \<Longrightarrow> this_raw (re_EventID p) (re_WorkspaceID p) r"
    and "\<And>t r. rw_id (f t r) = rw_id r" and "\<And>t r. rw_workspace_id (f t r) = rw_workspace_id r"
  shows "state_io_rel (event_evolves p) (exec g)"
proof -
  have "filter (\<lambda>r. \<not> this_raw (re_EventID p) (re_WorkspaceID p) r) (update_where P (f t) xs) =
      filter (\<lambda>r. \<not> this_raw (re_EventID p) (re_WorkspaceID p) r) xs" for t xs
    by (rule other_raw_kept) (simp_all add: this_raw_def assms(2) [unfolded this_raw_def] assms(3,4))
  then show ?thesis unfolding exec_def assms(1) by (intro event_call) (simp add: event_evolves_def)
qed

lemma event_raw_writes:
  "state_io_rel (event_evolves p) (MarkRawEventProcessing (re_EventID p) (re_WorkspaceID p))"
  "state_io_rel (event_evolves p) (MarkRawEventProcessed (re_EventID p) (re_WorkspaceID p))"
  "state_io_rel (event_evolves p) (MarkRawEventFailed (re_EventID p) (re_WorkspaceID p) s)"
  unfolding MarkRawEventProcessing_def MarkRawEventProcessed_def MarkRawEventFailed_def
  by (rule event_raw_update, rule mark_raw_processing_def mark_raw_processed_def mark_raw_failed_def; simp)+

lemma event_persist: "state_io_rel (event_evolves p) (persistEnriched p res)"
  unfolding persistEnriched_def InsertEnrichedEvent_def exec_def
  by (intro event_evolves.guar_bind event_quiet event_call)
    (auto simp: event_evolves_def insert_enriched_def enriched_event_def has_enriched_def)

lemma event_case_enriched:
  "(\<And>r. state_io_rel R (g r)) \<Longrightarrow> (\<And>e. state_io_rel R (h e)) \<Longrightarrow> state_io_rel R k \<Longrightarrow>
   state_io_rel R (case v of Enriched r \<Rightarrow> g r | EnrichErr e \<Rightarrow> h e | EnrichPanic \<Rightarrow> k)"
  by (cases v) auto

lemma event_Enrich: "state_io_rel (event_evolves p) (Enrich p)"
  unfolding Enrich_def Let_def handleIdentify_def handleAlias_def handleTrack_def
  by (intro event_evolves.guar_rules event_reads event_contact_writes refl)

lemma event_triggers: "state_io_rel (event_evolves p) (publish_triggers q i ts)"
  by (induction ts) (auto intro!: event_evolves.guar_rules event_quiet)

lemma event_Handle:
  assumes "Data m = Some p"
  shows "state_io_rel (event_evolves p) (Handle_event n m)"
  unfolding Handle_event_def process_event_def handleTransient_def evaluateWorkflowTriggers_def assms option.case
  by (intro event_evolves.guar_rules event_case_enriched event_quiet event_reads event_raw_writes event_persist event_Enrich event_triggers)

section \<open>Published triggers\<close>

definition event_triggers_of :: "RawEventPayload \<Rightarrow> string \<Rightarrow> pg \<Rightarrow> pubmsg list" where
  "event_triggers_of p contactID d = map (\<lambda>r. \<lparr>pm_Subject = ''workflow.trigger'',
       pm_Payload = PWorkflowTrigger (event_trigger p contactID),
       pm_MsgID = ''wf-'' @ tr_workflow_id r @ ''-'' @ re_EventID p\<rparr>)
     (filter (rule_matches (re_WorkspaceID p) (re_EventType p) (re_EventName p)) (workflow_triggers d))"

text \<open>Everything the handler publishes is a trigger of its event, in every environment.\<close>

definition only_triggers :: "RawEventPayload \<Rightarrow> world \<Rightarrow> world \<Rightarrow> bool" where
  "only_triggers p w w' \<longleftrightarrow> (\<exists>ps. published w' = published w @ ps \<and>
     (\<forall>m \<in> set ps. \<exists>i. pm_Payload m = PWorkflowTrigger (event_trigger p i)))"

lemma only_triggers_trans: "only_triggers p s t \<Longrightarrow> only_triggers p t u \<Longrightarrow> only_triggers p s u"
proof -
  assume a: "only_triggers p s t" "only_triggers p t u"
  obtain ps where ps: "published t = published s @ ps" "\<forall>m \<in> set ps. \<exists>i. pm_Payload m = PWorkflowTrigger (event_trigger p i)"
    using a(1) unfolding only_triggers_def by (elim exE conjE)
  obtain qs where qs: "published u = published t @ qs" "\<forall>m \<in> set qs. \<exists>i. pm_Payload m = PWorkflowTrigger (event_trigger p i)"
    using a(2) unfolding only_triggers_def by (elim exE conjE)
  have "published u = published s @ (ps @ qs)" using ps(1) qs(1) by simp
  moreover have "\<forall>m \<in> set (ps @ qs). \<exists>i. pm_Payload m = PWorkflowTrigger (event_trigger p i)"
    using ps(2) qs(2) by auto
  ultimately show ?thesis unfolding only_triggers_def by blast
qed

interpretation only_triggers: guarantee "only_triggers p" for p
  by unfold_locales ((erule (1) only_triggers_trans) | simp add: only_triggers_def)+

lemma only_triggers_quiet: "preserves published m \<Longrightarrow> state_io_rel (only_triggers p) m"
  by (auto simp: only_triggers_def state_io_rel_def preserves_def)

lemma only_triggers_Publish:
  "state_io_rel (only_triggers p) (Publish s (PWorkflowTrigger (event_trigger p i)) k)"
  by (auto simp: only_triggers_def state_io_rel_def Publish_def call_def Let_def split: prod.split fault.split)

lemma only_triggers_loop: "state_io_rel (only_triggers p) (publish_triggers p i ts)"
proof (induction ts)
  case (Cons t ts)
  show ?case unfolding publish_triggers.simps
    by (intro only_triggers.guar_bind only_triggers_Publish Cons.IH only_triggers_quiet frame) simp_all
qed (simp add: only_triggers.guar_return)

lemma only_triggers_Handle:
  assumes "Data m = Some p"
  shows "state_io_rel (only_triggers p) (Handle_event n m)"
proof -
  have q: "state_io_rel (only_triggers p) (Enrich p)" "state_io_rel (only_triggers p) (persistEnriched p res)"
    "state_io_rel (only_triggers p) (handleTransient n k p s)" "state_io_rel (only_triggers p) (GetRawEventStatus a b)"
    "state_io_rel (only_triggers p) (MarkRawEventProcessing a b)" "state_io_rel (only_triggers p) (MarkRawEventProcessed a b)"
    "state_io_rel (only_triggers p) (FindMatchingWorkflowTriggers a b c)" "state_io_rel (only_triggers p) (finish d)"
    "state_io_rel (only_triggers p) (inc_by x y)" for res k s a b c d x y
    unfolding persistEnriched_def handleTransient_def by (intro only_triggers_quiet frame; simp)+
  show ?thesis
    unfolding Handle_event_def process_event_def evaluateWorkflowTriggers_def assms option.case
    by (intro only_triggers.guar_rules event_case_enriched q only_triggers_loop)
qed

text \<open>Without a workflow id a trigger is terminated before anything happens.\<close>

lemma trigger_without_workflow:
  assumes "Data m = Some q" and "wt_WorkflowID q = ''''"
  shows "\<exists>v'. Handle_trigger n m v = Some (Done, v') \<and> settled v' = settled v @ [Term] \<and> db v' = db v \<and>
    published v' = published v \<and> mail v' = mail v \<and> redis v' = redis v"
  using assms by (simp add: Handle_trigger_def inc_by_def finish_def settle_def)

section \<open>Without faults\<close>

lemma publish_triggers_run:
  assumes "reliable (env w)"
  shows "\<exists>w'. run_state (publish_triggers p i ts) w = ((), w') \<and> db w' = db w \<and> env w' = env w \<and> settled w' = settled w \<and>
    published w' = published w @ map (\<lambda>t. \<lparr>pm_Subject = ''workflow.trigger'',
      pm_Payload = PWorkflowTrigger (event_trigger p i), pm_MsgID = trigger_msg_id p t\<rparr>) ts"
  using assms
proof (induction ts arbitrary: w)
  case (Cons t ts)
  let ?w = "(step_clock w)\<lparr>published := published w @ [\<lparr>pm_Subject = ''workflow.trigger'',
      pm_Payload = PWorkflowTrigger (event_trigger p i), pm_MsgID = trigger_msg_id p t\<rparr>],
      metrics := (metrics w)(''events_workflows_triggered_total'' := Suc (metrics w ''events_workflows_triggered_total''))\<rparr>"
  show ?case using Cons.IH [of ?w] Cons.prems
    by (simp add: Publish_def call_def Let_def inc_by_def)
qed simp

lemma finish_event_run:
  assumes "reliable (env w)" and "r = Enriched res" and "run_state (Enrich p) w = (r, w1)" and "env w1 = env w"
    and "published w1 = published w" and "settled w1 = settled w" and "workflow_triggers (db w1) = workflow_triggers (db w)"
  shows "\<exists>w'. run_state (process_event n k p) w = (Done, w') \<and> settled w' = settled w @ [Ack] \<and>
    published w' = published w @ event_triggers_of p (er_ContactID res) (db w) \<and> contacts (db w') = contacts (db w1) \<and>
    (\<exists>u t. events_enriched (db w') = events_enriched (insert_enriched (enriched_event p res) u t (db w1))) \<and>
    (\<forall>x \<in> set (events_raw (db w')). this_raw (re_EventID p) (re_WorkspaceID p) x \<longrightarrow> rw_status x = ''processed'')"
proof -
  have ins: "workflow_triggers (insert_enriched e u t d) = workflow_triggers d" "contacts (insert_enriched e u t d) = contacts d"
    for e u t d by (simp_all add: insert_enriched_def)
  obtain w2 u t where p: "run_state (persistEnriched p res) w1 = (Inr (), w2)" "env w2 = env w" "published w2 = published w"
    "settled w2 = settled w" "db w2 = insert_enriched (enriched_event p res) u t (db w1)"
    using assms(1,4-6)
    by (simp add: persistEnriched_def InsertEnrichedEvent_def new_uuid_def exec_def call_def Let_def)
  let ?rules = "map (\<lambda>r. \<lparr>rule_WorkflowID = tr_workflow_id r, rule_EventName = coalesce (tr_event_name r) '''',
      rule_EventType = coalesce (tr_event_type r) ''''\<rparr>)
     (filter (rule_matches (re_WorkspaceID p) (re_EventType p) (re_EventName p)) (workflow_triggers (db w)))"
  obtain w3 where e: "run_state (evaluateWorkflowTriggers p (er_ContactID res)) w2 = ((), w3)" "db w3 = db w2" "env w3 = env w2"
    "settled w3 = settled w2" "published w3 = published w2 @ map (\<lambda>t. \<lparr>pm_Subject = ''workflow.trigger'',
      pm_Payload = PWorkflowTrigger (event_trigger p (er_ContactID res)), pm_MsgID = trigger_msg_id p t\<rparr>) ?rules"
    using publish_triggers_run [of "step_clock w2" p "er_ContactID res" ?rules] assms(1,7) p(2,5) ins
    by (auto simp: evaluateWorkflowTriggers_def FindMatchingWorkflowTriggers_def query_def call_def Let_def)
  have pub: "published w3 = published w @ event_triggers_of p (er_ContactID res) (db w)"
    using e(5) p(3) by (simp add: event_triggers_of_def trigger_msg_id_def comp_def)
  have raw: "\<forall>x \<in> set (update_where (this_raw a b) (\<lambda>r. r\<lparr>rw_status := ''processed'', rw_processed_at := s, rw_updated_at := t\<rparr>) xs).
      this_raw a b x \<longrightarrow> rw_status x = ''processed''" for a b s t xs
    by (induction xs) (auto simp: this_raw_def)
  show ?thesis
    using assms(1-3) p e pub raw ins
    by (auto simp: process_event_def MarkRawEventProcessed_def mark_raw_processed_def exec_def call_def Let_def finish_def settle_def)
qed

text \<open>A valid event that has not been processed yet.\<close>

definition fresh_event :: "RawEventPayload \<Rightarrow> pg \<Rightarrow> bool" where
  "fresh_event p d \<longleftrightarrow> validate_event p \<and>
     (case find (this_raw (re_EventID p) (re_WorkspaceID p)) (events_raw d) of None \<Rightarrow> True | Some r \<Rightarrow> rw_status r \<noteq> ''processed'')"

lemma reach_process_event:
  assumes "reliable (env w)" and "Data m = Some p" and "fresh_event p (db w)"
  shows "\<exists>w0. run_state (Handle_event n m) w = run_state (process_event n (attempt_of m) p) w0 \<and> env w0 = env w \<and>
    contacts (db w0) = contacts (db w) \<and> events_enriched (db w0) = events_enriched (db w) \<and>
    workflow_triggers (db w0) = workflow_triggers (db w) \<and> published w0 = published w \<and> settled w0 = settled w"
proof -
  define w1 where "w1 = step_clock (step_clock (w\<lparr>metrics := (metrics w)(''events_processed_total'' :=
    metrics w ''events_processed_total'' + 1)\<rparr>))"
  define w0 where "w0 = w1\<lparr>db := mark_raw_processing (re_EventID p) (re_WorkspaceID p) (now w1) (db w)\<rparr>"
  have "run_state (Handle_event n m) w = run_state (process_event n (attempt_of m) p) w0"
    using assms
    by (cases "find (this_raw (re_EventID p) (re_WorkspaceID p)) (events_raw (db w))")
      (simp_all add: fresh_event_def Handle_event_def GetRawEventStatus_def query_def MarkRawEventProcessing_def
        exec_def call_def Let_def inc_by_def w0_def w1_def)
  then show ?thesis by (intro exI [of _ w0]) (simp add: w0_def w1_def mark_raw_processing_def)
qed

lemma find_append_none: "find P xs = None \<Longrightarrow> find P (xs @ ys) = find P ys"
  by (induction xs) (auto split: if_splits)

section \<open>Merging traits\<close>

lemma map_of_put_entry: "map_of (put_entry k v m) = (map_of m)(k \<mapsto> v)"
proof
  fix x
  have "map_of (filter (\<lambda>(k', _). k' \<noteq> k) m) x = (if x = k then None else map_of m x)" by (induction m) auto
  then show "map_of (put_entry k v m) x = ((map_of m)(k \<mapsto> v)) x"
    by (auto simp: put_entry_def map_add_def split: option.split)
qed

lemma merge_into_map:
  assumes "distinct (map fst kvs)"
  shows "\<exists>m'. merge_into kvs (Some m) = Some (Some m') \<and>
    (\<forall>k. map_of m' k = (case map_of kvs k of None \<Rightarrow> map_of m k | Some v \<Rightarrow> if v = JNull then map_of m k else Some v))"
  using assms
proof (induction kvs arbitrary: m)
  case (Cons kv kvs)
  obtain k v where kv: "kv = (k, v)" by (cases kv)
  then have none: "map_of kvs k = None" using Cons.prems by (simp add: map_of_eq_None_iff)
  obtain m' where "merge_into kvs (Some (if v = JNull then m else put_entry k v m)) = Some (Some m')"
    "\<forall>x. map_of m' x = (case map_of kvs x of None \<Rightarrow> map_of (if v = JNull then m else put_entry k v m) x
       | Some y \<Rightarrow> if y = JNull then map_of (if v = JNull then m else put_entry k v m) x else Some y)"
    using Cons by fastforce
  then show ?case using kv none
    by (intro exI [of _ m']) (auto simp: map_of_put_entry split: option.split if_splits)
qed simp

lemma merge_into_nil: "\<exists>x \<in> set kvs. snd x \<noteq> JNull \<Longrightarrow> merge_into kvs None = None"
proof (induction kvs)
  case (Cons kv kvs)
  then show ?case by (cases kv) force
qed simp

section \<open>Properties\<close>

text \<open>Events of a user \<open>u1\<close> and a world with a contact of that user and one of an anonymous visitor.\<close>

definition sample_event :: "string \<Rightarrow> string \<Rightarrow> gomap \<Rightarrow> RawEventPayload" where
  "sample_event ty anonymousID traits = \<lparr>re_EventID = ''e'', re_WorkspaceID = ''w'', re_APIKeyID = '''', re_EventType = ty,
     re_EventName = ''signup'', re_UserID = ''u1'', re_AnonymousID = anonymousID, re_GroupID = '''', re_Traits = traits,
     re_Properties = None, re_Context = None, re_ReceivedAt = 0\<rparr>"

definition event_world :: "contact_row list \<Rightarrow> world" where
  "event_world cs = quiet_world\<lparr>db := empty_pg\<lparr>contacts := cs,
     workflow_triggers := [\<lparr>tr_workflow_id = ''f'', tr_workspace_id = ''w'', tr_event_name = None, tr_event_type = None,
       tr_active = True\<rparr>]\<rparr>\<rparr>"

definition known_person :: contact_row where
  "known_person = new_contact ''c'' ''w'' (Some ''u1'') None (JObj [(''plan'', JStr ''free''), (''age'', JNum 3 1)]) 0"

definition visitor :: contact_row where
  "visitor = new_contact ''d'' ''w'' None (Some ''a1'') (JObj []) 0"

lemma event_world_simps [simp]:
  "reliable (env (event_world cs))" "contacts (db (event_world cs)) = cs" "fresh_event (sample_event ''track'' a t) (db (event_world cs))"
  "fresh_event (sample_event ''alias'' a t) (db (event_world cs))" "\<not> has_enriched p (db (event_world cs))"
  "settled (event_world cs) = []"
  by (simp_all add: event_world_def quiet_world_def empty_pg_def fresh_event_def validate_event_def sample_event_def has_enriched_def)

text \<open>
  Claim C20. In every environment, faults, panics and lost acknowledgements included, handling an event
  leaves the contacts of other workspaces, the other raw events and every other table alone, and appends
  at most one enriched row, for this event, and only if it has none yet: so no redelivery
  enriches an event twice.
\<close>

theorem event_stays_inside:
  assumes "Data m = Some p"
  shows "event_evolves p w (snd (run_state (Handle_event n m) w))"
  using event_Handle [OF assms] by (simp add: state_io_rel_def)

lemma event_stays_inside_witness:
  "event_evolves (sample_event ''track'' '''' None) (event_world [visitor])
    (snd (run_state (Handle_event 5 \<lparr>Data = Some (sample_event ''track'' '''' None), NumDelivered = None\<rparr>) (event_world [visitor])))"
  by (rule event_stays_inside) simp

text \<open>
  Claim C19. A plain event of a known user, one that neither identifies nor aliases, where the stored traits of
  the contact are an object or NULL: without faults it is acknowledged, its enriched row carries the
  contact and the traits of the contact overridden by the non-null traits of the event, the contact itself
  stays as it is, one message per matching trigger rule is published, and the raw event is processed.
\<close>

theorem known_contact_enriched:
  assumes "reliable (env w)" and "Data m = Some p" and "fresh_event p (db w)" and "\<not> has_enriched p (db w)"
    and "re_EventType p \<noteq> ''identify'' \<and> re_EventType p \<noteq> ''alias''" and "re_UserID p \<noteq> ''''"
    and "find (has_user (re_WorkspaceID p) (re_UserID p)) (contacts (db w)) = Some c"
    and "coalesce (ct_traits c) (JObj []) = JObj base" and "distinct (map fst (coalesce (re_Traits p) []))"
  shows "\<exists>w' e traits. run_state (Handle_event n m) w = (Done, w') \<and> settled w' = settled w @ [Ack] \<and>
    contacts (db w') = contacts (db w) \<and> events_enriched (db w') = events_enriched (db w) @ [e] \<and>
    en_raw_event_id e = re_EventID p \<and> en_contact_id e = Some (id_text c) \<and> en_traits e = JObj traits \<and>
    (\<forall>k. map_of traits k = (case map_of (coalesce (re_Traits p) []) k of None \<Rightarrow> map_of base k
       | Some v \<Rightarrow> if v = JNull then map_of base k else Some v)) \<and>
    published w' = published w @ event_triggers_of p (id_text c) (db w) \<and>
    (\<forall>x \<in> set (events_raw (db w')). this_raw (re_EventID p) (re_WorkspaceID p) x \<longrightarrow> rw_status x = ''processed'')"
proof -
  obtain w0 where w0: "run_state (Handle_event n m) w = run_state (process_event n (attempt_of m) p) w0" "env w0 = env w"
    "contacts (db w0) = contacts (db w)" "events_enriched (db w0) = events_enriched (db w)"
    "workflow_triggers (db w0) = workflow_triggers (db w)" "published w0 = published w" "settled w0 = settled w"
    using reach_process_event [OF assms(1-3), of n] by blast
  obtain traits where t: "mergeTraits (JObj base) (re_Traits p) = Some (Some traits)"
    "\<forall>k. map_of traits k = (case map_of (coalesce (re_Traits p) []) k of None \<Rightarrow> map_of base k
       | Some v \<Rightarrow> if v = JNull then map_of base k else Some v)"
    using merge_into_map [OF assms(9), of base] by (auto simp: mergeTraits_def base_traits_def)
  let ?res = "\<lparr>er_ContactID = id_text c, er_MergedTraits = Some traits, er_EnrichedData = [(''eventType'', JStr (re_EventType p))]\<rparr>"
  have "run_state (Enrich p) w0 = (Enriched ?res, step_clock w0)"
    using assms(1,5-8) w0 t(1)
    by (simp add: Enrich_def handleTrack_def FindContactByUserID_def query_def call_def Let_def merged_with_def linked_def contact_row_of_def)
  then obtain w' u x where w': "run_state (process_event n (attempt_of m) p) w0 = (Done, w')" "settled w' = settled w @ [Ack]"
    "published w' = published w @ event_triggers_of p (id_text c) (db w0)" "contacts (db w') = contacts (db w)"
    "events_enriched (db w') = events_enriched (insert_enriched (enriched_event p ?res) u x (db w0))"
    "\<forall>x \<in> set (events_raw (db w')). this_raw (re_EventID p) (re_WorkspaceID p) x \<longrightarrow> rw_status x = ''processed''"
    using finish_event_run [of w0 "Enriched ?res" ?res p "step_clock w0" n "attempt_of m"] assms(1) w0 by auto
  have "event_triggers_of p (id_text c) (db w0) = event_triggers_of p (id_text c) (db w)"
    using w0 by (simp add: event_triggers_of_def)
  moreover have "\<exists>e. events_enriched (insert_enriched (enriched_event p ?res) u x (db w0)) = events_enriched (db w) @ [e] \<and>
      en_raw_event_id e = re_EventID p \<and> en_contact_id e = Some (id_text c) \<and> en_traits e = JObj traits"
    using assms(4) w0(4) by (simp add: insert_enriched_def enriched_event_def has_enriched_def nullif_empty_def id_text_def)
  ultimately show ?thesis using w0(1) w' t(2) by auto
qed

lemma known_contact_enriched_witness:
  "\<exists>w' e traits. run_state (Handle_event 5 \<lparr>Data = Some (sample_event ''track'' '''' (Some [(''plan'', JStr ''pro'')])), NumDelivered = None\<rparr>)
       (event_world [known_person]) = (Done, w') \<and>
     events_enriched (db w') = [e] \<and> en_contact_id e = Some ''c'' \<and> en_traits e = JObj traits \<and>
     map_of traits ''plan'' = Some (JStr ''pro'') \<and> map_of traits ''age'' = Some (JNum 3 1) \<and> length (published w') = 1"
proof -
  let ?p = "sample_event ''track'' '''' (Some [(''plan'', JStr ''pro'')])"
  have h: "find (has_user (re_WorkspaceID ?p) (re_UserID ?p)) (contacts (db (event_world [known_person]))) = Some known_person"
    "coalesce (ct_traits known_person) (JObj []) = JObj [(''plan'', JStr ''free''), (''age'', JNum 3 1)]"
    "re_EventType ?p \<noteq> ''identify'' \<and> re_EventType ?p \<noteq> ''alias''" "re_UserID ?p \<noteq> ''''"
    "distinct (map fst (coalesce (re_Traits ?p) []))"
    by (simp_all add: sample_event_def known_person_def new_contact_def has_user_def)
  have i: "id_text known_person = ''c''" by (simp add: known_person_def new_contact_def id_text_def)
  have t: "length (event_triggers_of ?p i (db (event_world cs))) = 1" "events_enriched (db (event_world cs)) = []"
    "published (event_world cs) = []" for i cs
    by (simp_all add: event_triggers_of_def event_world_def quiet_world_def empty_pg_def sample_event_def rule_matches_def)
  have m: "coalesce (re_Traits ?p) [] = [(''plan'', JStr ''pro'')]" by (simp add: sample_event_def)
  obtain w' e traits where w': "run_state (Handle_event 5 \<lparr>Data = Some ?p, NumDelivered = None\<rparr>) (event_world [known_person]) = (Done, w')"
    "events_enriched (db w') = [e]" "en_contact_id e = Some ''c''" "en_traits e = JObj traits"
    "\<forall>k. map_of traits k = (case map_of [(''plan'', JStr ''pro'')] k of
       None \<Rightarrow> map_of [(''plan'', JStr ''free''), (''age'', JNum 3 1)] k
       | Some v \<Rightarrow> if v = JNull then map_of [(''plan'', JStr ''free''), (''age'', JNum 3 1)] k else Some v)"
    "published w' = event_triggers_of ?p ''c'' (db (event_world [known_person]))"
    using known_contact_enriched [OF event_world_simps(1) _ event_world_simps(3,5) h(3,4,1,2,5),
        of "\<lparr>Data = Some ?p, NumDelivered = None\<rparr>" 5] i t m by auto
  have "map_of traits ''plan'' = Some (JStr ''pro'')" "map_of traits ''age'' = Some (JNum 3 1)"
    using spec [OF w'(5), of "''plan''"] spec [OF w'(5), of "''age''"] by simp_all
  then show ?thesis using w' t by auto
qed

text \<open>
  Claim C31. An event never starts a workflow. Whatever the environment, every message the event handler
  publishes is a trigger without a workflow id, and the trigger handler terminates such a message before
  it touches the database, the queue or a lock.
\<close>

theorem event_triggers_are_terminated:
  assumes "Data m = Some p"
  shows "\<exists>ps. published (snd (run_state (Handle_event n m) w)) = published w @ ps \<and>
    (\<forall>x \<in> set ps. \<exists>q. pm_Payload x = PWorkflowTrigger q \<and>
      (\<forall>n' k v. \<exists>v'. Handle_trigger n' \<lparr>Data = Some q, NumDelivered = k\<rparr> v = Some (Done, v') \<and>
        settled v' = settled v @ [Term] \<and> db v' = db v \<and> published v' = published v \<and> mail v' = mail v \<and> redis v' = redis v))"
proof -
  have "only_triggers p w (snd (run_state (Handle_event n m) w))"
    using only_triggers_Handle [OF assms] by (simp add: state_io_rel_def)
  then obtain ps where ps: "published (snd (run_state (Handle_event n m) w)) = published w @ ps"
    "\<forall>x \<in> set ps. \<exists>i. pm_Payload x = PWorkflowTrigger (event_trigger p i)"
    unfolding only_triggers_def by blast
  have "\<exists>v'. Handle_trigger n' \<lparr>Data = Some (event_trigger p i), NumDelivered = k\<rparr> v = Some (Done, v') \<and>
      settled v' = settled v @ [Term] \<and> db v' = db v \<and> published v' = published v \<and> mail v' = mail v \<and> redis v' = redis v"
    for n' i k v by (rule trigger_without_workflow [where q = "event_trigger p i"]) (simp_all add: event_trigger_def)
  then show ?thesis using ps by blast
qed

lemma event_triggers_are_terminated_witness:
  "\<exists>ps. published (snd (run_state (Handle_event 5 \<lparr>Data = Some (sample_event ''track'' '''' None), NumDelivered = None\<rparr>)
      (event_world [known_person]))) = published (event_world [known_person]) @ ps \<and>
    (\<forall>x \<in> set ps. \<exists>q. pm_Payload x = PWorkflowTrigger q \<and>
      (\<forall>n' k v. \<exists>v'. Handle_trigger n' \<lparr>Data = Some q, NumDelivered = k\<rparr> v = Some (Done, v') \<and>
        settled v' = settled v @ [Term] \<and> db v' = db v \<and> published v' = published v \<and> mail v' = mail v \<and> redis v' = redis v))"
  by (rule event_triggers_are_terminated) simp

text \<open>
  Claim C33. Identities are never stitched. When an anonymous profile exists, an identify or alias event
  that links its id to another user breaks the uniqueness of anonymous ids in the first statement it makes:
  the event is retried, and failed at the last attempt, and no contact changes.
\<close>

theorem stitching_always_fails:
  assumes "reliable (env w)" and "Data m = Some p" and "fresh_event p (db w)"
    and "re_EventType p = ''identify'' \<or> re_EventType p = ''alias''" and "re_UserID p \<noteq> ''''" and "re_AnonymousID p \<noteq> ''''"
    and "c \<in> set (contacts (db w))" and "has_anonymous (re_WorkspaceID p) (re_AnonymousID p) c"
    and "ct_user_id c \<noteq> Some (re_UserID p)" and "distinct (map ct_id (contacts (db w)))"
  shows "\<exists>w'. run_state (Handle_event n m) w = (Done, w') \<and> contacts (db w') = contacts (db w) \<and>
    events_enriched (db w') = events_enriched (db w) \<and> published w' = published w \<and>
    settled w' = settled w @ [if int (attempt_of m) \<ge> n then Term else Nak]"
proof -
  obtain w0 where w0: "run_state (Handle_event n m) w = run_state (process_event n (attempt_of m) p) w0" "env w0 = env w"
    "contacts (db w0) = contacts (db w)" "events_enriched (db w0) = events_enriched (db w)" "published w0 = published w"
    "settled w0 = settled w"
    using reach_process_event [OF assms(1-3), of n] by blast
  have a: "nullif_empty (re_AnonymousID p) = Some (re_AnonymousID p)" using assms(6) by (simp add: nullif_empty_def)
  have "upsert_contact (re_WorkspaceID p) (re_UserID p) (re_AnonymousID p) tr u t (db w0) = (Inl unique_violation, db w0)" for tr u t
  proof (cases "find (has_user (re_WorkspaceID p) (re_UserID p)) (contacts (db w))")
    case None
    then show ?thesis using assms(7,8) w0(3) a by (auto simp: upsert_contact_def anonymous_taken_def list_ex_iff)
  next
    case (Some r)
    then have "r \<in> set (contacts (db w))" "ct_user_id r = Some (re_UserID p)" by (auto dest!: find_SomeD simp: has_user_def)
    then have "ct_id c \<noteq> ct_id r" using assms(7,9,10) by (metis distinct_map inj_onD)
    then show ?thesis using Some assms(7,8) w0(3) a by (auto simp: upsert_contact_def anonymous_taken_def list_ex_iff Let_def)
  qed
  then have u: "run_state (UpsertContact (re_WorkspaceID p) (re_UserID p) (re_AnonymousID p) tr) w0 =
      (Inl unique_violation, (step_clock (w0\<lparr>uuid_next := Suc (uuid_next w0)\<rparr>)))" for tr
    using assms(1) w0(2)
    by (simp add: UpsertContact_def new_uuid_def exec_returning_def call_def Let_def)
  have "\<exists>e. run_state (Enrich p) w0 = (EnrichErr e, step_clock (w0\<lparr>uuid_next := Suc (uuid_next w0)\<rparr>))"
    using assms(4-6) u by (auto simp: Enrich_def handleIdentify_def handleAlias_def Let_def)
  then obtain e where e: "run_state (Enrich p) w0 = (EnrichErr e, step_clock (w0\<lparr>uuid_next := Suc (uuid_next w0)\<rparr>))" ..
  show ?thesis using e w0 assms(1)
    by (simp add: process_event_def handleTransient_def MarkRawEventFailed_def mark_raw_failed_def exec_def call_def Let_def
        inc_by_def finish_def settle_def)
qed

lemma stitching_always_fails_witness:
  "\<exists>w'. run_state (Handle_event 5 \<lparr>Data = Some (sample_event ''alias'' ''a1'' None), NumDelivered = Some 5\<rparr>)
      (event_world [known_person, visitor]) = (Done, w') \<and> contacts (db w') = [known_person, visitor] \<and> settled w' = [Term]"
proof -
  let ?p = "sample_event ''alias'' ''a1'' None" and ?m = "\<lparr>Data = Some (sample_event ''alias'' ''a1'' None), NumDelivered = Some 5\<rparr>"
  have h: "Data ?m = Some ?p" "re_EventType ?p = ''identify'' \<or> re_EventType ?p = ''alias''" "re_UserID ?p \<noteq> ''''" "re_AnonymousID ?p \<noteq> ''''"
    "visitor \<in> set (contacts (db (event_world [known_person, visitor])))" "has_anonymous (re_WorkspaceID ?p) (re_AnonymousID ?p) visitor"
    "ct_user_id visitor \<noteq> Some (re_UserID ?p)" "distinct (map ct_id (contacts (db (event_world [known_person, visitor]))))"
    by (simp_all add: sample_event_def has_anonymous_def visitor_def known_person_def new_contact_def)
  show ?thesis
    using stitching_always_fails [OF event_world_simps(1) h(1) event_world_simps(4) h(2-8), of 5]
    by (auto simp: attempt_of_def)
qed

text \<open>The stored traits of the contact of a user are the JSON value \<^verbatim>\<open>null\<close>.\<close>

definition traits_are_null :: "string \<Rightarrow> string \<Rightarrow> pg \<Rightarrow> bool" where
  "traits_are_null workspaceID userID d \<longleftrightarrow>
     (\<exists>c. find (has_user workspaceID userID) (contacts d) = Some c \<and> ct_traits c = Some JNull)"

text \<open>An event that neither identifies nor aliases, and one that carries a trait with a value.\<close>

definition plain_event :: "RawEventPayload \<Rightarrow> bool" where
  "plain_event p \<longleftrightarrow> re_EventType p \<noteq> ''identify'' \<and> re_EventType p \<noteq> ''alias''"

definition has_trait :: "RawEventPayload \<Rightarrow> bool" where
  "has_trait p \<longleftrightarrow> (\<exists>x \<in> set (coalesce (re_Traits p) []). snd x \<noteq> JNull)"

lemma null_traits_panic:
  assumes "reliable (env v)" and "Data m = Some q" and "fresh_event q (db v)" and "plain_event q" and "re_UserID q \<noteq> ''''"
    and "traits_are_null (re_WorkspaceID q) (re_UserID q) (db v)" and "has_trait q"
  shows "\<exists>v'. run_state (Handle_event n m) v = (Panic, v') \<and> settled v' = settled v \<and> contacts (db v') = contacts (db v) \<and>
    events_enriched (db v') = events_enriched (db v) \<and> published v' = published v"
proof -
  obtain v0 where v0: "run_state (Handle_event n m) v = run_state (process_event n (attempt_of m) q) v0" "env v0 = env v"
    "contacts (db v0) = contacts (db v)" "events_enriched (db v0) = events_enriched (db v)" "published v0 = published v"
    "settled v0 = settled v"
    using reach_process_event [OF assms(1-3), of n] by blast
  obtain c where c: "find (has_user (re_WorkspaceID q) (re_UserID q)) (contacts (db v)) = Some c" "ct_traits c = Some JNull"
    using assms(6) by (auto simp: traits_are_null_def)
  have m: "mergeTraits JNull (re_Traits q) = None"
    using merge_into_nil [OF assms(7) [unfolded has_trait_def]] by (simp add: mergeTraits_def base_traits_def)
  have "run_state (Enrich q) v0 = (EnrichPanic, step_clock v0)"
    using assms(1,4,5) v0 m c
    by (simp add: Enrich_def handleTrack_def FindContactByUserID_def query_def call_def Let_def merged_with_def contact_row_of_def
        plain_event_def)
  then show ?thesis using v0 by (simp add: process_event_def)
qed

text \<open>An identify event of the user, by contrast, never merges in memory: it is stored, and ends the state.\<close>

lemma identify_ends_null_traits:
  assumes "reliable (env v)" and "Data m = Some q" and "fresh_event q (db v)" and "re_EventType q = ''identify''"
    and "re_UserID q \<noteq> ''''" and "re_AnonymousID q = ''''"
    and c: "find (has_user (re_WorkspaceID q) (re_UserID q)) (contacts (db v)) = Some c"
      "ct_traits c = Some JNull" "ct_anonymous_id c = None"
  shows "\<exists>v'. run_state (Handle_event n m) v = (Done, v') \<and> settled v' = settled v @ [Ack] \<and>
    \<not> traits_are_null (re_WorkspaceID q) (re_UserID q) (db v')"
proof -
  obtain v0 where v0: "run_state (Handle_event n m) v = run_state (process_event n (attempt_of m) q) v0" "env v0 = env v"
    "contacts (db v0) = contacts (db v)" "published v0 = published v" "settled v0 = settled v"
    using reach_process_event [OF assms(1-3), of n] by blast
  define v1 where "v1 = step_clock (v0\<lparr>uuid_next := Suc (uuid_next v0)\<rparr>)"
  let ?u = "has_user (re_WorkspaceID q) (re_UserID q)"
  let ?f = "\<lambda>c. c\<lparr>ct_traits := map_option (\<lambda>x. jsonb_concat x (marshal (re_Traits q))) (ct_traits c), ct_anonymous_id := None,
    ct_updated_at := now v1\<rparr>"
  have "\<exists>res. run_state (Enrich q) v0 = (Enriched res, v1\<lparr>db := (db v0)\<lparr>contacts := update_where ?u ?f (contacts (db v0))\<rparr>\<rparr>)"
    using assms(1,4-6) c v0
    by (simp add: Enrich_def handleIdentify_def UpsertContact_def exec_returning_def call_def Let_def
        new_uuid_def upsert_contact_def anonymous_taken_def nullif_empty_def linked_def v1_def)
  then obtain res where e: "run_state (Enrich q) v0 = (Enriched res, v1\<lparr>db := (db v0)\<lparr>contacts := update_where ?u ?f (contacts (db v0))\<rparr>\<rparr>)" ..
  obtain v' where v': "run_state (process_event n (attempt_of m) q) v0 = (Done, v')" "settled v' = settled v @ [Ack]"
    "contacts (db v') = update_where ?u ?f (contacts (db v))"
    using finish_event_run [OF _ refl e, of n "attempt_of m"] assms(1) v0 by (auto simp: v1_def)
  have "find ?u (update_where ?u ?f cs) = map_option ?f (find ?u cs)" for cs
    by (induction cs) (auto simp: update_where_def has_user_def)
  moreover have "jsonb_concat JNull x \<noteq> JNull" for x by simp
  ultimately have "\<not> traits_are_null (re_WorkspaceID q) (re_UserID q) (db v')"
    using c v'(3) by (auto simp: traits_are_null_def)
  then show ?thesis using v' v0(1) by auto
qed

text \<open>
  Claim C36. A first event without traits poisons its contact, faults apart. The event of an unknown user is
  acknowledged and leaves a contact whose traits are the JSON value \<^verbatim>\<open>null\<close>. As long as the stored traits of
  the contact are null, in whatever world, an event of the user that carries a trait panics and is
  negatively acknowledged at every attempt, with no contact changed, so that they stay null, nothing enriched
  and nothing published. Identify and alias events are excepted: they
  do not merge in memory, and the first of them that is stored ends the state
  (\<open>identify_ends_null_traits\<close>).
\<close>

theorem null_traits_poison_contact:
  assumes "reliable (env w)" and "Data m = Some p" and "fresh_event p (db w)"
    and "plain_event p" and "re_UserID p \<noteq> ''''" and "re_AnonymousID p = ''''"
    and "find (has_user (re_WorkspaceID p) (re_UserID p)) (contacts (db w)) = None" and "re_Traits p = None"
  shows "(\<exists>w'. run_state (Handle_event n m) w = (Done, w') \<and> settled w' = settled w @ [Ack] \<and>
      traits_are_null (re_WorkspaceID p) (re_UserID p) (db w')) \<and>
    (\<forall>v q k. reliable (env v) \<longrightarrow> traits_are_null (re_WorkspaceID p) (re_UserID p) (db v) \<longrightarrow> fresh_event q (db v) \<longrightarrow>
       plain_event q \<longrightarrow> re_WorkspaceID q = re_WorkspaceID p \<longrightarrow> re_UserID q = re_UserID p \<longrightarrow> has_trait q \<longrightarrow>
       (\<exists>v'. run_state (dispatch (Handle_event n) \<lparr>Data = Some q, NumDelivered = k\<rparr>) v = ((), v') \<and>
          settled v' = settled v @ [Nak] \<and> contacts (db v') = contacts (db v) \<and>
          events_enriched (db v') = events_enriched (db v) \<and> published v' = published v))"
proof (intro conjI allI impI)
  obtain w0 where w0: "run_state (Handle_event n m) w = run_state (process_event n (attempt_of m) p) w0" "env w0 = env w"
    "contacts (db w0) = contacts (db w)" "settled w0 = settled w" "published w0 = published w"
    using reach_process_event [OF assms(1-3), of n] by blast
  define w1 where "w1 = step_clock ((step_clock w0)\<lparr>uuid_next := Suc (uuid_next w0)\<rparr>)"
  define c where "c = new_contact (uuids (env w) (uuid_next w0)) (re_WorkspaceID p) (Some (re_UserID p)) None JNull (now w1)"
  have "\<exists>res. run_state (Enrich p) w0 = (Enriched res, w1\<lparr>db := (db w0)\<lparr>contacts := contacts (db w0) @ [c]\<rparr>\<rparr>)"
    using assms(1,4-8) w0
    by (simp add: Enrich_def handleTrack_def FindContactByUserID_def UpsertContact_def query_def exec_returning_def call_def Let_def
        new_uuid_def upsert_contact_def anonymous_taken_def nullif_empty_def linked_def c_def w1_def plain_event_def)
  then obtain res where e: "run_state (Enrich p) w0 = (Enriched res, w1\<lparr>db := (db w0)\<lparr>contacts := contacts (db w0) @ [c]\<rparr>\<rparr>)" ..
  obtain w' where w': "run_state (process_event n (attempt_of m) p) w0 = (Done, w')" "settled w' = settled w @ [Ack]"
    "contacts (db w') = contacts (db w) @ [c]"
    using finish_event_run [OF _ refl e, of n "attempt_of m"] assms(1) w0 by (auto simp: w1_def)
  have "ct_traits c = Some JNull" "has_user (re_WorkspaceID p) (re_UserID p) c"
    by (simp_all add: c_def new_contact_def has_user_def)
  then have "traits_are_null (re_WorkspaceID p) (re_UserID p) (db w')"
    using assms(7) w'(3) by (simp add: find_append_none traits_are_null_def)
  then show "\<exists>w'. run_state (Handle_event n m) w = (Done, w') \<and> settled w' = settled w @ [Ack] \<and>
      traits_are_null (re_WorkspaceID p) (re_UserID p) (db w')"
    using w' w0(1) by auto
next
  fix v :: world and q k
  assume "reliable (env v)" "traits_are_null (re_WorkspaceID p) (re_UserID p) (db v)" "fresh_event q (db v)"
    "plain_event q" "re_WorkspaceID q = re_WorkspaceID p" "re_UserID q = re_UserID p" "has_trait q"
  then show "\<exists>v'. run_state (dispatch (Handle_event n) \<lparr>Data = Some q, NumDelivered = k\<rparr>) v = ((), v') \<and>
      settled v' = settled v @ [Nak] \<and> contacts (db v') = contacts (db v) \<and>
      events_enriched (db v') = events_enriched (db v) \<and> published v' = published v"
    using null_traits_panic [of v "\<lparr>Data = Some q, NumDelivered = k\<rparr>" q n] assms(5)
    by (auto simp: dispatch_def settle_def)
qed

lemma null_traits_poison_contact_witness:
  "\<exists>w' v'. run_state (Handle_event 5 \<lparr>Data = Some (sample_event ''track'' '''' None), NumDelivered = None\<rparr>) (event_world []) = (Done, w') \<and>
     run_state (dispatch (Handle_event 5) \<lparr>Data = Some (sample_event ''track'' '''' (Some [(''plan'', JStr ''pro'')])), NumDelivered = Some 5\<rparr>)
       (event_world (contacts (db w'))) = ((), v') \<and> settled v' = [Nak]"
proof -
  let ?p = "sample_event ''track'' '''' None" and ?q = "sample_event ''track'' '''' (Some [(''plan'', JStr ''pro'')])"
  have h: "Data \<lparr>Data = Some ?p, NumDelivered = None\<rparr> = Some ?p" "plain_event ?p"
    "re_UserID ?p \<noteq> ''''" "re_AnonymousID ?p = ''''"
    "find (has_user (re_WorkspaceID ?p) (re_UserID ?p)) (contacts (db (event_world []))) = None" "re_Traits ?p = None"
    by (simp_all add: sample_event_def plain_event_def)
  note both = null_traits_poison_contact [OF event_world_simps(1) h(1) event_world_simps(3) h(2-6), of 5]
  obtain w' where w': "run_state (Handle_event 5 \<lparr>Data = Some ?p, NumDelivered = None\<rparr>) (event_world []) = (Done, w')"
    "traits_are_null (re_WorkspaceID ?p) (re_UserID ?p) (db w')"
    using both [THEN conjunct1] by blast
  have q: "plain_event ?q" "re_WorkspaceID ?q = re_WorkspaceID ?p" "re_UserID ?q = re_UserID ?p" "has_trait ?q"
    by (simp_all add: sample_event_def plain_event_def has_trait_def)
  have "traits_are_null (re_WorkspaceID ?p) (re_UserID ?p) (db (event_world (contacts (db w'))))"
    using w'(2) by (simp add: traits_are_null_def)
  from both [THEN conjunct2, rule_format, OF event_world_simps(1) this event_world_simps(3) q, of "Some 5"]
  obtain v' where "run_state (dispatch (Handle_event 5) \<lparr>Data = Some ?q, NumDelivered = Some 5\<rparr>)
      (event_world (contacts (db w'))) = ((), v')" "settled v' = settled (event_world (contacts (db w'))) @ [Nak]"
    by blast
  then show ?thesis using w'(1) by auto
qed

end
