(* ===== verification/Wiring.thy ===== *)
theory Wiring
  imports TransactionalEmail CampaignChunk CampaignStart Domains Cleanup Segments EventWorker
begin

text \<open>
  How the binary puts the parts together: the settings of \<^verbatim>\<open>internal/config/config.go\<close>, the streams of
  \<^verbatim>\<open>internal/infra/nats/client.go\<close>, the consumers that \<^verbatim>\<open>cmd/workers/main.go\<close> registers, and the ticker
  loops of the four schedulers.
\<close>

section \<open>Settings\<close>

record Config =
  NatsURL :: string
  DatabaseURL :: string
  RedisURL :: string
  AWSRegion :: string
  MetricsPort :: int
  SESRateLimitPerSec :: int
  CampaignChunkSize :: int
  EventMaxRetries :: int
  EventBatchSize :: int
  SegmentMaxRetries :: int
  WorkflowMaxRetries :: int
  WorkflowSchedulerPollInterval :: int
  CampaignSchedulerPollInterval :: int
  DomainCleanupInterval :: int
  DomainVerificationStaleAfter :: int
  DataCleanupInterval :: int
  DataRetainFor :: int

text \<open>The defaults of the struct tags; the four addresses have none.\<close>

definition default_config :: Config where
  "default_config = \<lparr>NatsURL = '''', DatabaseURL = '''', RedisURL = '''', AWSRegion = '''', MetricsPort = 9090,
     SESRateLimitPerSec = 14, CampaignChunkSize = 500, EventMaxRetries = 5,
     EventBatchSize = 100, SegmentMaxRetries = 5, WorkflowMaxRetries = 5, WorkflowSchedulerPollInterval = 30 * Second,
     CampaignSchedulerPollInterval = 60 * Second, DomainCleanupInterval = 6 * Hour,
     DomainVerificationStaleAfter = 720 * Hour, DataCleanupInterval = 6 * Hour, DataRetainFor = 1080 * Hour\<rparr>"

section \<open>Streams\<close>

datatype RetentionPolicy = WorkQueuePolicy | LimitsPolicy

record StreamConfig =
  st_Name :: string
  st_Subjects :: "string list"
  st_Retention :: RetentionPolicy
  st_MaxAge :: int
  st_Duplicates :: int

definition streams :: "StreamConfig list" where
  "streams =
    [\<lparr>st_Name = ''DOMAIN'', st_Subjects = [''domain.>''], st_Retention = WorkQueuePolicy, st_MaxAge = 0, st_Duplicates = 0\<rparr>,
     \<lparr>st_Name = ''EMAIL_SEND'', st_Subjects = [''email.send.>''], st_Retention = WorkQueuePolicy, st_MaxAge = 24 * Hour, st_Duplicates = 0\<rparr>,
     \<lparr>st_Name = ''CAMPAIGN'', st_Subjects = [''campaign.>''], st_Retention = WorkQueuePolicy, st_MaxAge = 48 * Hour, st_Duplicates = 30 * Minute\<rparr>,
     \<lparr>st_Name = ''EMAIL_EVENTS'', st_Subjects = [''email.delivery.>''], st_Retention = LimitsPolicy, st_MaxAge = 7 * 24 * Hour, st_Duplicates = 10 * Minute\<rparr>,
     \<lparr>st_Name = ''EVENTS_RAW'', st_Subjects = [''events.raw.>''], st_Retention = WorkQueuePolicy, st_MaxAge = 48 * Hour, st_Duplicates = 24 * Hour\<rparr>,
     \<lparr>st_Name = ''WORKFLOW'', st_Subjects = [''workflow.>''], st_Retention = LimitsPolicy, st_MaxAge = 7 * 24 * Hour, st_Duplicates = 10 * Minute\<rparr>,
     \<lparr>st_Name = ''SEGMENTS'', st_Subjects = [''segment.>''], st_Retention = WorkQueuePolicy, st_MaxAge = 24 * Hour, st_Duplicates = 5 * Minute\<rparr>]"

section \<open>Consumers\<close>

record ConsumerConfig =
  cc_Stream :: string
  cc_Subject :: string
  cc_DurableName :: string
  cc_MaxDeliver :: int
  cc_AckWait :: int
  cc_BackOff :: "int list"
  cc_HandlerTimeout :: int

text \<open>The \<^verbatim>\<open>RetryDelays\<close> that the event, segment and workflow workers share, in three copies.\<close>

definition worker_retry_delays :: "int list" where
  "worker_retry_delays = [1 * Minute, 5 * Minute, 15 * Minute, 30 * Minute]"

definition consumers :: "Config \<Rightarrow> ConsumerConfig list" where
  "consumers cfg =
    [\<lparr>cc_Stream = ''DOMAIN'', cc_Subject = ''domain.verify.poll'', cc_DurableName = ''domain-verify-worker'', cc_MaxDeliver = - 1,
      cc_AckWait = 60 * Second, cc_BackOff = [], cc_HandlerTimeout = 30 * Second\<rparr>,
     \<lparr>cc_Stream = ''EMAIL_SEND'', cc_Subject = ''email.send.transactional'', cc_DurableName = ''email-send-worker'',
      cc_MaxDeliver = int MaxAttempts, cc_AckWait = 90 * Second, cc_BackOff = RetryDelays, cc_HandlerTimeout = 60 * Second\<rparr>,
     \<lparr>cc_Stream = ''CAMPAIGN'', cc_Subject = ''campaign.send.start'', cc_DurableName = ''campaign-start-worker'',
      cc_MaxDeliver = int MaxAttempts, cc_AckWait = 5 * Minute, cc_BackOff = RetryDelays, cc_HandlerTimeout = 10 * Minute\<rparr>,
     \<lparr>cc_Stream = ''CAMPAIGN'', cc_Subject = ''campaign.send.chunk'', cc_DurableName = ''campaign-chunk-worker'',
      cc_MaxDeliver = int MaxAttempts, cc_AckWait = 5 * Minute, cc_BackOff = RetryDelays, cc_HandlerTimeout = 4 * Minute\<rparr>,
     \<lparr>cc_Stream = ''EVENTS_RAW'', cc_Subject = ''events.raw.*'', cc_DurableName = ''events-enrichment-worker'',
      cc_MaxDeliver = EventMaxRetries cfg + 1, cc_AckWait = 60 * Second, cc_BackOff = worker_retry_delays, cc_HandlerTimeout = 30 * Second\<rparr>,
     \<lparr>cc_Stream = ''SEGMENTS'', cc_Subject = ''segment.refresh'', cc_DurableName = ''segment-refresh-worker'',
      cc_MaxDeliver = SegmentMaxRetries cfg + 1, cc_AckWait = 15 * Minute, cc_BackOff = worker_retry_delays, cc_HandlerTimeout = 12 * Minute\<rparr>,
     \<lparr>cc_Stream = ''WORKFLOW'', cc_Subject = ''workflow.trigger'', cc_DurableName = ''workflow-trigger-worker'',
      cc_MaxDeliver = WorkflowMaxRetries cfg + 1, cc_AckWait = 2 * Minute, cc_BackOff = worker_retry_delays, cc_HandlerTimeout = 90 * Second\<rparr>,
     \<lparr>cc_Stream = ''WORKFLOW'', cc_Subject = ''workflow.register'', cc_DurableName = ''workflow-register-worker'', cc_MaxDeliver = 3,
      cc_AckWait = 30 * Second, cc_BackOff = [], cc_HandlerTimeout = 15 * Second\<rparr>]"

text \<open>\<^verbatim>\<open>Registry.Register\<close> replaces a timeout of zero.\<close>

definition handler_timeout :: "ConsumerConfig \<Rightarrow> int" where
  "handler_timeout c = (if cc_HandlerTimeout c = 0 then 30 * Second else cc_HandlerTimeout c)"

section \<open>Scheduler loops\<close>

text \<open>What the \<^verbatim>\<open>select\<close> of a loop picked, in order: a tick, or the end of the context.\<close>

datatype wakeup = Tick | Cancelled

fun ticker_loop :: "(world, unit) state \<Rightarrow> wakeup list \<Rightarrow> (world, unit) state" where
  "ticker_loop work [] = State_Monad.return ()"
| "ticker_loop work (Cancelled # es) = State_Monad.return ()"
| "ticker_loop work (Tick # es) = do { work; ticker_loop work es }"

definition Run_domain_cleanup :: "Config \<Rightarrow> wakeup list \<Rightarrow> (world, unit) state" where
  "Run_domain_cleanup cfg = ticker_loop (sweep_domains (DomainVerificationStaleAfter cfg))"

definition Run_cleanup :: "Config \<Rightarrow> wakeup list \<Rightarrow> (world, unit) state" where
  "Run_cleanup cfg = ticker_loop (sweep_cleanup (DataRetainFor cfg))"

definition Run_campaign_scheduler :: "wakeup list \<Rightarrow> (world, unit) state" where
  "Run_campaign_scheduler = ticker_loop poll_campaigns"

fun Run_workflow_scheduler :: "wakeup list \<Rightarrow> world \<Rightarrow> world option" where
  "Run_workflow_scheduler [] w = Some w"
| "Run_workflow_scheduler (Cancelled # es) w = Some w"
| "Run_workflow_scheduler (Tick # es) w =
     (case poll_workflows w of None \<Rightarrow> None | Some w' \<Rightarrow> Run_workflow_scheduler es w')"

section \<open>How messages are settled\<close>

definition settles_in :: "disposition set \<Rightarrow> (world, hresult) state \<Rightarrow> bool" where
  "settles_in D m \<longleftrightarrow> (\<forall>w. wp m (\<lambda>r w'. if r = Done then \<exists>d \<in> D. settled w' = settled w @ [d]
                                       else r = Panic \<and> settled w' = settled w) w)"

named_theorems settle_in_rules

lemma settles_in_finish [settle_in_rules]: "d \<in> D \<Longrightarrow> settles_in D (finish d)"
  by (auto simp: settles_in_def wp_rules)

lemma settles_in_panic [settle_in_rules]: "settles_in D (State_Monad.return Panic)"
  by (simp add: settles_in_def wp_rules)

lemma settles_in_bind [settle_in_rules]:
  assumes "preserves settled m" and "\<And>x. settles_in D (f x)"
  shows "settles_in D (State_Monad.bind m f)"
proof -
  have "wp (f x) (\<lambda>r w'. if r = Done then \<exists>d \<in> D. settled w' = settled w @ [d] else r = Panic \<and> settled w' = settled w) w1"
    if "settled w1 = settled w" for x w w1
    using assms(2) [of x, unfolded settles_in_def, THEN spec, of w1] by (simp only: that)
  then show ?thesis
    unfolding settles_in_def wp_bind
    by (intro allI, rule wp_mono [OF preserves_wp [OF assms(1)]])
qed

lemma settles_in_cases [settle_in_rules]:
  "(b \<Longrightarrow> settles_in D m) \<Longrightarrow> (\<not> b \<Longrightarrow> settles_in D k) \<Longrightarrow> settles_in D (if b then m else k)"
  "settles_in D m \<Longrightarrow> (\<And>x. settles_in D (g x)) \<Longrightarrow> settles_in D (case opt of None \<Rightarrow> m | Some x \<Rightarrow> g x)"
  "(\<And>y. settles_in D (g6 y)) \<Longrightarrow> (\<And>x. settles_in D (g2 x)) \<Longrightarrow> settles_in D (case s of Inl y \<Rightarrow> g6 y | Inr x \<Rightarrow> g2 x)"
  "(\<And>x y. settles_in D (g3 x y)) \<Longrightarrow> settles_in D (case pr of (x, y) \<Rightarrow> g3 x y)"
  "(\<And>ms. settles_in D (g4 ms)) \<Longrightarrow> (\<And>e. settles_in D (g1 e)) \<Longrightarrow> settles_in D k \<Longrightarrow>
     settles_in D (case sc of Scanned ms \<Rightarrow> g4 ms | ScanErr e \<Rightarrow> g1 e | ScanPanic \<Rightarrow> k)"
  "(\<And>r. settles_in D (g5 r)) \<Longrightarrow> (\<And>e. settles_in D (g1 e)) \<Longrightarrow> settles_in D k \<Longrightarrow>
     settles_in D (case en of Enriched r \<Rightarrow> g5 r | EnrichErr e \<Rightarrow> g1 e | EnrichPanic \<Rightarrow> k)"
  by (simp_all split: option.split sum.split prod.split scan.split enriched.split)

lemma settles_in_defer:
  assumes "settles_in D m" and "preserves settled d"
  shows "settles_in D (do { r \<leftarrow> m; _ \<leftarrow> d; State_Monad.return r })"
proof -
  have "wp d (\<lambda>_ w2. if r = Done then \<exists>x \<in> D. settled w2 = settled w @ [x] else r = Panic \<and> settled w2 = settled w) w1"
    if "if r = Done then \<exists>x \<in> D. settled w1 = settled w @ [x] else r = Panic \<and> settled w1 = settled w" for r w w1
    using that by (intro wp_mono [OF preserves_wp [OF assms(2)]]) auto
  then show ?thesis
    using assms(1) unfolding settles_in_def wp_bind wp_return
    by (blast intro: wp_mono)
qed

lemma dispatch_settles_in:
  assumes "settles_in D (h m)" and "Nak \<in> D"
  shows "\<exists>d \<in> D. settled (snd (run_state (dispatch h m) w)) = settled w @ [d]"
proof -
  have "wp (dispatch h m) (\<lambda>_ w'. \<exists>d \<in> D. settled w' = settled w @ [d]) w"
    unfolding dispatch_def wp_bind
    by (rule wp_mono [OF assms(1) [unfolded settles_in_def, rule_format]])
      (use assms(2) in \<open>auto simp: wp_rules split: hresult.split if_splits\<close>)
  then show ?thesis by (simp add: wp_def)
qed

lemma settles_in_transactional: "settles_in plain (Handle_transactional h m)"
  unfolding Handle_transactional_def send_and_settle_def
  by (intro settle_in_rules frame; simp)

lemma settles_in_disposition [settle_in_rules]: "settles_in plain (chunk_disposition c n res tr)"
  unfolding chunk_disposition_def by (intro settle_in_rules frame; simp)

lemma settles_in_chunk: "settles_in plain (Handle_chunk h m)"
  unfolding Handle_chunk_def by (intro settle_in_rules frame; simp)

lemma settles_in_start: "settles_in plain (Handle_start n m)"
  unfolding Handle_start_def by (intro settle_in_rules frame; simp)

lemma settles_in_register: "settles_in plain (Handle_register m)"
  unfolding Handle_register_def by (intro settle_in_rules frame; simp)

lemma settles_in_nak_segment [settle_in_rules]: "settles_in plain (nak_segment n k)"
  unfolding nak_segment_def by (intro settle_in_rules frame; simp)

lemma settles_in_apply_matched [settle_in_rules]: "settles_in plain (apply_matched n k p ms)"
  unfolding apply_matched_def by (intro settle_in_rules frame; simp)

lemma settles_in_refresh [settle_in_rules]: "settles_in plain (refresh n k p)"
  unfolding refresh_def recompute_def by (intro settle_in_rules frame; simp)

lemma settles_in_segment: "settles_in plain (Handle_segment n m)"
  unfolding Handle_segment_def
  by (intro settle_in_rules settles_in_defer frame; simp)

lemma settles_in_handleTransient [settle_in_rules]: "settles_in plain (handleTransient n k p s)"
  unfolding handleTransient_def by (intro settle_in_rules frame; simp)

lemma settles_in_event: "settles_in plain (Handle_event n m)"
  unfolding Handle_event_def process_event_def persistEnriched_def
  by (intro settle_in_rules frame; simp)

section \<open>Delivery windows\<close>

text \<open>
  \<open>window c k\<close> is how long JetStream waits for the settlement of delivery \<open>k\<close> before it delivers again:
  \<^verbatim>\<open>AckWait\<close>, which a \<^verbatim>\<open>BackOff\<close> list overrides, its last entry serving all further deliveries.
\<close>

definition documented_window :: "ConsumerConfig \<Rightarrow> nat \<Rightarrow> int" where
  "documented_window c k = (if cc_BackOff c = [] then cc_AckWait c
     else cc_BackOff c ! min (k - 1) (length (cc_BackOff c) - 1))"

definition overruns :: "(ConsumerConfig \<Rightarrow> nat \<Rightarrow> int) \<Rightarrow> Config \<Rightarrow> string list" where
  "overruns window cfg = map cc_DurableName (filter (\<lambda>c. window c 1 < handler_timeout c) (consumers cfg))"

text \<open>A \<^verbatim>\<open>BackOff\<close> list longer than \<^verbatim>\<open>MaxDeliver\<close> is refused when the consumer is created.\<close>

definition backoff_accepted :: "ConsumerConfig \<Rightarrow> bool" where
  "backoff_accepted c \<longleftrightarrow> cc_MaxDeliver c = - 1 \<or> int (length (cc_BackOff c)) \<le> cc_MaxDeliver c"

lemma retry_delays_unfold: "worker_retry_delays = [1 * Minute, 5 * Minute, 15 * Minute, 30 * Minute]"
  "RetryDelays = [1 * Minute, 5 * Minute, 15 * Minute, 30 * Minute, 2 * Hour]" "MaxAttempts = 6"
  by (simp_all add: worker_retry_delays_def RetryDelays_def MaxAttempts_def)

lemma consumers_distinct: "distinct (map cc_DurableName (consumers cfg))" "distinct (map cc_Subject (consumers cfg))"
  by (simp_all add: consumers_def)

lemma consumers_have_streams: "\<forall>c \<in> set (consumers cfg). cc_Stream c \<in> set (map st_Name streams)"
  by (simp add: consumers_def streams_def)

lemma startup_needs_retries:
  assumes "\<forall>r \<in> {EventMaxRetries cfg, SegmentMaxRetries cfg, WorkflowMaxRetries cfg}. 0 \<le> r"
  shows "(\<forall>c \<in> set (consumers cfg). backoff_accepted c) \<longleftrightarrow>
    (\<forall>r \<in> {EventMaxRetries cfg, SegmentMaxRetries cfg, WorkflowMaxRetries cfg}. 3 \<le> r)"
  using assms by (auto simp: consumers_def backoff_accepted_def retry_delays_unfold)

lemma segment_lock_shorter: "\<forall>c \<in> set (consumers cfg). cc_DurableName c = ''segment-refresh-worker'' \<longrightarrow> lockTTL < handler_timeout c"
  by (simp add: consumers_def handler_timeout_def)

section \<open>Properties\<close>

text \<open>
  Every delivery is settled exactly once, in every environment: whatever a handler is given, and
  whether it returns or panics, dispatching it makes one disposition call on the message. All handlers but
  the domain poller use a plain \<^verbatim>\<open>Ack\<close>, \<^verbatim>\<open>Nak\<close> or \<^verbatim>\<open>Term\<close>, so their retries carry no delay of their own.
\<close>

theorem every_delivery_settled_once:
  "(\<exists>d \<in> plain. settled (snd (run_state (dispatch (Handle_transactional h) m1) w)) = settled w @ [d]) \<and>
   (\<exists>d \<in> plain. settled (snd (run_state (dispatch (Handle_start chunkSize) m2) w)) = settled w @ [d]) \<and>
   (\<exists>d \<in> plain. settled (snd (run_state (dispatch (Handle_chunk h) m3) w)) = settled w @ [d]) \<and>
   (\<exists>d. settled (snd (run_state (dispatch Handle_domain m4) w)) = settled w @ [d]) \<and>
   (\<exists>d \<in> plain. settled (snd (run_state (dispatch (Handle_event n) m5) w)) = settled w @ [d]) \<and>
   (\<exists>d \<in> plain. settled (snd (run_state (dispatch (Handle_segment n) m6) w)) = settled w @ [d]) \<and>
   (\<exists>d \<in> plain. settled (snd (run_state (dispatch Handle_register m7) w)) = settled w @ [d]) \<and>
   (case Handle_trigger n m8 w of None \<Rightarrow> True | Some (r, w') \<Rightarrow> r = Done \<and> (\<exists>d \<in> plain. settled w' = settled w @ [d]))"
proof (intro conjI)
  show "\<exists>d. settled (snd (run_state (dispatch Handle_domain m4) w)) = settled w @ [d]"
    using domain.dispatch_settles_once [of m4 w] by (simp add: wp_def)
  show "case Handle_trigger n m8 w of None \<Rightarrow> True | Some (r, w') \<Rightarrow> r = Done \<and> (\<exists>d \<in> plain. settled w' = settled w @ [d])"
    using Handle_trigger_settles [of n m8 w] by (auto simp: settled_once_def split: option.split)
qed (rule dispatch_settles_in, rule settles_in_transactional settles_in_start settles_in_chunk settles_in_event
    settles_in_segment settles_in_register, simp)+

text \<open>
  Four handlers outlive the window of their first delivery: with the documented effect of
  \<^verbatim>\<open>BackOff\<close> on the acknowledgement wait, JetStream delivers the messages of the campaign start, campaign
  chunk, segment and workflow trigger consumers again while the first delivery may still be running.
\<close>

theorem handlers_overrun_window:
  assumes "\<And>c k. cc_BackOff c = [] \<Longrightarrow> window c k = cc_AckWait c"
    and "\<And>c k. cc_BackOff c \<noteq> [] \<Longrightarrow> window c k = cc_BackOff c ! min (k - 1) (length (cc_BackOff c) - 1)"
  shows "overruns window cfg =
    [''campaign-start-worker'', ''campaign-chunk-worker'', ''segment-refresh-worker'', ''workflow-trigger-worker'']"
  by (simp add: overruns_def consumers_def handler_timeout_def assms retry_delays_unfold)

lemma handlers_overrun_window_witness:
  "overruns documented_window default_config =
    [''campaign-start-worker'', ''campaign-chunk-worker'', ''segment-refresh-worker'', ''workflow-trigger-worker'']"
  by (rule handlers_overrun_window) (simp_all add: documented_window_def)

end
