(* ===== verification/Startup.thy ===== *)
theory Startup
  imports Wiring WireTime
begin

text \<open>
  The life of the process: \<^verbatim>\<open>config.Load\<close>, the constructors of the four clients under
  \<^verbatim>\<open>internal/infra\<close>, the consumer registry of \<^verbatim>\<open>internal/queue/consumers/registry.go\<close> and \<^verbatim>\<open>main\<close> of
  \<^verbatim>\<open>cmd/workers/main.go\<close>, as a sequence of actions on the outside world, some of which may be refused.
\<close>

section \<open>Loading the configuration\<close>

text \<open>
  \<^verbatim>\<open>envconfig\<close> takes a variable from the environment or its \<^verbatim>\<open>default\<close> tag and reads it as the type of the
  field; \<open>readInt\<close> is how it reads an \<^verbatim>\<open>int\<close>, durations go to \<^verbatim>\<open>time.ParseDuration\<close>.
\<close>

definition and_then :: "goerr + 'a \<Rightarrow> ('a \<Rightarrow> goerr + 'b) \<Rightarrow> goerr + 'b" where
  "and_then r k = (case r of Inl e \<Rightarrow> Inl e | Inr x \<Rightarrow> k x)"

definition required :: "(string \<Rightarrow> string option) \<Rightarrow> string \<Rightarrow> goerr + string" where
  "required getenv key = (case getenv key of
     None \<Rightarrow> Inl (Err (''required key '' @ key @ '' missing value'')) | Some s \<Rightarrow> Inr s)"

definition setting :: "(string \<Rightarrow> 'a option) \<Rightarrow> (string \<Rightarrow> string option) \<Rightarrow> string \<Rightarrow> string \<Rightarrow> goerr + 'a" where
  "setting parse getenv key dflt = (case parse (coalesce (getenv key) dflt) of
     None \<Rightarrow> Inl (Err (''assigning '' @ key)) | Some x \<Rightarrow> Inr x)"

definition Load :: "(string \<Rightarrow> int option) \<Rightarrow> (string \<Rightarrow> string option) \<Rightarrow> goerr + Config" where
  "Load readInt getenv =
     and_then (required getenv ''NATS_URL'') (\<lambda>natsURL.
     and_then (required getenv ''DATABASE_URL'') (\<lambda>databaseURL.
     and_then (required getenv ''REDIS_URL'') (\<lambda>redisURL.
     and_then (required getenv ''AWS_REGION'') (\<lambda>region.
     and_then (setting readInt getenv ''METRICS_PORT'' ''9090'') (\<lambda>port.
     and_then (setting readInt getenv ''SES_RATE_LIMIT_PER_SEC'' ''14'') (\<lambda>rate.
     and_then (setting readInt getenv ''CAMPAIGN_CHUNK_SIZE'' ''500'') (\<lambda>chunk.
     and_then (setting readInt getenv ''EVENT_MAX_RETRIES'' ''5'') (\<lambda>er.
     and_then (setting readInt getenv ''EVENT_BATCH_SIZE'' ''100'') (\<lambda>eb.
     and_then (setting readInt getenv ''SEGMENT_MAX_RETRIES'' ''5'') (\<lambda>sr.
     and_then (setting readInt getenv ''WORKFLOW_MAX_RETRIES'' ''5'') (\<lambda>wr.
     and_then (setting ParseDuration getenv ''WORKFLOW_SCHEDULER_POLL_INTERVAL'' ''30s'') (\<lambda>wi.
     and_then (setting ParseDuration getenv ''CAMPAIGN_SCHEDULER_POLL_INTERVAL'' ''60s'') (\<lambda>ci.
     and_then (setting ParseDuration getenv ''DOMAIN_CLEANUP_INTERVAL'' ''6h'') (\<lambda>di.
     and_then (setting ParseDuration getenv ''DOMAIN_VERIFICATION_STALE_AFTER'' ''720h'') (\<lambda>ds.
     and_then (setting ParseDuration getenv ''DATA_CLEANUP_INTERVAL'' ''6h'') (\<lambda>ki.
     and_then (setting ParseDuration getenv ''DATA_RETAIN_FOR'' ''1080h'') (\<lambda>kr.
     Inr \<lparr>NatsURL = natsURL, DatabaseURL = databaseURL, RedisURL = redisURL, AWSRegion = region, MetricsPort = port,
       SESRateLimitPerSec = rate, CampaignChunkSize = chunk, EventMaxRetries = er, EventBatchSize = eb,
       SegmentMaxRetries = sr, WorkflowMaxRetries = wr, WorkflowSchedulerPollInterval = wi,
       CampaignSchedulerPollInterval = ci, DomainCleanupInterval = di, DomainVerificationStaleAfter = ds,
       DataCleanupInterval = ki, DataRetainFor = kr\<rparr>)))))))))))))))))"

section \<open>Actions\<close>

datatype scheduler =
    DomainCleanup int int
  | DataCleanup int int
  | CampaignScheduler int
  | WorkflowScheduler int

datatype action =
    NatsConnect string
  | JetStreamNew
  | CreateStream StreamConfig
  | NatsClose
  | PgParse string
  | PgConnect int int int
  | PgPing
  | PgClose
  | RedisParse string
  | RedisPing
  | RedisClose
  | AwsLoad string
  | CreateConsumer ConsumerConfig
  | Consume string
  | StopConsumer string
  | Spawn scheduler
  | ListenAndServe int
  | AwaitSignal
  | CancelRoot
  | ShutdownServer int
  | CancelShutdown
  | SyncLog

datatype event = Did action | Refused action goerr

text \<open>
  The process: \<open>io k = Some e\<close> says that the call which is event number \<open>k\<close> is refused with \<open>e\<close>. Only calls
  whose error the code looks at are made with \<open>attempt\<close>.
\<close>

record process =
  io :: "nat \<Rightarrow> goerr option"
  events :: "event list"
  registered :: "string list"

definition attempt :: "action \<Rightarrow> (process, goerr + unit) state" where
  "attempt a = State (\<lambda>p. case io p (length (events p)) of
     Some e \<Rightarrow> (Inl e, p\<lparr>events := events p @ [Refused a e]\<rparr>)
   | None \<Rightarrow> (Inr (), p\<lparr>events := events p @ [Did a]\<rparr>))"

definition perform :: "action \<Rightarrow> (process, unit) state" where
  "perform a = State (\<lambda>p. ((), p\<lparr>events := events p @ [Did a]\<rparr>))"

section \<open>The clients\<close>

primrec ensureStreams :: "StreamConfig list \<Rightarrow> (process, goerr + unit) state" where
  "ensureStreams [] = State_Monad.return (Inr ())"
| "ensureStreams (s # ss) = do {
     r \<leftarrow> attempt (CreateStream s);
     case r of
       Inl e \<Rightarrow> State_Monad.return (Inl (Wrap (''ensure stream '' @ st_Name s) e))
     | Inr _ \<Rightarrow> ensureStreams ss
   }"

definition nats_NewClient :: "string \<Rightarrow> (process, goerr + unit) state" where
  "nats_NewClient url = do {
     nc \<leftarrow> attempt (NatsConnect url);
     case nc of
       Inl e \<Rightarrow> State_Monad.return (Inl (Wrap ''nats connect'' e))
     | Inr _ \<Rightarrow> do {
         js \<leftarrow> attempt JetStreamNew;
         case js of
           Inl e \<Rightarrow> do { perform NatsClose; State_Monad.return (Inl (Wrap ''jetstream init'' e)) }
         | Inr _ \<Rightarrow> do {
             r \<leftarrow> ensureStreams streams;
             case r of
               Inl e \<Rightarrow> do { perform NatsClose; State_Monad.return (Inl e) }
             | Inr _ \<Rightarrow> State_Monad.return (Inr ())
           }
       }
   }"

definition postgres_NewClient :: "string \<Rightarrow> (process, goerr + unit) state" where
  "postgres_NewClient databaseURL = do {
     cfg \<leftarrow> attempt (PgParse databaseURL);
     case cfg of
       Inl e \<Rightarrow> State_Monad.return (Inl (Wrap ''parse db config'' e))
     | Inr _ \<Rightarrow> do {
         pool \<leftarrow> attempt (PgConnect 10 2 (30 * Minute));
         case pool of
           Inl e \<Rightarrow> State_Monad.return (Inl (Wrap ''db connect'' e))
         | Inr _ \<Rightarrow> do {
             r \<leftarrow> attempt PgPing;
             case r of
               Inl e \<Rightarrow> do { perform PgClose; State_Monad.return (Inl (Wrap ''db ping'' e)) }
             | Inr _ \<Rightarrow> State_Monad.return (Inr ())
           }
       }
   }"

definition redis_NewClient :: "string \<Rightarrow> (process, goerr + unit) state" where
  "redis_NewClient url = do {
     opt \<leftarrow> attempt (RedisParse url);
     case opt of
       Inl e \<Rightarrow> State_Monad.return (Inl (Wrap ''parse redis url'' e))
     | Inr _ \<Rightarrow> do {
         r \<leftarrow> attempt RedisPing;
         case r of
           Inl e \<Rightarrow> do { perform RedisClose; State_Monad.return (Inl (Wrap ''redis ping'' e)) }
         | Inr _ \<Rightarrow> State_Monad.return (Inr ())
       }
   }"

definition ses_NewClient :: "string \<Rightarrow> (process, goerr + unit) state" where
  "ses_NewClient region = do {
     cfg \<leftarrow> attempt (AwsLoad region);
     State_Monad.return (case cfg of Inl e \<Rightarrow> Inl (Wrap ''load aws config'' e) | Inr _ \<Rightarrow> Inr ())
   }"
section \<open>The registry\<close>

definition Register :: "ConsumerConfig \<Rightarrow> (process, goerr + unit) state" where
  "Register cfg = do {
     let cfg = cfg\<lparr>cc_HandlerTimeout := handler_timeout cfg\<rparr>;
     consumer \<leftarrow> attempt (CreateConsumer cfg);
     case consumer of
       Inl e \<Rightarrow> State_Monad.return (Inl (Wrap (''create consumer '' @ cc_DurableName cfg) e))
     | Inr _ \<Rightarrow> do {
         cc \<leftarrow> attempt (Consume (cc_DurableName cfg));
         case cc of
           Inl e \<Rightarrow> State_Monad.return (Inl (Wrap (''consume '' @ cc_DurableName cfg) e))
         | Inr _ \<Rightarrow> do {
             State_Monad.update (\<lambda>p. p\<lparr>registered := registered p @ [cc_DurableName cfg]\<rparr>);
             State_Monad.return (Inr ())
           }
       }
   }"

primrec perform_all :: "action list \<Rightarrow> (process, unit) state" where
  "perform_all [] = State_Monad.return ()"
| "perform_all (a # as) = do { perform a; perform_all as }"

definition Stop :: "(process, unit) state" where
  "Stop = do { ccs \<leftarrow> State_Monad.get; perform_all (map StopConsumer (registered ccs)) }"

section \<open>The main function\<close>

text \<open>
  \<^verbatim>\<open>logger.Fatal\<close> ends the process with \<^verbatim>\<open>os.Exit(1)\<close>, so nothing deferred runs after it. \<open>Exited\<close> is the
  return of \<^verbatim>\<open>main\<close>.
\<close>

datatype exit_status = Exited | Fatal string goerr

definition or_fatal :: "string \<Rightarrow> (process, goerr + unit) state \<Rightarrow> (process, exit_status) state \<Rightarrow> (process, exit_status) state" where
  "or_fatal msg m k = do {
     r \<leftarrow> m;
     case r of Inl e \<Rightarrow> State_Monad.return (Fatal msg e) | Inr _ \<Rightarrow> k
   }"

abbreviation domainConsumer :: "Config \<Rightarrow> ConsumerConfig" where "domainConsumer cfg \<equiv> consumers cfg ! 0"
abbreviation emailConsumer :: "Config \<Rightarrow> ConsumerConfig" where "emailConsumer cfg \<equiv> consumers cfg ! 1"
abbreviation startConsumer :: "Config \<Rightarrow> ConsumerConfig" where "startConsumer cfg \<equiv> consumers cfg ! 2"
abbreviation chunkConsumer :: "Config \<Rightarrow> ConsumerConfig" where "chunkConsumer cfg \<equiv> consumers cfg ! 3"
abbreviation eventConsumer :: "Config \<Rightarrow> ConsumerConfig" where "eventConsumer cfg \<equiv> consumers cfg ! 4"
abbreviation segmentConsumer :: "Config \<Rightarrow> ConsumerConfig" where "segmentConsumer cfg \<equiv> consumers cfg ! 5"
abbreviation triggerConsumer :: "Config \<Rightarrow> ConsumerConfig" where "triggerConsumer cfg \<equiv> consumers cfg ! 6"
abbreviation registerConsumer :: "Config \<Rightarrow> ConsumerConfig" where "registerConsumer cfg \<equiv> consumers cfg ! 7"

text \<open>From the signal on, with the calls deferred by \<^verbatim>\<open>main\<close> in their order.\<close>

definition shutdown :: "(process, exit_status) state" where
  "shutdown = do {
     perform AwaitSignal;
     perform CancelRoot;
     Stop;
     perform (ShutdownServer (10 * Second));
     perform CancelShutdown;
     perform RedisClose;
     perform PgClose;
     perform NatsClose;
     perform CancelRoot;
     perform SyncLog;
     State_Monad.return Exited
   }"

definition serve :: "Config \<Rightarrow> (process, exit_status) state" where
  "serve cfg =
     or_fatal ''nats init failed'' (nats_NewClient (NatsURL cfg)) (
     or_fatal ''postgres init failed'' (postgres_NewClient (DatabaseURL cfg)) (
     or_fatal ''redis init failed'' (redis_NewClient (RedisURL cfg)) (
     or_fatal ''ses init failed'' (ses_NewClient (AWSRegion cfg)) (
     or_fatal ''domain consumer register failed'' (Register (domainConsumer cfg)) (do {
     perform (Spawn (DomainCleanup (DomainCleanupInterval cfg) (DomainVerificationStaleAfter cfg)));
     or_fatal ''email consumer register failed'' (Register (emailConsumer cfg)) (
     or_fatal ''campaign start consumer register failed'' (Register (startConsumer cfg)) (
     or_fatal ''campaign chunk consumer register failed'' (Register (chunkConsumer cfg)) (
     or_fatal ''events consumer register failed'' (Register (eventConsumer cfg)) (
     or_fatal ''segment consumer register failed'' (Register (segmentConsumer cfg)) (
     or_fatal ''workflow trigger consumer register failed'' (Register (triggerConsumer cfg)) (
     or_fatal ''workflow register consumer register failed'' (Register (registerConsumer cfg)) (do {
       perform (Spawn (DataCleanup (DataCleanupInterval cfg) (DataRetainFor cfg)));
       perform (Spawn (CampaignScheduler (CampaignSchedulerPollInterval cfg)));
       perform (Spawn (WorkflowScheduler (WorkflowSchedulerPollInterval cfg)));
       perform (ListenAndServe (MetricsPort cfg));
       shutdown
     }))))))) })))))"

definition main :: "(string \<Rightarrow> int option) \<Rightarrow> (string \<Rightarrow> string option) \<Rightarrow> (process, exit_status) state" where
  "main readInt getenv = (case Load readInt getenv of
     Inl e \<Rightarrow> State_Monad.return (Fatal ''config load failed'' e)
   | Inr cfg \<Rightarrow> serve cfg)"
section \<open>The plan of a start\<close>

text \<open>
  What \<^verbatim>\<open>main\<close> does, without its control flow: the calls in order, which of them can be refused, and what
  a constructor gives back when a later call of its own is refused.
\<close>

definition registration :: "ConsumerConfig \<Rightarrow> action list" where
  "registration c = [CreateConsumer (c\<lparr>cc_HandlerTimeout := handler_timeout c\<rparr>), Consume (cc_DurableName c)]"

definition connections :: "Config \<Rightarrow> action list" where
  "connections cfg = [NatsConnect (NatsURL cfg), JetStreamNew] @ map CreateStream streams @
     [PgParse (DatabaseURL cfg), PgConnect 10 2 (30 * Minute), PgPing] @ [RedisParse (RedisURL cfg), RedisPing] @
     [AwsLoad (AWSRegion cfg)]"

definition plan :: "Config \<Rightarrow> action list" where
  "plan cfg = connections cfg @ registration (domainConsumer cfg) @
     [Spawn (DomainCleanup (DomainCleanupInterval cfg) (DomainVerificationStaleAfter cfg))] @
     concat (map registration (tl (consumers cfg))) @
     [Spawn (DataCleanup (DataCleanupInterval cfg) (DataRetainFor cfg)),
      Spawn (CampaignScheduler (CampaignSchedulerPollInterval cfg)),
      Spawn (WorkflowScheduler (WorkflowSchedulerPollInterval cfg)), ListenAndServe (MetricsPort cfg)]"

fun fallible :: "action \<Rightarrow> bool" where
  "fallible (Spawn s) = False"
| "fallible (ListenAndServe n) = False"
| "fallible a = True"

fun give_back :: "action \<Rightarrow> action list" where
  "give_back JetStreamNew = [NatsClose]"
| "give_back (CreateStream s) = [NatsClose]"
| "give_back PgPing = [PgClose]"
| "give_back RedisPing = [RedisClose]"
| "give_back a = []"

fun carry_out :: "(nat \<Rightarrow> goerr option) \<Rightarrow> nat \<Rightarrow> action list \<Rightarrow> event list \<times> bool" where
  "carry_out f n [] = ([], True)"
| "carry_out f n (a # as) = (case (if fallible a then f n else None) of
     Some e \<Rightarrow> (Refused a e # map Did (give_back a), False)
   | None \<Rightarrow> (let (es, ok) = carry_out f (Suc n) as in (Did a # es, ok)))"

definition epilogue :: "string list \<Rightarrow> action list" where
  "epilogue rs = [AwaitSignal, CancelRoot] @ map StopConsumer rs @
     [ShutdownServer (10 * Second), CancelShutdown, RedisClose, PgClose, NatsClose, CancelRoot, SyncLog]"

fun consumed :: "action list \<Rightarrow> string list" where
  "consumed [] = []"
| "consumed (Consume d # as) = d # consumed as"
| "consumed (a # as) = consumed as"

lemma consumed_append [simp]: "consumed (as @ bs) = consumed as @ consumed bs"
  by (induction as rule: consumed.induct) simp_all

lemma carry_out_append:
  "carry_out f n (as @ bs) = (case carry_out f n as of (es, ok) \<Rightarrow>
     if ok then (let (fs, ok') = carry_out f (n + length as) bs in (es @ fs, ok')) else (es, False))"
  by (induction as arbitrary: n) (auto split: option.split prod.split)

lemma carry_out_length: "carry_out f n as = (es, True) \<Longrightarrow> es = map Did as"
  by (induction as arbitrary: n es) (auto split: option.splits prod.splits if_splits)

lemma carry_out_stops:
  "\<exists>k rest. fst (carry_out f n as) = map Did (take k as) @ rest \<and> (\<forall>d. Did (Consume d) \<notin> set rest)"
proof (induction as arbitrary: n)
  case Nil
  then show ?case by (intro exI [of _ 0] exI [of _ "[]"]) simp
next
  case (Cons a as)
  show ?case
  proof (cases "if fallible a then f n else None")
    case None
    obtain k rest where "fst (carry_out f (Suc n) as) = map Did (take k as) @ rest" "\<forall>d. Did (Consume d) \<notin> set rest"
      using Cons by blast
    then show ?thesis
      using None by (intro exI [of _ "Suc k"] exI [of _ rest]) (simp add: split_beta)
  next
    case (Some e)
    have "\<forall>d. Did (Consume d) \<notin> set (map Did (give_back a))" by (cases a) auto
    then show ?thesis
      using Some by (intro exI [of _ 0] exI [of _ "Refused a e # map Did (give_back a)"]) simp
  qed
qed

section \<open>The program follows the plan\<close>

definition performs_at :: "(process, goerr + unit) state \<Rightarrow> action list \<Rightarrow> process \<Rightarrow> bool" where
  "performs_at m as p \<longleftrightarrow> (case carry_out (io p) (length (events p)) as of
     (es, ok) \<Rightarrow> \<exists>rs. snd (run_state m p) = p\<lparr>events := events p @ es, registered := registered p @ rs\<rparr> \<and>
       (if ok then fst (run_state m p) = Inr () \<and> rs = consumed as else isl (fst (run_state m p))))"

definition performs :: "(process, goerr + unit) state \<Rightarrow> action list \<Rightarrow> bool" where
  "performs m as \<longleftrightarrow> (\<forall>p. performs_at m as p)"

definition boots_at :: "(process, exit_status) state \<Rightarrow> action list \<Rightarrow> process \<Rightarrow> bool" where
  "boots_at k as p \<longleftrightarrow> (case carry_out (io p) (length (events p)) as of
     (es, ok) \<Rightarrow> \<exists>rs. registered (snd (run_state k p)) = registered p @ rs \<and> io (snd (run_state k p)) = io p \<and>
       (if ok then fst (run_state k p) = Exited \<and> rs = consumed as \<and>
          events (snd (run_state k p)) = events p @ es @ map Did (epilogue (registered p @ rs))
        else fst (run_state k p) \<noteq> Exited \<and> events (snd (run_state k p)) = events p @ es))"

definition boots :: "(process, exit_status) state \<Rightarrow> action list \<Rightarrow> bool" where
  "boots k as \<longleftrightarrow> (\<forall>p. boots_at k as p)"

named_theorems boot_rules

lemma boots_or_fatal [boot_rules]:
  assumes "performs m as" and "boots k bs"
  shows "boots (or_fatal msg m k) (as @ bs)"
  unfolding boots_def
proof
  fix p :: process
  obtain es ok where c: "carry_out (io p) (length (events p)) as = (es, ok)" by fastforce
  obtain rs where m: "snd (run_state m p) = p\<lparr>events := events p @ es, registered := registered p @ rs\<rparr>"
    "if ok then fst (run_state m p) = Inr () \<and> rs = consumed as else isl (fst (run_state m p))"
    using assms(1) [unfolded performs_def performs_at_def, rule_format, of p] by (auto simp: c)
  let ?p1 = "p\<lparr>events := events p @ es, registered := registered p @ rs\<rparr>"
  show "boots_at (or_fatal msg m k) (as @ bs) p"
  proof (cases ok)
    case True
    then have r: "run_state m p = (Inr (), ?p1)" using m by (metis prod.collapse)
    have l: "es = map Did as" using carry_out_length c True by simp
    have "boots_at k bs ?p1" using assms(2) by (simp add: boots_def)
    then show ?thesis
      using True c m(2) by (auto simp: boots_at_def or_fatal_def r l carry_out_append split: prod.splits)
  next
    case False
    then obtain e where "run_state m p = (Inl e, ?p1)" using m by (cases "fst (run_state m p)") (auto simp: prod_eq_iff)
    then show ?thesis using False c by (auto simp: boots_at_def or_fatal_def carry_out_append)
  qed
qed

lemma boots_perform [boot_rules]:
  assumes "\<not> fallible a" and "boots k bs" and "consumed [a] = []"
  shows "boots (do { perform a; k }) (a # bs)"
  unfolding boots_def
proof
  fix p :: process
  have "consumed (a # bs) = consumed bs" using consumed_append [of "[a]" bs] assms(3) by simp
  moreover have "boots_at k bs (p\<lparr>events := events p @ [Did a]\<rparr>)" using assms(2) by (simp add: boots_def)
  ultimately show "boots_at (do { perform a; k }) (a # bs) p"
    using assms(1) by (auto simp: boots_at_def perform_def split: prod.splits)
qed

lemma run_perform_all: "run_state (perform_all as) p = ((), p\<lparr>events := events p @ map Did as\<rparr>)"
  by (induction as arbitrary: p) (simp_all add: perform_def)

lemma boots_shutdown [boot_rules]: "boots shutdown []"
  by (simp add: boots_def boots_at_def shutdown_def Stop_def perform_def run_perform_all epilogue_def)

lemma run_attempt: "run_state (attempt a) p = (case io p (length (events p)) of
     Some e \<Rightarrow> (Inl e, p\<lparr>events := events p @ [Refused a e]\<rparr>)
   | None \<Rightarrow> (Inr (), p\<lparr>events := events p @ [Did a]\<rparr>))"
  by (simp add: attempt_def)

lemma no_new_consumer [simp]: "\<exists>rs. p\<lparr>events := es\<rparr> = p\<lparr>events := es, registered := registered p @ rs\<rparr>"
  by (intro exI [of _ "[]"]) simp

lemma performs_Register [boot_rules]: "performs (Register c) (registration c)"
  by (auto simp: performs_def performs_at_def Register_def registration_def run_attempt State_Monad.update_def
      State_Monad.set_def State_Monad.get_def split: option.split)

lemma performs_ses [boot_rules]: "performs (ses_NewClient region) [AwsLoad region]"
  by (auto simp: performs_def performs_at_def ses_NewClient_def run_attempt split: option.split)

lemma performs_redis [boot_rules]: "performs (redis_NewClient url) [RedisParse url, RedisPing]"
  by (auto simp: performs_def performs_at_def redis_NewClient_def run_attempt perform_def split: option.split)

lemma performs_postgres [boot_rules]:
  "performs (postgres_NewClient url) [PgParse url, PgConnect 10 2 (30 * Minute), PgPing]"
  by (auto simp: performs_def performs_at_def postgres_NewClient_def run_attempt perform_def split: option.split)

lemma performs_at_step:
  assumes "io p (length (events p)) = None" and "run_state m' p = run_state m (p\<lparr>events := events p @ [Did a]\<rparr>)"
    and "consumed [a] = []" and "performs_at m as (p\<lparr>events := events p @ [Did a]\<rparr>)"
  shows "performs_at m' (a # as) p"
  using assms(1,4) consumed_append [of "[a]" as] unfolding performs_at_def assms(2)
  by (cases "snd (carry_out (io p) (Suc (length (events p))) as)") (auto simp: assms(3) split: prod.splits)

lemma performs_streams:
  "performs (do { r \<leftarrow> ensureStreams ss; case r of Inl e \<Rightarrow> do { perform NatsClose; State_Monad.return (Inl e) }
     | Inr _ \<Rightarrow> State_Monad.return (Inr ()) }) (map CreateStream ss)"
proof (induction ss)
  case Nil
  then show ?case by (simp add: performs_def performs_at_def)
next
  case (Cons s ss)
  let ?m = "\<lambda>ss. do { r \<leftarrow> ensureStreams ss; case r of Inl e \<Rightarrow> do { perform NatsClose; State_Monad.return (Inl e) }
     | Inr _ \<Rightarrow> State_Monad.return (Inr ()) }"
  have "performs_at (?m (s # ss)) (map CreateStream (s # ss)) p" for p
  proof (cases "io p (length (events p))")
    case None
    let ?p1 = "p\<lparr>events := events p @ [Did (CreateStream s)]\<rparr>"
    have r: "run_state (?m (s # ss)) p = run_state (?m ss) ?p1" using None by (simp add: run_attempt)
    have "performs_at (?m ss) (map CreateStream ss) ?p1" using Cons by (simp add: performs_def)
    then show ?thesis using performs_at_step [OF None r] by simp
  next
    case (Some e)
    then show ?thesis by (simp add: performs_at_def run_attempt perform_def)
  qed
  then show ?case by (simp add: performs_def)
qed

lemma performs_nats [boot_rules]:
  "performs (nats_NewClient url) ([NatsConnect url, JetStreamNew] @ map CreateStream streams)"
proof -
  let ?m = "do { r \<leftarrow> ensureStreams streams; case r of Inl e \<Rightarrow> do { perform NatsClose; State_Monad.return (Inl e) }
     | Inr _ \<Rightarrow> State_Monad.return (Inr ()) }"
  have "performs_at (nats_NewClient url) ([NatsConnect url, JetStreamNew] @ map CreateStream streams) p" for p
  proof (cases "io p (length (events p)) = None \<and> io p (Suc (length (events p))) = None")
    case True
    let ?m1 = "do { js \<leftarrow> attempt JetStreamNew; case js of
        Inl e \<Rightarrow> do { perform NatsClose; State_Monad.return (Inl (Wrap ''jetstream init'' e)) } | Inr _ \<Rightarrow> ?m }"
    let ?p1 = "p\<lparr>events := events p @ [Did (NatsConnect url)]\<rparr>"
    have "performs_at ?m (map CreateStream streams) (?p1\<lparr>events := events ?p1 @ [Did JetStreamNew]\<rparr>)"
      using performs_streams [of streams] by (simp add: performs_def)
    then have "performs_at ?m1 (JetStreamNew # map CreateStream streams) ?p1"
      using True by (intro performs_at_step) (simp_all add: run_attempt)
    moreover have "run_state (nats_NewClient url) p = run_state ?m1 ?p1"
      using True by (simp add: nats_NewClient_def run_attempt)
    ultimately show ?thesis using performs_at_step [of p "nats_NewClient url" ?m1 "NatsConnect url"] True by simp
  next
    case False
    then show ?thesis
      by (cases "io p (length (events p))") (auto simp: performs_at_def nats_NewClient_def run_attempt perform_def)
  qed
  then show ?thesis by (simp add: performs_def)
qed

lemma serve_boots: "boots (serve cfg) (plan cfg)"
proof -
  have p: "plan cfg = ([NatsConnect (NatsURL cfg), JetStreamNew] @ map CreateStream streams) @
     [PgParse (DatabaseURL cfg), PgConnect 10 2 (30 * Minute), PgPing] @ [RedisParse (RedisURL cfg), RedisPing] @
     [AwsLoad (AWSRegion cfg)] @ registration (domainConsumer cfg) @
     Spawn (DomainCleanup (DomainCleanupInterval cfg) (DomainVerificationStaleAfter cfg)) #
     registration (emailConsumer cfg) @ registration (startConsumer cfg) @ registration (chunkConsumer cfg) @
     registration (eventConsumer cfg) @ registration (segmentConsumer cfg) @ registration (triggerConsumer cfg) @
     registration (registerConsumer cfg) @
     Spawn (DataCleanup (DataCleanupInterval cfg) (DataRetainFor cfg)) #
     Spawn (CampaignScheduler (CampaignSchedulerPollInterval cfg)) #
     Spawn (WorkflowScheduler (WorkflowSchedulerPollInterval cfg)) # ListenAndServe (MetricsPort cfg) # []"
    by (simp add: plan_def connections_def consumers_def)
  show ?thesis
    unfolding p serve_def by (intro boot_rules; simp)
qed
section \<open>Properties\<close>

abbreviation new_process :: "(nat \<Rightarrow> goerr option) \<Rightarrow> process" where
  "new_process f \<equiv> \<lparr>io = f, events = [], registered = []\<rparr>"

text \<open>
  Claim C15. The process follows its plan. Whatever calls are refused, \<^verbatim>\<open>main\<close> makes the calls of the plan in
  order up to the first one refused; if there is one, that call's constructor gives back what it opened
  itself, \<^verbatim>\<open>logger.Fatal\<close> ends the process, and nothing more happens: no deferred \<^verbatim>\<open>Close\<close>. If
  none is refused the process waits for a signal, cancels the root context, then stops the eight consumers in the order they
  were registered, shuts the HTTP server down and closes Redis, Postgres and NATS.
\<close>

theorem main_follows_plan:
  "case Load readInt getenv of
     Inl e \<Rightarrow> run_state (main readInt getenv) (new_process f) = (Fatal ''config load failed'' e, new_process f)
   | Inr cfg \<Rightarrow> (case (carry_out f 0 (plan cfg), run_state (main readInt getenv) (new_process f)) of
       ((es, ok), (x, p')) \<Rightarrow>
         if ok then x = Exited \<and> es = map Did (plan cfg) \<and>
           events p' = es @ map Did (epilogue (map cc_DurableName (consumers cfg)))
         else x \<noteq> Exited \<and> events p' = es)"
proof (cases "Load readInt getenv")
  case (Inl e)
  then show ?thesis by (simp add: main_def)
next
  case (Inr cfg)
  have "consumed (plan cfg) = map cc_DurableName (consumers cfg)"
    by (simp add: plan_def connections_def registration_def consumers_def streams_def)
  then show ?thesis
    using serve_boots [of cfg, unfolded boots_def boots_at_def, rule_format, of "new_process f"] carry_out_length Inr
    by (auto simp: main_def split: prod.splits)
qed

lemma nth_consume_plan:
  assumes "i < length (take k (plan cfg))" and "take k (plan cfg) ! i = Consume d"
  shows "set (connections cfg) \<subseteq> set (take i (take k (plan cfg)))"
proof -
  define rest where "rest = drop (length (connections cfg)) (plan cfg)"
  have s: "plan cfg = connections cfg @ rest" by (simp add: rest_def plan_def)
  have n: "Consume d \<notin> set (connections cfg)" by (auto simp: connections_def streams_def)
  have i: "length (connections cfg) \<le> i"
  proof (rule ccontr)
    assume "\<not> length (connections cfg) \<le> i"
    moreover have "i < k" "plan cfg ! i = Consume d" using assms by simp_all
    ultimately have "connections cfg ! i = Consume d" "i < length (connections cfg)"
      by (simp_all add: s nth_append)
    then show False using n by (metis nth_mem)
  qed
  moreover have "i \<le> k" using assms(1) by simp
  ultimately show ?thesis by (simp add: s take_append)
qed

text \<open>
  Claim C16. No message is taken before the process can handle it: when a consumer starts to consume,
  all seven streams have been created, both databases have answered a ping and the AWS configuration is
  loaded, in every run, whatever is refused.
\<close>

theorem consumes_when_ready:
  assumes "run_state (serve cfg) (new_process f) = (x, p')" and "i < length (events p')" and "events p' ! i = Did (Consume d)"
  shows "Did ` set (connections cfg) \<subseteq> set (take i (events p'))"
proof -
  obtain k rest where k: "fst (carry_out f 0 (plan cfg)) = map Did (take k (plan cfg)) @ rest" "\<forall>d. Did (Consume d) \<notin> set rest"
    using carry_out_stops by blast
  have ep: "Did (Consume d) \<notin> set (map Did (epilogue rs))" for rs by (auto simp: epilogue_def)
  define start where "start = map Did (take k (plan cfg))"
  obtain rest' where e: "events p' = start @ rest'" "Did (Consume d) \<notin> set rest'"
    unfolding start_def using serve_boots [of cfg, unfolded boots_def boots_at_def, rule_format, of "new_process f"] assms(1) k ep
    by (auto split: prod.splits if_splits)
  have n: "i < length start"
  proof (rule ccontr)
    assume n: "\<not> i < length start"
    then have "i - length start < length rest'" using assms(2) e(1) by simp
    moreover have "rest' ! (i - length start) = Did (Consume d)" using n assms(3) e(1) by (simp add: nth_append)
    ultimately show False using e(2) by (metis nth_mem)
  qed
  then have l: "i < length (take k (plan cfg))" by (simp add: start_def)
  have "start ! i = Did (Consume d)" using n assms(3) by (simp add: e(1) nth_append)
  then have "take k (plan cfg) ! i = Consume d" using l by (simp add: start_def)
  from nth_consume_plan [OF l this] have "Did ` set (connections cfg) \<subseteq> set (map Did (take i (take k (plan cfg))))"
    by (simp only: set_map image_mono)
  moreover have "take i (events p') = map Did (take i (take k (plan cfg)))"
    using n unfolding e(1) by (simp add: start_def take_map)
  ultimately show ?thesis by simp
qed

text \<open>The third registration is refused: the consumers before it have started.\<close>

lemma consumes_when_ready_witness:
  "let p' = snd (run_state (serve default_config) (new_process (\<lambda>k. if k = 20 then Some (Err ''timeout'') else None)))
   in Did ` set (connections default_config) \<subseteq> set (take 16 (events p'))"
proof -
  let ?f = "\<lambda>k. if k = (20::nat) then Some (Err ''timeout'') else None"
  have l: "16 < length (events (snd (run_state (serve default_config) (new_process ?f))))" by code_simp
  have n: "events (snd (run_state (serve default_config) (new_process ?f))) ! 16 = Did (Consume ''domain-verify-worker'')" by code_simp
  show ?thesis
    unfolding Let_def by (rule consumes_when_ready [OF prod.collapse [symmetric] l n])
qed

text \<open>
  What loading needs: a value that can be read under every variable that is set, the defaults being readable themselves.
\<close>

lemma and_then_Inr: "and_then r k = Inr y \<longleftrightarrow> (\<exists>x. r = Inr x \<and> k x = Inr y)"
  by (cases r) (simp_all add: and_then_def)

lemma and_then_ok: "(\<exists>y. and_then r k = Inr y) \<longleftrightarrow> (\<exists>x. r = Inr x \<and> (\<exists>y. k x = Inr y))"
  by (auto simp: and_then_Inr)

lemma required_Inr: "required getenv key = Inr s \<longleftrightarrow> getenv key = Some s"
  by (simp add: required_def split: option.split)

definition readable :: "(string \<Rightarrow> 'a option) \<Rightarrow> (string \<Rightarrow> string option) \<Rightarrow> string \<Rightarrow> bool" where
  "readable parse getenv key \<longleftrightarrow> (case getenv key of None \<Rightarrow> True | Some s \<Rightarrow> parse s \<noteq> None)"

lemma setting_ok:
  "parse d \<noteq> None \<Longrightarrow> (\<exists>x. setting parse getenv key d = Inr x) \<longleftrightarrow> readable parse getenv key"
  by (auto simp: setting_def readable_def split: option.split)

definition int_keys :: "string list" where
  "int_keys = [''METRICS_PORT'', ''SES_RATE_LIMIT_PER_SEC'', ''CAMPAIGN_CHUNK_SIZE'', ''EVENT_MAX_RETRIES'', ''EVENT_BATCH_SIZE'',
     ''SEGMENT_MAX_RETRIES'', ''WORKFLOW_MAX_RETRIES'']"

definition duration_keys :: "string list" where
  "duration_keys = [''WORKFLOW_SCHEDULER_POLL_INTERVAL'', ''CAMPAIGN_SCHEDULER_POLL_INTERVAL'', ''DOMAIN_CLEANUP_INTERVAL'',
     ''DOMAIN_VERIFICATION_STALE_AFTER'', ''DATA_CLEANUP_INTERVAL'', ''DATA_RETAIN_FOR'']"

text \<open>
  Claim C29. When the configuration loads: for every environment, loading succeeds exactly when the four required
  variables are set, every numeric variable that is set holds a number and every duration that is set parses; an unset
  optional variable never stops the process, since its default can be read by any reader that reads plain decimals.
\<close>

theorem config_loads_iff:
  assumes "\<forall>n. readInt (show_nat n) = Some (int n)"
  shows "(\<exists>cfg. Load readInt getenv = Inr cfg) \<longleftrightarrow>
    list_all (\<lambda>k. getenv k \<noteq> None) [''NATS_URL'', ''DATABASE_URL'', ''REDIS_URL'', ''AWS_REGION''] \<and>
    list_all (readable readInt getenv) int_keys \<and> list_all (readable ParseDuration getenv) duration_keys"
proof -
  have ds: "ParseDuration ''30s'' = Some (30 * Second)" "ParseDuration ''60s'' = Some (60 * Second)"
    "ParseDuration ''6h'' = Some (6 * Hour)" "ParseDuration ''720h'' = Some (720 * Hour)"
    "ParseDuration ''1080h'' = Some (1080 * Hour)"
    by code_simp+
  have ns: "''9090'' = show_nat 9090" "''14'' = show_nat 14" "''500'' = show_nat 500" "''5'' = show_nat 5"
    "''100'' = show_nat 100"
    by (simp_all add: show_nat.simps digit_char_def, code_simp+)
  have ints: "readInt ''9090'' = Some 9090" "readInt ''14'' = Some 14" "readInt ''500'' = Some 500"
    "readInt ''5'' = Some 5" "readInt ''100'' = Some 100"
    unfolding ns using assms by simp_all
  show ?thesis
    unfolding Load_def and_then_ok
    by (simp add: required_Inr setting_ok ds ints int_keys_def duration_keys_def)
qed

definition read_decimal :: "string \<Rightarrow> int option" where
  "read_decimal s = (if list_all is_digit s then Some (digits_int 0 s) else None)"

lemma config_loads_iff_witness:
  "(\<exists>cfg. Load read_decimal [''NATS_URL'' \<mapsto> ''n'', ''DATABASE_URL'' \<mapsto> ''d'', ''REDIS_URL'' \<mapsto> ''r'', ''AWS_REGION'' \<mapsto> ''eu''] = Inr cfg) \<and>
   \<not> (\<exists>cfg. Load read_decimal [''NATS_URL'' \<mapsto> ''n'', ''DATABASE_URL'' \<mapsto> ''d'', ''REDIS_URL'' \<mapsto> ''r'', ''AWS_REGION'' \<mapsto> ''eu'',
     ''EVENT_BATCH_SIZE'' \<mapsto> ''many''] = Inr cfg)"
proof -
  have r: "\<forall>n. read_decimal (show_nat n) = Some (int n)"
    by (simp add: read_decimal_def show_nat_digits digits_int_show_nat)
  show ?thesis
    unfolding config_loads_iff [OF r] by code_simp
qed

end
