(* ===== verification/System.thy ===== *)
theory System
  imports Startup Codec
begin

text \<open>
  The whole worker: which handler \<^verbatim>\<open>main\<close> attaches to which consumer, what happens to an arbitrary
  message body, and the steps the process can take, messages of all consumers and runs of all schedulers in any order.
\<close>

section \<open>From a message body to its handler\<close>

text \<open>\<open>None\<close> is a body that is not JSON at all.\<close>

definition unmarshal :: "'a decoder \<Rightarrow> 'a \<Rightarrow> json option \<Rightarrow> nat option \<Rightarrow> 'a message" where
  "unmarshal dec zero body k = (case body of
     None \<Rightarrow> \<lparr>Data = None, NumDelivered = k\<rparr> | Some v \<Rightarrow> receive dec zero v k)"

definition finish_dispatch :: "hresult \<times> world \<Rightarrow> world" where
  "finish_dispatch x = (case x of (Done, w) \<Rightarrow> w | (_, w) \<Rightarrow> snd (run_state (settle Nak) w))"

definition email_handler :: "Config \<Rightarrow> EmailHandler" where
  "email_handler cfg = NewHandler (NewTokenBucket (SESRateLimitPerSec cfg))"

definition deliver_to :: "Config \<Rightarrow> string \<Rightarrow> json option \<Rightarrow> nat option \<Rightarrow> world \<Rightarrow> world option" where
  "deliver_to cfg durable body k w =
     (if durable = ''domain-verify-worker'' then
        Some (snd (run_state (dispatch Handle_domain (unmarshal decode_DomainVerifyPayload zero_DomainVerifyPayload body k)) w))
      else if durable = ''email-send-worker'' then
        Some (snd (run_state (dispatch (Handle_transactional (email_handler cfg))
          (unmarshal decode_TransactionalEmailPayload zero_TransactionalEmailPayload body k)) w))
      else if durable = ''campaign-start-worker'' then
        Some (snd (run_state (dispatch (Handle_start (batcher_chunk_size (CampaignChunkSize cfg)))
          (unmarshal decode_CampaignStartPayload zero_CampaignStartPayload body k)) w))
      else if durable = ''campaign-chunk-worker'' then
        Some (snd (run_state (dispatch (Handle_chunk (email_handler cfg))
          (unmarshal decode_CampaignChunkPayload zero_CampaignChunkPayload body k)) w))
      else if durable = ''events-enrichment-worker'' then
        Some (snd (run_state (dispatch (Handle_event (EventMaxRetries cfg + 1))
          (unmarshal decode_RawEventPayload zero_RawEventPayload body k)) w))
      else if durable = ''segment-refresh-worker'' then
        Some (snd (run_state (dispatch (Handle_segment (SegmentMaxRetries cfg + 1))
          (unmarshal decode_SegmentRefreshPayload zero_SegmentRefreshPayload body k)) w))
      else if durable = ''workflow-trigger-worker'' then
        map_option finish_dispatch (Handle_trigger (WorkflowMaxRetries cfg + 1)
          (unmarshal decode_WorkflowTriggerPayload zero_WorkflowTriggerPayload body k) w)
      else if durable = ''workflow-register-worker'' then
        Some (snd (run_state (dispatch Handle_register
          (unmarshal decode_WorkflowRegisterPayload zero_WorkflowRegisterPayload body k)) w))
      else None)"

section \<open>Steps of the process\<close>

text \<open>
  One step is one delivery to a registered consumer or one tick of a scheduler, and time passes between
  the steps; a step that does not return is none.
\<close>

inductive system_step :: "Config \<Rightarrow> world \<Rightarrow> world \<Rightarrow> bool" for cfg where
  delivery: "c \<in> set (consumers cfg) \<Longrightarrow> deliver_to cfg (cc_DurableName c) body k w = Some w' \<Longrightarrow> system_step cfg w w'"
| domain_tick: "w' = snd (run_state (sweep_domains (DomainVerificationStaleAfter cfg)) w) \<Longrightarrow> system_step cfg w w'"
| data_tick: "w' = snd (run_state (sweep_cleanup (DataRetainFor cfg)) w) \<Longrightarrow> system_step cfg w w'"
| campaign_tick: "w' = snd (run_state poll_campaigns w) \<Longrightarrow> system_step cfg w w'"
| workflow_tick: "poll_workflows w = Some w' \<Longrightarrow> system_step cfg w w'"
| idle: "0 \<le> t \<Longrightarrow> w' = w\<lparr>now := now w + t\<rparr> \<Longrightarrow> system_step cfg w w'"

inductive_cases system_stepE: "system_step cfg w w'"

section \<open>Every body is settled\<close>

definition is_object :: "json option \<Rightarrow> bool" where
  "is_object body = (case body of Some (JObj kvs) \<Rightarrow> True | _ \<Rightarrow> False)"

text \<open>What others see of the worker: its rows, its keys in Redis, the jobs it publishes and the mails it sends.\<close>

definition effects :: "world \<Rightarrow> pg \<times> (string \<Rightarrow> (rval \<times> int) option) \<times> pubmsg list \<times> ses_message list" where
  "effects w = (db w, redis w, published w, mail w)"

definition terminates :: "('p message \<Rightarrow> (world, hresult) state) \<Rightarrow> 'p message \<Rightarrow> bool" where
  "terminates h m \<longleftrightarrow> (\<forall>w. wp (dispatch h m) (\<lambda>_ w'. settled w' = settled w @ [Term] \<and> effects w' = effects w) w)"

lemma unmarshal_no_object:
  assumes "\<not> is_object body"
  shows "Data (unmarshal (decode_struct fs) zero body k) = None \<or> Data (unmarshal (decode_struct fs) zero body k) = Some zero"
  using assms by (auto simp: unmarshal_def receive_def is_object_def split: option.splits json.splits)

lemma terminates_no_object:
  "Data m1 = None \<or> Data m1 = Some zero_DomainVerifyPayload \<Longrightarrow> terminates Handle_domain m1"
  "Data m2 = None \<or> Data m2 = Some zero_TransactionalEmailPayload \<Longrightarrow> terminates (Handle_transactional h) m2"
  "Data m3 = None \<or> Data m3 = Some zero_CampaignStartPayload \<Longrightarrow> terminates (Handle_start sz) m3"
  "Data m4 = None \<or> Data m4 = Some zero_CampaignChunkPayload \<Longrightarrow> terminates (Handle_chunk h) m4"
  "Data m5 = None \<or> Data m5 = Some zero_RawEventPayload \<Longrightarrow> terminates (Handle_event n) m5"
  "Data m6 = None \<or> Data m6 = Some zero_SegmentRefreshPayload \<Longrightarrow> terminates (Handle_segment n) m6"
  "Data m7 = None \<or> Data m7 = Some zero_WorkflowRegisterPayload \<Longrightarrow> terminates Handle_register m7"
  unfolding terminates_def dispatch_def effects_def
  by (auto simp: Handle_domain_def Handle_transactional_def Handle_start_def Handle_chunk_def Handle_event_def Handle_segment_def
      Handle_register_def finish_def wp_rules zero_DomainVerifyPayload_def zero_TransactionalEmailPayload_def
      zero_CampaignStartPayload_def zero_CampaignChunkPayload_def zero_RawEventPayload_def zero_SegmentRefreshPayload_def
      zero_WorkflowRegisterPayload_def validatePayload_def validateCampaignStart_def validateCampaignChunk_def validate_event_def)

lemma trigger_no_object:
  assumes "Data m = None \<or> Data m = Some zero_WorkflowTriggerPayload"
  shows "\<exists>w'. Handle_trigger n m w = Some (Done, w') \<and> settled w' = settled w @ [Term] \<and> effects w' = effects w"
proof -
  obtain u w0 where w0: "run_state (inc ''workflow_triggers_total'') w = (u, w0)"
    by (cases "run_state (inc ''workflow_triggers_total'') w")
  have "settled w0 = settled w" "effects w0 = effects w" using w0 by (auto simp: inc_by_def effects_def)
  then show ?thesis
    using assms unfolding Handle_trigger_def w0 prod.case
    by (auto simp: finish_def settle_def zero_WorkflowTriggerPayload_def effects_def)
qed

lemma terminatesD:
  "terminates h m \<Longrightarrow> settled (snd (run_state (dispatch h m) w)) = settled w @ [Term] \<and> effects (snd (run_state (dispatch h m) w)) = effects w"
  by (simp add: terminates_def wp_def)

section \<open>Properties\<close>

text \<open>
  Claim C17. Whatever bytes a registered consumer receives, its delivery is settled exactly once, in every environment
  and whether the handler returns or panics; only the domain poller asks for a delay of its own, and only a workflow
  trigger may keep its message unsettled, by running a graph without end.
\<close>

theorem every_body_settled_once:
  "list_all (\<lambda>c. case deliver_to cfg (cc_DurableName c) body k w of
      None \<Rightarrow> cc_DurableName c = ''workflow-trigger-worker''
    | Some w' \<Rightarrow> \<exists>d. settled w' = settled w @ [d] \<and> (cc_DurableName c = ''domain-verify-worker'' \<or> d \<in> plain))
    (consumers cfg)"
proof -
  have d: "\<exists>d. settled (snd (run_state (dispatch h m) w)) = settled w @ [d] \<and> d \<in> plain"
    if "settles_in plain (h m)" for h and m :: "'p message"
    using dispatch_settles_in [of plain h m w] that by auto
  have t: "\<exists>d. settled (finish_dispatch x) = settled w @ [d] \<and> d \<in> plain" if "Handle_trigger n m w = Some x" for n m x
    using Handle_trigger_settles [of n m w] that by (cases x) (auto simp: settled_once_def finish_dispatch_def)
  have p: "\<exists>d. settled (snd (run_state (dispatch Handle_domain m) w)) = settled w @ [d]" for m
    using domain.dispatch_settles_once [of m w] by (simp add: wp_def)
  show ?thesis
    by (simp add: deliver_to_def consumers_def p d settles_in_transactional settles_in_start settles_in_chunk
        settles_in_event settles_in_segment settles_in_register t split: option.split)
qed

text \<open>
  Claim C18. A message body that is not a JSON object, not JSON at all included, is terminated by every consumer and
  has no other effect: no row, no key in Redis, no published job and no mail comes of it.
\<close>

theorem no_object_is_terminated:
  assumes "\<not> is_object body"
  shows "list_all (\<lambda>c. \<exists>w'. deliver_to cfg (cc_DurableName c) body k w = Some w' \<and>
    settled w' = settled w @ [Term] \<and> effects w' = effects w) (consumers cfg)"
proof -
  note no = unmarshal_no_object [OF assms]
  have t: "\<exists>w'. map_option finish_dispatch (Handle_trigger n (unmarshal decode_WorkflowTriggerPayload zero_WorkflowTriggerPayload body k) w) =
      Some w' \<and> settled w' = settled w @ [Term] \<and> effects w' = effects w" for n
  proof -
    let ?m = "unmarshal decode_WorkflowTriggerPayload zero_WorkflowTriggerPayload body k"
    have "Data ?m = None \<or> Data ?m = Some zero_WorkflowTriggerPayload"
      unfolding decode_WorkflowTriggerPayload_def by (rule no)
    from trigger_no_object [OF this, of n w]
    obtain w' where "Handle_trigger n ?m w = Some (Done, w')" "settled w' = settled w @ [Term]" "effects w' = effects w" by blast
    then show ?thesis by (intro exI [of _ w']) (simp add: finish_dispatch_def)
  qed
  have u: "terminates Handle_domain (unmarshal decode_DomainVerifyPayload zero_DomainVerifyPayload body k)"
    "terminates (Handle_transactional h) (unmarshal decode_TransactionalEmailPayload zero_TransactionalEmailPayload body k)"
    "terminates (Handle_start sz) (unmarshal decode_CampaignStartPayload zero_CampaignStartPayload body k)"
    "terminates (Handle_chunk h) (unmarshal decode_CampaignChunkPayload zero_CampaignChunkPayload body k)"
    "terminates (Handle_event n) (unmarshal decode_RawEventPayload zero_RawEventPayload body k)"
    "terminates (Handle_segment n) (unmarshal decode_SegmentRefreshPayload zero_SegmentRefreshPayload body k)"
    "terminates Handle_register (unmarshal decode_WorkflowRegisterPayload zero_WorkflowRegisterPayload body k)" for h sz n
    unfolding decode_DomainVerifyPayload_def decode_TransactionalEmailPayload_def decode_CampaignStartPayload_def decode_CampaignChunkPayload_def decode_RawEventPayload_def decode_SegmentRefreshPayload_def decode_WorkflowRegisterPayload_def
    by (intro terminates_no_object no)+
  show ?thesis
    using t [of "WorkflowMaxRetries cfg + 1"] by (simp add: deliver_to_def consumers_def u [THEN terminatesD])
qed

lemma no_object_is_terminated_witness:
  "list_all (\<lambda>c. \<exists>w'. deliver_to default_config (cc_DurableName c) (Some (JArr [])) (Some 1) quiet_world = Some w' \<and>
    settled w' = settled quiet_world @ [Term] \<and> effects w' = effects quiet_world) (consumers default_config)"
  by (rule no_object_is_terminated) (simp add: is_object_def)

end
