(* ===== verification/Evolution.thy ===== *)
theory Evolution
  imports System
begin

text \<open>
  What any run of the worker may do, messages of all consumers and ticks of all schedulers in any order and with any
  faults: the relation \<open>evolves\<close>, which every handler and every scheduler guarantees. It never takes back a mail
  recorded as sent or a completed campaign, it only adds to the mails and to the published messages, and what it publishes
  carries the payload that its subject promises.
\<close>

section \<open>Final facts\<close>

text \<open>
  What no step may take back: mails recorded as sent, campaigns recorded as completed. The poll for due campaigns
  selects rows by the campaign id alone, so it respects completed ones only as long as ids are unique.
\<close>

definition final_sends :: "pg \<Rightarrow> (string \<times> string) set" where
  "final_sends d = {(es_send_id r, es_workspace_id r) | r. r \<in> set (email_sends d) \<and> status_in (es_status r) [''sent'', ''bounced'']}"

definition final_recipients :: "pg \<Rightarrow> (string \<times> string) set" where
  "final_recipients d =
     {(cr_id r, cr_workspace_id r) | r. r \<in> set (campaign_recipients d) \<and> status_in (cr_status r) [''sent'', ''bounced'']}"

definition final_campaigns :: "pg \<Rightarrow> (string \<times> string) set" where
  "final_campaigns d = {(cp_id r, cp_workspace_id r) | r. r \<in> set (campaigns d) \<and> cp_status r = ''completed''}"

definition finals_kept :: "pg \<Rightarrow> pg \<Rightarrow> bool" where
  "finals_kept d d' \<longleftrightarrow> final_sends d \<subseteq> final_sends d' \<and> final_recipients d \<subseteq> final_recipients d' \<and>
     map cp_id (campaigns d') = map cp_id (campaigns d) \<and>
     (distinct (map cp_id (campaigns d)) \<longrightarrow> final_campaigns d \<subseteq> final_campaigns d')"

section \<open>What a step may do\<close>

text \<open>The subjects on which a payload of each type may be published.\<close>

fun subjects_of :: "payload \<Rightarrow> string list" where
  "subjects_of (PTransactional p) = [''email.send.transactional'']"
| "subjects_of (PCampaignStart p) = [''campaign.send.start'']"
| "subjects_of (PCampaignChunk p) = [''campaign.send.chunk'']"
| "subjects_of (PWorkflowTrigger p) = [''workflow.trigger'']"
| "subjects_of (PDelivery p) = [''email.delivery.events'']"
| "subjects_of (PTransactionalDLQ p) = [''email.send.dlq'']"
| "subjects_of (PCampaignDLQ p) = [''campaign.send.dlq'']"
| "subjects_of (PMap p) = [''domain.verified.v1'', ''domain.verification.reminder.v1'', ''domain.verification.expired.v1'']"

definition well_addressed :: "pubmsg \<Rightarrow> bool" where
  "well_addressed m \<longleftrightarrow> pm_Subject m \<in> set (subjects_of (pm_Payload m))"

definition grows :: "('a \<Rightarrow> bool) \<Rightarrow> 'a list \<Rightarrow> 'a list \<Rightarrow> bool" where
  "grows P xs ys \<longleftrightarrow> (\<exists>zs. ys = xs @ zs \<and> list_all P zs)"

lemma grows_refl [simp]: "grows P xs xs"
  by (simp add: grows_def)

lemma grows_append [simp]: "grows P xs (xs @ zs) \<longleftrightarrow> list_all P zs"
  by (simp add: grows_def)

lemma grows_trans: "grows P xs ys \<Longrightarrow> grows P ys zs \<Longrightarrow> grows P xs zs"
  by (auto simp: grows_def)

definition evolves :: "world \<Rightarrow> world \<Rightarrow> bool" where
  "evolves w w' \<longleftrightarrow> env w' = env w \<and> finals_kept (db w) (db w') \<and> grows well_addressed (published w) (published w') \<and>
     grows (\<lambda>_. True) (mail w) (mail w')"

lemma finals_refl [simp]: "finals_kept d d"
  by (simp add: finals_kept_def)

lemma finals_trans: "finals_kept d e \<Longrightarrow> finals_kept e f \<Longrightarrow> finals_kept d f"
  by (auto simp: finals_kept_def)

interpretation steps: guarantee evolves
  by unfold_locales (auto simp: evolves_def intro: finals_trans grows_trans)

definition delivery_tables :: "pg \<Rightarrow> email_send_row list \<times> recipient_row list \<times> campaign_row list" where
  "delivery_tables d = (email_sends d, campaign_recipients d, campaigns d)"

lemma finals_same: "delivery_tables d' = delivery_tables d \<Longrightarrow> finals_kept d d'"
  by (simp add: finals_kept_def delivery_tables_def final_sends_def final_recipients_def final_campaigns_def)

text \<open>What is left of the world when the clock, Redis, the metrics and the dispositions are taken away.\<close>

definition outward :: "world \<Rightarrow> env \<times> pg \<times> pubmsg list \<times> ses_message list" where
  "outward w = (env w, db w, published w, mail w)"

lemma steady_outward [simp]: "steady outward"
  by (simp add: steady_def outward_def)

lemma outward_updates [simp]:
  "outward (w\<lparr>redis := r\<rparr>) = outward w" "outward (w\<lparr>settled := s\<rparr>) = outward w" "outward (w\<lparr>now := t\<rparr>) = outward w"
  "outward (w\<lparr>tick := k\<rparr>) = outward w" "outward (w\<lparr>metrics := q\<rparr>) = outward w" "outward (w\<lparr>uuid_next := n\<rparr>) = outward w"
  by (simp_all add: outward_def)

lemma evolves_same: "outward w' = outward w \<Longrightarrow> evolves w w'"
  by (simp add: evolves_def outward_def)

lemma evolves_calm: "preserves outward m \<Longrightarrow> state_io_rel evolves m"
  by (auto simp: state_io_rel_def preserves_def intro: evolves_same)

lemma evolves_clock: "evolves (step_clock w) w' \<longleftrightarrow> evolves w w'" "evolves w (step_clock w)"
  by (simp_all add: evolves_def)

lemma evolves_call:
  assumes "\<And>w. evolves w (snd (op w))"
  shows "state_io_rel evolves (call op)"
  using assms [of "step_clock _"]
  by (auto simp: state_io_rel_def call_def Let_def evolves_clock split: fault.split)

lemma evolves_exec: "(\<And>t d. finals_kept d (f t d)) \<Longrightarrow> state_io_rel evolves (exec f)"
  unfolding exec_def by (rule evolves_call) (simp add: evolves_def)

lemma evolves_exec_returning:
  "(\<And>t d. finals_kept d (snd (f t d))) \<Longrightarrow> state_io_rel evolves (exec_returning f)"
  unfolding exec_returning_def by (rule evolves_call) (auto simp: evolves_def split_beta)

lemma evolves_Publish: "s \<in> set (subjects_of p) \<Longrightarrow> state_io_rel evolves (Publish s p i)"
  unfolding Publish_def by (intro steps.guar_rules evolves_call) (simp add: evolves_def well_addressed_def)

lemma evolves_SendEmail: "state_io_rel evolves (SendEmail i)"
  unfolding SendEmail_def by (intro steps.guar_rules evolves_call) (auto simp: evolves_def split: sum.split)

definition reach :: "world \<Rightarrow> env \<times> pubmsg list" where
  "reach w = (env w, published w)"

lemma steady_reach [simp]: "steady reach"
  by (simp add: steady_def reach_def)

lemma reach_updates [simp]: "reach (w\<lparr>db := d\<rparr>) = reach w" "reach (w\<lparr>redis := r\<rparr>) = reach w" "reach (w\<lparr>settled := s\<rparr>) = reach w"
  by (simp_all add: reach_def)

lemma evolves_publishing:
  "state_io_rel evolves (publishDeliveryEvent p a b c)" "state_io_rel evolves (publishDLQ p a k)"
  "state_io_rel evolves (publishDeliveryEvent_chunk chunk a b c d)" "state_io_rel evolves (publishCampaignDLQ chunk a k)"
  "state_io_rel evolves (publish_chunk s i rs)" "state_io_rel evolves (fire cmp)" "state_io_rel evolves (executeEmail x n)"
  unfolding publishDeliveryEvent_def publishDLQ_def publishDeliveryEvent_chunk_def publishCampaignDLQ_def publish_chunk_def
    fire_def executeEmail_def
  by (intro steps.guar_rules evolves_Publish; (simp; fail)?; intro evolves_calm frame; simp)+

lemma evolves_publishEvent: "s \<in> set (subjects_of (PMap [])) \<Longrightarrow> state_io_rel evolves (publishEvent s p)"
  unfolding publishEvent_def by (intro steps.guar_rules evolves_Publish) simp

text \<open>An update of one of the three tables keeps the final facts when it keeps those of each row.\<close>

lemma update_keeps_keys:
  assumes "\<And>r. r \<in> set t \<Longrightarrow> P r \<Longrightarrow> S r \<Longrightarrow> S (f r) \<and> key (f r) = key r"
  shows "{key r | r. r \<in> set t \<and> S r} \<subseteq> {key r | r. r \<in> set (update_where P f t) \<and> S r}"
proof
  fix x
  assume "x \<in> {key r | r. r \<in> set t \<and> S r}"
  then obtain r where r: "r \<in> set t" "S r" "x = key r" by blast
  let ?r = "if P r then f r else r"
  have "?r \<in> set (update_where P f t)" using r(1) by (auto simp: in_update_where)
  moreover have "S ?r" "x = key ?r" using assms [of r] r by auto
  ultimately show "x \<in> {key r | r. r \<in> set (update_where P f t) \<and> S r}" by blast
qed

lemma finals_update_sends:
  assumes "\<And>r. P r \<Longrightarrow> status_in (es_status r) [''sent'', ''bounced''] \<Longrightarrow>
      status_in (es_status (f r)) [''sent'', ''bounced''] \<and> es_send_id (f r) = es_send_id r \<and> es_workspace_id (f r) = es_workspace_id r"
  shows "finals_kept d (d\<lparr>email_sends := update_where P f (email_sends d)\<rparr>)"
  using update_keeps_keys [where key = "\<lambda>r. (es_send_id r, es_workspace_id r)" and t = "email_sends d" and P = P and f = f
      and S = "\<lambda>r. status_in (es_status r) [''sent'', ''bounced'']"] assms
  by (simp add: finals_kept_def final_sends_def final_recipients_def final_campaigns_def)

lemma finals_update_recipients:
  assumes "\<And>r. P r \<Longrightarrow> status_in (cr_status r) [''sent'', ''bounced''] \<Longrightarrow>
      status_in (cr_status (f r)) [''sent'', ''bounced''] \<and> cr_id (f r) = cr_id r \<and> cr_workspace_id (f r) = cr_workspace_id r"
  shows "finals_kept d (d\<lparr>campaign_recipients := update_where P f (campaign_recipients d)\<rparr>)"
  using update_keeps_keys [where key = "\<lambda>r. (cr_id r, cr_workspace_id r)" and t = "campaign_recipients d" and P = P and f = f
      and S = "\<lambda>r. status_in (cr_status r) [''sent'', ''bounced'']"] assms
  by (simp add: finals_kept_def final_sends_def final_recipients_def final_campaigns_def)

lemma finals_update_campaigns:
  assumes "\<And>r. P r \<Longrightarrow> cp_id (f r) = cp_id r"
    and "\<And>r. distinct (map cp_id (campaigns d)) \<Longrightarrow> r \<in> set (campaigns d) \<Longrightarrow> P r \<Longrightarrow> cp_status r = ''completed'' \<Longrightarrow>
      cp_status (f r) = ''completed'' \<and> cp_workspace_id (f r) = cp_workspace_id r"
  shows "finals_kept d (d\<lparr>campaigns := update_where P f (campaigns d)\<rparr>)"
proof -
  have "final_campaigns d \<subseteq> final_campaigns (d\<lparr>campaigns := update_where P f (campaigns d)\<rparr>)"
    if "distinct (map cp_id (campaigns d))"
    using update_keeps_keys [where key = "\<lambda>r. (cp_id r, cp_workspace_id r)" and t = "campaigns d" and P = P and f = f
        and S = "\<lambda>r. cp_status r = ''completed''"] that assms
    by (simp add: final_campaigns_def)
  then show ?thesis
    using map_update_where [of P cp_id f "campaigns d"] assms(1)
    by (simp add: finals_kept_def final_sends_def final_recipients_def)
qed

lemmas finals_updates = finals_update_sends finals_update_recipients finals_update_campaigns

lemma evolves_delivery_writes:
  "state_io_rel evolves (UpdateEmailSendSending a b)" "state_io_rel evolves (UpdateEmailSendSent a b c)"
  "state_io_rel evolves (UpdateEmailSendFailed a b c)" "state_io_rel evolves (MarkCampaignRecipientSending a b)"
  "state_io_rel evolves (MarkCampaignRecipientSent a b c)" "state_io_rel evolves (MarkCampaignRecipientFailed a b c)"
  "state_io_rel evolves (UpdateCampaignStarted a b n)" "state_io_rel evolves (IncrementCampaignCounts a b n m)"
  "state_io_rel evolves (MarkCampaignComplete a b)" "state_io_rel evolves (MarkCampaignCompleteEmpty a b)"
proof -
  show "state_io_rel evolves (UpdateEmailSendSending a b)"
    unfolding UpdateEmailSendSending_def mark_send_sending_def by (rule evolves_exec, rule finals_updates) (auto simp: status_in_def)
  show "state_io_rel evolves (UpdateEmailSendSent a b c)"
    unfolding UpdateEmailSendSent_def mark_send_sent_def by (rule evolves_exec, rule finals_updates) (auto simp: status_in_def)
  show "state_io_rel evolves (UpdateEmailSendFailed a b c)"
    unfolding UpdateEmailSendFailed_def mark_send_failed_def by (rule evolves_exec, rule finals_updates) (auto simp: status_in_def)
  show "state_io_rel evolves (MarkCampaignRecipientSending a b)"
    unfolding MarkCampaignRecipientSending_def mark_recipient_sending_def by (rule evolves_exec, rule finals_updates) (auto simp: status_in_def)
  show "state_io_rel evolves (MarkCampaignRecipientSent a b c)"
    unfolding MarkCampaignRecipientSent_def mark_recipient_sent_def by (rule evolves_exec, rule finals_updates) (auto simp: status_in_def)
  show "state_io_rel evolves (MarkCampaignRecipientFailed a b c)"
    unfolding MarkCampaignRecipientFailed_def mark_recipient_failed_def by (rule evolves_exec, rule finals_updates) (auto simp: status_in_def)
  show "state_io_rel evolves (UpdateCampaignStarted a b n)"
    unfolding UpdateCampaignStarted_def start_campaign_def by (rule evolves_exec, rule finals_updates) (auto simp: status_in_def)
  show "state_io_rel evolves (MarkCampaignCompleteEmpty a b)"
    unfolding MarkCampaignCompleteEmpty_def complete_empty_campaign_def by (rule evolves_exec, rule finals_updates) (auto simp: status_in_def)
  show "state_io_rel evolves (IncrementCampaignCounts a b n m)"
    unfolding IncrementCampaignCounts_def
    by (rule evolves_exec_returning) (auto simp: increment_counts_def Let_def split: option.split intro!: finals_updates)
  show "state_io_rel evolves (MarkCampaignComplete a b)"
    unfolding MarkCampaignComplete_def
    by (rule evolves_exec_returning) (auto simp: complete_campaign_def Let_def intro!: finals_updates)
qed

lemma evolves_due: "state_io_rel evolves (GetDueCampaigns n)"
proof -
  have "finals_kept d (snd (take_due n t d))" for t d
  proof -
    let ?ids = "map cp_id (take n (sort_key (\<lambda>r. coalesce (cp_scheduled_at r) 0) (filter (due t) (campaigns d))))"
    have "cp_status r \<noteq> ''completed''"
      if u: "distinct (map cp_id (campaigns d))" and r: "r \<in> set (campaigns d)" and i: "cp_id r \<in> set ?ids" for r
    proof -
      obtain q where "q \<in> set (campaigns d)" "due t q" "cp_id q = cp_id r"
        using i by (auto dest!: in_set_takeD)
      then have "q = r" using u r by (auto simp: distinct_map inj_on_def)
      then show ?thesis using \<open>due t q\<close> by (simp add: due_def)
    qed
    then show ?thesis unfolding take_due_def Let_def snd_conv by (intro finals_updates) auto
  qed
  then show ?thesis
    unfolding GetDueCampaigns_def by (intro steps.guar_rules evolves_exec_returning)
qed

definition finals_in :: "recipient_row list \<Rightarrow> (string \<times> string) set" where
  "finals_in rs = {(cr_id r, cr_workspace_id r) | r. r \<in> set rs \<and> status_in (cr_status r) [''sent'', ''bounced'']}"

lemma finals_in_touch: "finals_in rs \<subseteq> finals_in (update_where P (\<lambda>r. r\<lparr>cr_updated_at := t\<rparr>) rs)"
  unfolding finals_in_def by (rule update_keeps_keys) simp

lemma upsert_finals: "finals_in rs \<subseteq> finals_in (snd (upsert_recipient t i c ws ct rs))"
  using finals_in_touch [of rs] by (auto simp: upsert_recipient_def Let_def finals_in_def split: option.split)

lemma insert_finals:
  assumes "db w = d" and "finals_in rs0 \<subseteq> finals_in rs"
  shows "wp (insert_recipients c ws cts rs) (\<lambda>x w'. db w' = d \<and>
     (\<forall>out rs'. x = Inr (out, rs') \<longrightarrow> finals_in rs0 \<subseteq> finals_in rs')) w"
  using assms
proof (induction cts arbitrary: rs w)
  case Nil
  then show ?case by (simp add: wp_return)
next
  case (Cons ct cts)
  let ?w1 = "step_clock (w\<lparr>uuid_next := Suc (uuid_next w)\<rparr>)"
  obtain row rs1 where u: "upsert_recipient (now ?w1) (uuids (env w) (uuid_next w)) c ws ct rs = (row, rs1)"
    by (metis surj_pair)
  have "finals_in rs0 \<subseteq> finals_in rs1"
    using upsert_finals [of rs "now ?w1" "uuids (env w) (uuid_next w)" c ws ct] Cons.prems(2) u by simp
  from Cons.IH [OF _ this, of ?w1] show ?case
    using Cons.prems u
    by (simp add: wp_rules split: fault.split) (intro impI, elim wp_mono, auto simp: wp_rules split: sum.splits)
qed

lemma evolves_Bulk: "state_io_rel evolves (BulkInsertCampaignRecipients a b cts)"
proof -
  have f: "wp (BulkInsertCampaignRecipients a b cts) (\<lambda>_ w'. finals_kept (db w) (db w')) w" for w
  proof -
    have i: "wp (insert_recipients a b cts (campaign_recipients (db w))) (\<lambda>x w'. db w' = db w \<and>
      (\<forall>out rs'. x = Inr (out, rs') \<longrightarrow> final_recipients (db w) \<subseteq> finals_in rs')) (step_clock w)"
      using insert_finals [of "step_clock w" "db w" "campaign_recipients (db w)" "campaign_recipients (db w)" a b cts]
      by (simp add: finals_in_def final_recipients_def)
    have "finals_kept d (d\<lparr>campaign_recipients := rs\<rparr>)" if "final_recipients d \<subseteq> finals_in rs" for d rs
      using that by (simp add: finals_kept_def final_sends_def final_campaigns_def final_recipients_def finals_in_def)
    with i show ?thesis
      by (simp add: BulkInsertCampaignRecipients_def wp_rules finals_kept_def split: fault.split)
        (intro impI, elim wp_mono, auto simp: wp_rules split: sum.splits fault.splits)
  qed
  have "preserves reach (BulkInsertCampaignRecipients a b cts)" "preserves mail (BulkInsertCampaignRecipients a b cts)"
    unfolding BulkInsertCampaignRecipients_def by (intro frame; simp)+
  then show ?thesis
    using f by (auto simp: state_io_rel_def wp_def case_prod_beta preserves_def evolves_def reach_def)
qed

section \<open>Every handler evolves\<close>

lemma evolves_send_and_settle: "state_io_rel evolves (send_and_settle h p n r)"
  unfolding send_and_settle_def markFailedAndPublishEvent_def
  by (intro steps.guar_rules evolves_delivery_writes evolves_publishing evolves_SendEmail; intro evolves_calm frame; simp)

lemma evolves_transactional: "state_io_rel evolves (Handle_transactional h m)"
  unfolding Handle_transactional_def markFailedAndPublishEvent_def
  by (intro steps.guar_rules evolves_delivery_writes evolves_publishing evolves_send_and_settle; intro evolves_calm frame; simp)

lemma evolves_processRecipient: "state_io_rel evolves (processRecipient h c r rd)"
  unfolding processRecipient_def
  by (intro steps.guar_rules evolves_delivery_writes evolves_publishing evolves_SendEmail; intro evolves_calm frame; simp)

lemma evolves_chunk_loop: "state_io_rel evolves (chunk_loop h c rd rs res tr)"
proof (induction rs arbitrary: res tr)
  case Nil
  show ?case unfolding chunk_loop.simps by (rule steps.guar_return)
next
  case (Cons r rs)
  show ?case unfolding chunk_loop.simps
    by (intro steps.guar_rules guar_case_outcome Cons.IH evolves_processRecipient; intro evolves_calm frame; simp)
qed

lemma evolves_fail_recipients: "state_io_rel evolves (fail_recipients c a b rs n)"
proof (induction rs arbitrary: n)
  case Nil
  show ?case unfolding fail_recipients.simps by (rule steps.guar_return)
next
  case (Cons r rs)
  show ?case unfolding fail_recipients.simps
    by (intro steps.guar_rules Cons.IH evolves_delivery_writes evolves_publishing; intro evolves_calm frame; simp)
qed

lemma evolves_chunk_parts:
  "state_io_rel evolves (count_failed c n)" "state_io_rel evolves (apply_progress c res)"
  "state_io_rel evolves (chunk_disposition c n res tr)" "state_io_rel evolves (failAllRecipients c x)"
  unfolding count_failed_def apply_progress_def chunk_disposition_def failAllRecipients_def
  by (intro steps.guar_rules evolves_delivery_writes evolves_publishing evolves_fail_recipients; (intro evolves_calm frame; simp)?)+

lemma evolves_chunk: "state_io_rel evolves (Handle_chunk h m)"
  unfolding Handle_chunk_def
  by (intro steps.guar_rules evolves_chunk_loop evolves_chunk_parts; intro evolves_calm frame; simp)

lemma evolves_after: "state_io_rel evolves m \<Longrightarrow> run_state m v = (x, v') \<Longrightarrow> evolves w v \<Longrightarrow> evolves w v'"
  unfolding state_io_rel_def by (metis steps.R_trans snd_conv)

lemma evolves_StreamAndChunk_loop: "evolves w (snd (StreamAndChunk_loop sz p a t i w))"
proof (induction sz p a t i w rule: StreamAndChunk_loop.induct)
  case (1 sz p a t i w)
  have q: "state_io_rel evolves ctx_err"
    "state_io_rel evolves (FetchSegmentContactsBatch (cs_WorkspaceID p) (cs_SegmentID p) a sz)"
    by (intro evolves_calm frame; simp)+
  obtain stop w0 where w0: "run_state ctx_err w = (stop, w0)" by fastforce
  note s0 = evolves_after [OF q(1) w0 steps.R_refl]
  obtain x w1 where w1: "run_state (FetchSegmentContactsBatch (cs_WorkspaceID p) (cs_SegmentID p) a sz) w0 = (x, w1)" by fastforce
  note s1 = evolves_after [OF q(2) w1 s0]
  show ?case
  proof (cases "stop \<or> isl x \<or> projr x = []")
    case True
    then show ?thesis using s0 s1 by (subst StreamAndChunk_loop.simps) (auto simp: w0 w1 split: sum.split)
  next
    case False
    then obtain batch where x: "x = Inr batch" "batch \<noteq> []" "\<not> stop" by (cases x) auto
    obtain y w2 where w2: "run_state (BulkInsertCampaignRecipients (cs_CampaignID p) (cs_WorkspaceID p) batch) w1 = (y, w2)" by fastforce
    note s2 = evolves_after [OF evolves_Bulk w2 s1]
    show ?thesis
    proof (cases y)
      case (Inl err)
      then show ?thesis using s2 x by (subst StreamAndChunk_loop.simps) (simp add: w0 w1 w2)
    next
      case (Inr rs)
      obtain z w3 where w3: "run_state (publish_chunk p i rs) w2 = (z, w3)" by fastforce
      note s3 = evolves_after [OF evolves_publishing(5) w3 s2]
      have "evolves w (snd (StreamAndChunk_loop sz p (c_ID (last batch)) (t + length rs) (Suc i) w3))"
        if "z = Inr u" "\<not> length batch < sz" for u
        using steps.R_trans [OF s3] 1 [OF w0 [symmetric] x(3) w1 [symmetric] x(1,2) w2 [symmetric] Inr w3 [symmetric] that] .
      then show ?thesis
        using s3 x Inr by (subst StreamAndChunk_loop.simps) (simp add: w0 w1 w2 w3 split: sum.split)
    qed
  qed
qed

lemma evolves_start: "state_io_rel evolves (Handle_start sz m)"
  unfolding Handle_start_def StreamAndChunk_def
  by (intro steps.guar_rules steps.guar_State evolves_StreamAndChunk_loop evolves_delivery_writes; intro evolves_calm frame; simp)

lemma evolves_domain_writes:
  "state_io_rel evolves (UpdateDomainVerified i ws)" "state_io_rel evolves (UpdateDomainPending i ws n)"
  "state_io_rel evolves (UpdateDomainFailed i ws n)" "state_io_rel evolves (MarkDomainExpired i ws)"
  unfolding UpdateDomainVerified_def UpdateDomainPending_def UpdateDomainFailed_def MarkDomainExpired_def
  by (rule evolves_exec, rule finals_same, simp add: delivery_tables_def)+

lemma evolves_domain: "state_io_rel evolves (Handle_domain m)"
proof -
  have "state_io_rel evolves (settle_verification p n st)" for p n st
    unfolding settle_verification_def
    by (cases st; simp only: VerificationStatus.case; intro steps.guar_rules evolves_domain_writes evolves_publishEvent;
        (simp; fail)?; intro evolves_calm frame; simp)
  then show ?thesis
    unfolding Handle_domain_def by (intro steps.guar_rules; (assumption | intro evolves_calm frame; simp))
qed

lemma event_finals: "event_evolves p w w' \<Longrightarrow> finals_kept (db w) (db w')"
proof -
  assume "event_evolves p w w'"
  then have "delivery_tables (db w') = delivery_tables (db w\<lparr>contacts := contacts (db w'), events_raw := events_raw (db w'),
      events_enriched := events_enriched (db w')\<rparr>)"
    unfolding event_evolves_def by metis
  then show ?thesis by (intro finals_same) (simp add: delivery_tables_def)
qed

lemma evolves_from_event: "state_io_rel (event_evolves p) m \<Longrightarrow> preserves reach m \<Longrightarrow> state_io_rel evolves m"
  by (auto simp: state_io_rel_def preserves_def evolves_def reach_def intro: event_finals) (auto simp: event_evolves_def)

lemma evolves_triggers: "state_io_rel evolves (publish_triggers q i ts)"
proof (induction ts)
  case Nil
  show ?case unfolding publish_triggers.simps by (rule steps.guar_return)
next
  case (Cons t ts)
  show ?case unfolding publish_triggers.simps
    by (intro steps.guar_rules Cons.IH evolves_Publish; (simp; fail)?; intro evolves_calm frame; simp)
qed

lemma evolves_event: "state_io_rel evolves (Handle_event n m)"
proof (cases "Data m")
  case None
  then show ?thesis unfolding Handle_event_def by (simp only: option.case) (intro steps.guar_rules; intro evolves_calm frame; simp)
next
  case (Some p)
  have q: "state_io_rel evolves (Enrich p)" "state_io_rel evolves (persistEnriched p res)"
    "state_io_rel evolves (MarkRawEventProcessing (re_EventID p) (re_WorkspaceID p))"
    "state_io_rel evolves (MarkRawEventProcessed (re_EventID p) (re_WorkspaceID p))"
    "state_io_rel evolves (MarkRawEventFailed (re_EventID p) (re_WorkspaceID p) s)" for res s
  proof -
    show "state_io_rel evolves (persistEnriched p res)"
      by (rule evolves_from_event [OF event_persist], unfold persistEnriched_def, intro frame; simp)
  qed (rule evolves_from_event, rule event_Enrich event_raw_writes, intro frame; simp)+
  show ?thesis
    unfolding Handle_event_def process_event_def handleTransient_def evaluateWorkflowTriggers_def Some option.case
    by (intro steps.guar_rules event_case_enriched q evolves_triggers; intro evolves_calm frame; simp)
qed

lemma evolves_segment: "state_io_rel evolves (Handle_segment n m)"
proof (cases "Data m")
  case None
  then show ?thesis unfolding Handle_segment_def by (simp only: option.case) (intro steps.guar_rules; intro evolves_calm frame; simp)
next
  case (Some p)
  have "finals_kept (db w) (db w')" if e: "segment_evolves p w w'" for w w'
  proof -
    have "delivery_tables (db w') = delivery_tables ((db w)\<lparr>segments := segments (db w'), segment_memberships := segment_memberships (db w')\<rparr>)"
      using e unfolding segment_evolves_def by metis
    then show ?thesis by (intro finals_same) (simp add: delivery_tables_def)
  qed
  moreover have "preserves env (Handle_segment n m)"
    unfolding Handle_segment_def refresh_def recompute_def apply_matched_def by (intro frame; simp)
  ultimately show ?thesis
    using segment_guar_Handle [OF Some, of n] by (auto simp: state_io_rel_def preserves_def evolves_def segment_evolves_def)
qed

section \<open>Workflows\<close>

lemma evolves_executions:
  "state_io_rel evolves (AdvanceExecution i a b)" "state_io_rel evolves (ScheduleDelay i a t)"
  "state_io_rel evolves (CompleteExecution i)" "state_io_rel evolves (FailExecution i s)"
  "state_io_rel evolves (CreateExecution a b c d)"
  unfolding AdvanceExecution_def ScheduleDelay_def CompleteExecution_def FailExecution_def CreateExecution_def
  by (intro steps.guar_rules evolves_exec evolves_exec_returning; (intro evolves_calm frame; simp)?;
      auto simp: update_execution_def create_execution_def Let_def delivery_tables_def intro!: finals_same split: option.split)+

lemma evolves_run_node: "state_io_rel evolves (run_node x n)"
  unfolding run_node_def finish_or_advance_def
  by (intro steps.guar_rules evolves_executions evolves_publishing; intro evolves_calm frame; simp)

lemma evolves_Run: "Run x nodes w = Some (r, w') \<Longrightarrow> evolves w w'"
proof -
  have "Run_loop x nm cur w = Some (r, w') \<Longrightarrow> evolves w w'" for nm cur
    by (induction rule: Run_loop_induct)
      (auto intro: steps.R_refl steps.R_trans dest: evolves_after [OF evolves_run_node _ steps.R_refl])
  then show "Run x nodes w = Some (r, w') \<Longrightarrow> evolves w w'" by (simp add: Run_def)
qed

lemma evolves_ResumeFromDelay:
  assumes "ResumeFromDelay x nodes w = Some (r, w')"
  shows "evolves w w'"
proof -
  have c: "evolves v v'" if "run_state (CompleteExecution i) v = (y, v')" for i v y v'
    using evolves_after [OF evolves_executions(3) that steps.R_refl] .
  have a: "evolves v v'" if "run_state (AdvanceExecution i s t) v = (y, v')" for i s t v y v'
    using evolves_after [OF evolves_executions(1) that steps.R_refl] .
  show ?thesis using assms
    by (auto simp: ResumeFromDelay_def split: option.splits if_splits prod.splits sum.splits
        intro: steps.R_refl c a steps.R_trans [OF a] dest!: evolves_Run)
qed

lemma evolves_resume_locked:
  assumes "resume_locked x w = Some w'"
  shows "evolves w w'"
proof -
  have q: "state_io_rel evolves (GetWorkflow a b)" "state_io_rel evolves (GetExecution a)" for a b
    by (intro evolves_calm frame; simp)+
  have f: "evolves v (snd (run_state (FailExecution i s) v))" for i s v
    using evolves_executions(4) [of i s] by (simp add: state_io_rel_def)
  obtain r1 w1 where g: "run_state (GetWorkflow (xr_WorkflowID x) (xr_WorkspaceID x)) w = (r1, w1)" by fastforce
  note s1 = evolves_after [OF q(1) g steps.R_refl]
  obtain r2 w2 where h: "run_state (GetExecution (xr_ID x)) w1 = (r2, w2)" by fastforce
  note s2 = evolves_after [OF q(2) h steps.R_refl]
  have s3: "evolves w1 w3" if "ResumeFromDelay l nodes w2 = Some (r, w3)" for l nodes r w3
    using steps.R_trans [OF s2 evolves_ResumeFromDelay [OF that]] .
  have "evolves w1 w'"
    using assms g h s2 f
    by (auto simp: resume_locked_def split: sum.splits option.splits if_splits
        intro: steps.R_refl steps.R_trans [OF s2 f] f s3 steps.R_trans [OF s3 f])
  then show ?thesis using s1 steps.R_trans by blast
qed

lemma evolves_resume:
  assumes "resume x w = Some w'"
  shows "evolves w w'"
proof -
  have l: "state_io_rel evolves (AcquireLock k v d)" "state_io_rel evolves (ReleaseLock k v)" for k v d
    by (intro evolves_calm frame; simp)+
  obtain r w1 where a: "run_state (AcquireLock (execution_lock_key (xr_ID x)) ''scheduler-resume'' (2 * Minute)) w = (r, w1)" by fastforce
  note s = evolves_after [OF l(1) a steps.R_refl]
  show ?thesis
  proof (cases r)
    case (Inl e)
    then show ?thesis using assms a s unfolding resume_def by simp
  next
    case (Inr u)
    then obtain w2 where "resume_locked x w1 = Some w2"
      "w' = snd (run_state (ReleaseLock (execution_lock_key (xr_ID x)) ''scheduler-resume'') w2)"
      using assms a unfolding resume_def by (auto split: option.splits)
    then show ?thesis
      using steps.R_trans [OF steps.R_trans [OF s evolves_resume_locked]] l(2) by (simp add: state_io_rel_def)
  qed
qed

lemma evolves_resume_all: "resume_all xs w = Some w' \<Longrightarrow> evolves w w'"
proof (induction xs arbitrary: w)
  case Nil
  then show ?case by (simp add: steps.R_refl)
next
  case (Cons x xs)
  obtain stop w1 where c: "run_state ctx_err w = (stop, w1)" by fastforce
  have "state_io_rel evolves ctx_err" by (intro evolves_calm frame; simp)
  note s = evolves_after [OF this c steps.R_refl]
  show ?case
    using Cons.prems Cons.IH s by (auto simp: c split: if_splits option.splits bool.splits dest!: evolves_resume
        intro: steps.R_trans [OF s] steps.R_trans [OF steps.R_trans [OF s]])
qed

lemma evolves_start_execution: "state_io_rel evolves (start_execution n k p)"
  unfolding start_execution_def nak_trigger_def
  by (intro steps.guar_rules evolves_executions; intro evolves_calm frame; simp)

lemma evolves_run_triggered: "run_triggered n k p i flow w = Some (x, w') \<Longrightarrow> evolves w w'"
proof -
  have t: "state_io_rel evolves (fail_run i s)" for s
    unfolding fail_run_def by (intro steps.guar_rules evolves_executions; intro evolves_calm frame; simp)
  have m: "state_io_rel evolves (do { fail_run i s; settle Term })"
    "state_io_rel evolves (do { fail_run i s; nak_trigger n k })" "state_io_rel evolves (do { recordOutcome st; settle Ack })" for s st
    unfolding nak_trigger_def recordOutcome_def by (intro steps.guar_rules t; intro evolves_calm frame; simp)+
  assume h: "run_triggered n k p i flow w = Some (x, w')"
  show "evolves w w'"
  proof (cases "ParseWorkflowNodes (wkf_Nodes flow)")
    case (Inl e)
    then show ?thesis using evolves_after [OF m(1) _ steps.R_refl] h by (simp only: run_triggered_def sum.case option.inject)
  next
    case (Inr nodes)
    then obtain r v where r: "Run (trigger_execution p i) nodes w = Some (r, v)"
      using h by (auto simp: run_triggered_def split: option.splits)
    note s = evolves_Run [OF r]
    show ?thesis
      using h evolves_after [OF m(2) _ s] evolves_after [OF m(3) _ s]
      by (cases r) (simp_all only: run_triggered_def Inr r sum.case option.case prod.case option.inject)
  qed
qed

lemma evolves_trigger: "Handle_trigger n m w = Some (x, w') \<Longrightarrow> evolves w w'"
proof -
  have q: "state_io_rel evolves (inc_by c 1)" "state_io_rel evolves (finish d)" "state_io_rel evolves (ReleaseLock k v)" for c d k v
    by (intro evolves_calm frame; simp)+
  obtain u w0 where w0: "run_state (inc ''workflow_triggers_total'') w = (u, w0)"
    by (cases "run_state (inc ''workflow_triggers_total'') w")
  note s0 = evolves_after [OF q(1) w0 steps.R_refl]
  assume h: "Handle_trigger n m w = Some (x, w')"
  show "evolves w w'"
  proof (cases "Data m")
    case None
    then show ?thesis using h evolves_after [OF q(2) _ s0] unfolding Handle_trigger_def w0 prod.case None option.case by auto
  next
    case (Some p)
    obtain y w1 where w1: "run_state (start_execution n (attempt_of m) p) w0 = (y, w1)" by fastforce
    note s1 = evolves_after [OF evolves_start_execution w1 s0]
    have "evolves w (snd (run_state (ReleaseLock l t) v))" if "run_triggered n k p i flow w1 = Some (z, v)" for k i flow z v l t
      using steps.R_trans [OF steps.R_trans [OF s1 evolves_run_triggered [OF that]]] q(3) by (simp add: state_io_rel_def)
    then show ?thesis
      using h s1 evolves_after [OF q(2) _ s0] unfolding Handle_trigger_def w0 prod.case Some option.case w1
      by (auto split: if_splits option.splits prod.splits)
  qed
qed

lemma evolves_register: "state_io_rel evolves (Handle_register m)"
  unfolding Handle_register_def by (intro evolves_calm frame; simp)

section \<open>Every tick evolves\<close>

lemma evolves_sweep_domains: "state_io_rel evolves (sweep_domains stale)"
proof -
  have "state_io_rel evolves (expire_domains ds)" for ds
  proof (induction ds)
    case Nil
    show ?case unfolding expire_domains.simps by (rule steps.guar_return)
  next
    case (Cons d ds)
    show ?case unfolding expire_domains.simps
      by (intro steps.guar_rules Cons.IH evolves_domain_writes evolves_publishEvent; (simp; fail)?; intro evolves_calm frame; simp)
  qed
  then show ?thesis unfolding sweep_domains_def by (intro steps.guar_rules; (assumption | intro evolves_calm frame; simp))
qed

lemma evolves_deletes:
  "state_io_rel evolves (DeleteOldAuditLogs r n)" "state_io_rel evolves (DeleteOldEvents r n)"
  unfolding DeleteOldAuditLogs_def DeleteOldEvents_def
  by (intro steps.guar_bind steps.guar_return evolves_exec_returning finals_same;
      simp add: delivery_tables_def delete_old_audit_logs_def delete_old_events_def Let_def)+

lemma evolves_sweep_loops: "evolves w (snd (sweepAuditLogs_loop r n w))" "evolves w (snd (sweepEvents_loop r n w))"
proof -
  have p: "evolves w (snd (pause d w))" for w d
    by (rule evolves_same) (simp add: pause_def)
  show "evolves w (snd (sweepAuditLogs_loop r n w))"
  proof (induction r n w rule: sweepAuditLogs_loop.induct)
    case (1 r n w)
    obtain x w1 where d: "run_state (DeleteOldAuditLogs r sweepBatch) w = (x, w1)" by (metis surj_pair)
    note s1 = evolves_after [OF evolves_deletes(1) d steps.R_refl]
    obtain go w2 where q: "pause (100 * Millisecond) w1 = (go, w2)" by (metis surj_pair)
    have s2: "evolves w w2" using steps.R_trans [OF s1] p [of w1] q by (metis snd_conv)
    show ?case
      using s1 s2 1 [OF d [symmetric] _ _ q [symmetric]] steps.R_trans
      unfolding sweepAuditLogs_loop.simps [of r n w] d prod.case q
      by (cases x) (auto intro: steps.R_trans [OF s2])
  qed
  show "evolves w (snd (sweepEvents_loop r n w))"
  proof (induction r n w rule: sweepEvents_loop.induct)
    case (1 r n w)
    obtain x w1 where d: "run_state (DeleteOldEvents r sweepBatch) w = (x, w1)" by (metis surj_pair)
    note s1 = evolves_after [OF evolves_deletes(2) d steps.R_refl]
    obtain go w2 where q: "pause (100 * Millisecond) w1 = (go, w2)" by (metis surj_pair)
    have s2: "evolves w w2" using steps.R_trans [OF s1] p [of w1] q by (metis snd_conv)
    show ?case
      using s1 s2 1 [OF d [symmetric] _ _ q [symmetric]] steps.R_trans
      unfolding sweepEvents_loop.simps [of r n w] d prod.case q
      by (cases x) (auto intro: steps.R_trans [OF s2])
  qed
qed

lemma evolves_sweep_cleanup: "state_io_rel evolves (sweep_cleanup r)"
  unfolding sweep_cleanup_def sweepAuditLogs_def sweepEvents_def
  by (intro steps.guar_rules steps.guar_State evolves_sweep_loops; intro evolves_calm frame; simp)

lemma evolves_poll_campaigns: "state_io_rel evolves poll_campaigns"
proof -
  have "state_io_rel evolves (fire_all cs)" for cs
  proof (induction cs)
    case Nil
    show ?case unfolding fire_all.simps by (rule steps.guar_return)
  next
    case (Cons c cs)
    show ?case unfolding fire_all.simps by (intro steps.guar_rules Cons.IH evolves_publishing)
  qed
  then show ?thesis unfolding poll_campaigns_def by (intro steps.guar_rules evolves_due)
qed

lemma evolves_poll_workflows: "poll_workflows w = Some w' \<Longrightarrow> evolves w w'"
proof -
  have l: "state_io_rel evolves (AcquireLock k v d)" "state_io_rel evolves (FetchDueExecutions b)" "state_io_rel evolves (ReleaseLock k v)" for k v d b
    by (intro evolves_calm frame; simp)+
  obtain x w1 where w1: "run_state (AcquireLock schedulerLockKey ''scheduler'' schedulerLockTTL) w = (x, w1)" by fastforce
  note s1 = evolves_after [OF l(1) w1 steps.R_refl]
  obtain y w2 where w2: "run_state (FetchDueExecutions schedulerBatch) w1 = (y, w2)" by fastforce
  note s2 = evolves_after [OF l(2) w2 s1]
  have r: "evolves w (snd (run_state (ReleaseLock schedulerLockKey ''scheduler'') v))" if "evolves w v" for v
    using steps.R_trans [OF that] l(3) by (simp add: state_io_rel_def)
  have "evolves w v" if "resume_all xs w2 = Some v" for xs v
    using steps.R_trans [OF s2 evolves_resume_all [OF that]] .
  then show "poll_workflows w = Some w' \<Longrightarrow> evolves w w'"
    unfolding poll_workflows_def w1 prod.case using s1 s2 r by (auto simp: w2 split: sum.splits option.splits)
qed

section \<open>Every step evolves\<close>

lemma evolves_dispatch: "state_io_rel evolves (h m) \<Longrightarrow> state_io_rel evolves (dispatch h m)"
  unfolding dispatch_def
  by (rule steps.guar_bind, assumption, split hresult.split) (intro conjI allI impI evolves_calm frame; simp)

lemma evolves_deliver:
  assumes "deliver_to cfg durable body k w = Some w'"
  shows "evolves w w'"
proof -
  have d: "evolves w (snd (run_state (dispatch h m) w))" if "state_io_rel evolves (h m)" for h and m :: "'p message"
    using evolves_dispatch [of h m, OF that] by (simp add: state_io_rel_def)
  have n: "evolves w (finish_dispatch (r, v))" if "evolves w v" for r v
    using that by (cases r) (simp_all add: finish_dispatch_def settle_def evolves_def)
  show ?thesis
    using assms
    by (auto simp: deliver_to_def split: if_splits dest: evolves_trigger
        intro: n d evolves_domain evolves_transactional evolves_start evolves_chunk evolves_event evolves_segment evolves_register)
qed

lemma evolves_step: "system_step cfg w w' \<Longrightarrow> evolves w w'"
proof (induction rule: system_step.induct)
  case (domain_tick w' w)
  then show ?case using evolves_sweep_domains by (simp add: state_io_rel_def)
next
  case (data_tick w' w)
  then show ?case using evolves_sweep_cleanup by (simp add: state_io_rel_def)
next
  case (campaign_tick w' w)
  then show ?case using evolves_poll_campaigns by (simp add: state_io_rel_def)
next
  case (idle t w' w)
  then show ?case by (simp add: evolves_def finals_same)
qed (auto intro: evolves_deliver evolves_poll_workflows)

lemma evolves_steps: "(system_step cfg)\<^sup>*\<^sup>* w w' \<Longrightarrow> evolves w w'"
  by (induction rule: rtranclp_induct) (auto intro: steps.R_refl steps.R_trans [OF _ evolves_step])

section \<open>Properties\<close>

text \<open>
  Claim C4. Nothing final is ever undone: whatever messages the consumers receive and whenever the schedulers tick, in
  any order, with any faults, a transactional mail or a recipient recorded as sent or bounced stays so, no campaign row
  appears or vanishes, and a completed campaign stays completed when campaign ids are unique.
\<close>

theorem finals_are_final:
  assumes "(system_step cfg)\<^sup>*\<^sup>* w w'"
  shows "final_sends (db w) \<subseteq> final_sends (db w') \<and> final_recipients (db w) \<subseteq> final_recipients (db w') \<and>
    map cp_id (campaigns (db w')) = map cp_id (campaigns (db w)) \<and>
    (distinct (map cp_id (campaigns (db w))) \<longrightarrow> final_campaigns (db w) \<subseteq> final_campaigns (db w'))"
  using evolves_steps [OF assms] by (simp add: evolves_def finals_kept_def)

definition final_world :: world where
  "final_world = quiet_world\<lparr>db := empty_pg\<lparr>
     email_sends := [\<lparr>es_send_id = ''e'', es_workspace_id = ''w'', es_status = ''sent'', es_provider_message_id = Some ''m'',
       es_failure_reason = None, es_updated_at = 0\<rparr>],
     campaigns := [sample_campaign ''completed'', (sample_campaign ''scheduled'')\<lparr>cp_id := ''d''\<rparr>]\<rparr>\<rparr>"

lemma finals_are_final_witness:
  "(''e'', ''w'') \<in> final_sends (db (snd (run_state poll_campaigns final_world))) \<and>
   (''c'', ''w'') \<in> final_campaigns (db (snd (run_state poll_campaigns final_world)))"
proof -
  have "(system_step default_config)\<^sup>*\<^sup>* final_world (snd (run_state poll_campaigns final_world))"
    by (rule r_into_rtranclp, rule system_step.campaign_tick, rule refl)
  note finals_are_final [OF this]
  moreover have "(''e'', ''w'') \<in> final_sends (db final_world)" "distinct (map cp_id (campaigns (db final_world)))"
    by (simp_all add: final_world_def final_sends_def sample_campaign_def)
  moreover have "(''c'', ''w'') \<in> final_campaigns (db final_world)"
    unfolding final_campaigns_def
    by (intro CollectI exI [of _ "sample_campaign ''completed''"]) (simp add: final_world_def sample_campaign_def)
  ultimately show ?thesis by blast
qed

end
