(* ===== verification/Routing.thy ===== *)
theory Routing
  imports Evolution
begin

text \<open>
  Where a published message goes: the stream that captures its subject, the consumers that \<^verbatim>\<open>main\<close> registers for
  it, and the payload their handlers decode. How JetStream matches a subject against a filter is a parameter with its
  documented laws.
\<close>

section \<open>Subjects\<close>

definition plain_subject :: "string \<Rightarrow> bool" where
  "plain_subject s \<longleftrightarrow> CHR ''*'' \<notin> set s \<and> CHR ''>'' \<notin> set s"

text \<open>
  A filter without wildcards matches itself, a final \<^verbatim>\<open>>\<close> one or more tokens, a final \<^verbatim>\<open>*\<close> one token.
\<close>

definition subject_matching :: "(string \<Rightarrow> string \<Rightarrow> bool) \<Rightarrow> bool" where
  "subject_matching matches \<longleftrightarrow>
     (\<forall>f s. plain_subject f \<longrightarrow> plain_subject s \<longrightarrow> matches f s = (s = f)) \<and>
     (\<forall>p s. plain_subject p \<longrightarrow> plain_subject s \<longrightarrow>
        matches (p @ ''.>'') s = (case strip_prefix (p @ ''.'') s of None \<Rightarrow> False | Some t \<Rightarrow> t \<noteq> '''')) \<and>
     (\<forall>p s. plain_subject p \<longrightarrow> plain_subject s \<longrightarrow>
        matches (p @ ''.*'') s = (case strip_prefix (p @ ''.'') s of None \<Rightarrow> False | Some t \<Rightarrow> t \<noteq> '''' \<and> CHR ''.'' \<notin> set t))"

definition captured_by :: "(string \<Rightarrow> string \<Rightarrow> bool) \<Rightarrow> string \<Rightarrow> string list" where
  "captured_by matches s = map st_Name (filter (\<lambda>st. list_ex (\<lambda>f. matches f s) (st_Subjects st)) streams)"

definition read_by :: "(string \<Rightarrow> string \<Rightarrow> bool) \<Rightarrow> Config \<Rightarrow> string \<Rightarrow> string list" where
  "read_by matches cfg s = map cc_DurableName (filter (\<lambda>c. matches (cc_Subject c) s) (consumers cfg))"

section \<open>The destinations of a payload\<close>

fun home :: "payload \<Rightarrow> string" where
  "home (PTransactional p) = ''EMAIL_SEND''"
| "home (PTransactionalDLQ p) = ''EMAIL_SEND''"
| "home (PCampaignStart p) = ''CAMPAIGN''"
| "home (PCampaignChunk p) = ''CAMPAIGN''"
| "home (PCampaignDLQ p) = ''CAMPAIGN''"
| "home (PWorkflowTrigger p) = ''WORKFLOW''"
| "home (PDelivery p) = ''EMAIL_EVENTS''"
| "home (PMap p) = ''DOMAIN''"

text \<open>No consumer reads dead letters, delivery events and the events of domains.\<close>

fun readers :: "payload \<Rightarrow> string list" where
  "readers (PTransactional p) = [''email-send-worker'']"
| "readers (PCampaignStart p) = [''campaign-start-worker'']"
| "readers (PCampaignChunk p) = [''campaign-chunk-worker'']"
| "readers (PWorkflowTrigger p) = [''workflow-trigger-worker'']"
| "readers p = []"

text \<open>What a reader does when it gets exactly the payload that was published.\<close>

fun handled :: "Config \<Rightarrow> payload \<Rightarrow> nat option \<Rightarrow> world \<Rightarrow> world option" where
  "handled cfg (PTransactional p) k w =
     Some (snd (run_state (dispatch (Handle_transactional (email_handler cfg)) \<lparr>Data = Some p, NumDelivered = k\<rparr>) w))"
| "handled cfg (PCampaignStart p) k w =
     Some (snd (run_state (dispatch (Handle_start (batcher_chunk_size (CampaignChunkSize cfg))) \<lparr>Data = Some p, NumDelivered = k\<rparr>) w))"
| "handled cfg (PCampaignChunk p) k w =
     Some (snd (run_state (dispatch (Handle_chunk (email_handler cfg)) \<lparr>Data = Some p, NumDelivered = k\<rparr>) w))"
| "handled cfg (PWorkflowTrigger p) k w =
     map_option finish_dispatch (Handle_trigger (WorkflowMaxRetries cfg + 1) \<lparr>Data = Some p, NumDelivered = k\<rparr> w)"
| "handled cfg p k w = None"

fun payload_ok :: "payload \<Rightarrow> bool" where
  "payload_ok (PTransactional p) = TransactionalEmailPayload_ok p"
| "payload_ok (PCampaignStart p) = CampaignStartPayload_ok p"
| "payload_ok (PCampaignChunk p) = CampaignChunkPayload_ok p"
| "payload_ok (PWorkflowTrigger p) = WorkflowTriggerPayload_ok p"
| "payload_ok p = True"

section \<open>Routing\<close>

lemma stream_filters:
  assumes "subject_matching matches" and "plain_subject s"
  shows "captured_by matches s = map fst (filter (\<lambda>(n, p). case strip_prefix (p @ ''.'') s of None \<Rightarrow> False | Some t \<Rightarrow> t \<noteq> '''')
    [(''DOMAIN'', ''domain''), (''EMAIL_SEND'', ''email.send''), (''CAMPAIGN'', ''campaign''), (''EMAIL_EVENTS'', ''email.delivery''),
     (''EVENTS_RAW'', ''events.raw''), (''WORKFLOW'', ''workflow''), (''SEGMENTS'', ''segment'')])"
proof -
  have m: "matches (p @ ''.>'') s = (case strip_prefix (p @ ''.'') s of None \<Rightarrow> False | Some t \<Rightarrow> t \<noteq> '''')" if "plain_subject p" for p
    using assms that by (simp add: subject_matching_def)
  show ?thesis
    using m [of "''domain''"] m [of "''email.send''"] m [of "''campaign''"] m [of "''email.delivery''"] m [of "''events.raw''"]
      m [of "''workflow''"] m [of "''segment''"]
    by (simp add: captured_by_def streams_def plain_subject_def)
qed

definition subscriptions :: "(string \<times> string) list" where
  "subscriptions = [(''domain-verify-worker'', ''domain.verify.poll''), (''email-send-worker'', ''email.send.transactional''),
     (''campaign-start-worker'', ''campaign.send.start''), (''campaign-chunk-worker'', ''campaign.send.chunk''),
     (''events-enrichment-worker'', ''events.raw.*''), (''segment-refresh-worker'', ''segment.refresh''),
     (''workflow-trigger-worker'', ''workflow.trigger''), (''workflow-register-worker'', ''workflow.register'')]"

lemma consumer_filters:
  assumes "subject_matching matches" and "plain_subject s" and "strip_prefix ''events.raw.'' s = None"
  shows "read_by matches cfg s = map fst (filter (\<lambda>(n, f). s = f) subscriptions)"
proof -
  have c: "subscriptions = map (\<lambda>c. (cc_DurableName c, cc_Subject c)) (consumers cfg)"
    by (simp add: consumers_def subscriptions_def)
  have "read_by matches cfg s = map fst (filter (\<lambda>(n, f). matches f s) subscriptions)"
    by (simp add: c read_by_def filter_map comp_def)
  moreover have "filter (\<lambda>(n, f). matches f s) subscriptions = filter (\<lambda>(n, f). s = f) subscriptions"
  proof (rule filter_cong, rule refl)
    have m: "matches f s = (s = f)" if "plain_subject f" for f
      using assms that by (simp add: subject_matching_def)
    have "\<not> matches ''events.raw.*'' s" "s \<noteq> ''events.raw.*''"
      using assms(1) [unfolded subject_matching_def, THEN conjunct2, THEN conjunct2, rule_format, of "''events.raw''" s] assms(2,3)
      by (auto simp: plain_subject_def)
    moreover have "list_all (\<lambda>x. x = (''events-enrichment-worker'', ''events.raw.*'') \<or> plain_subject (snd x)) subscriptions"
      by code_simp
    moreover fix x
    assume "x \<in> set subscriptions"
    ultimately show "(case x of (n, f) \<Rightarrow> matches f s) = (case x of (n, f) \<Rightarrow> s = f)"
      using m by (cases x) (auto simp: list_all_iff)
  qed
  ultimately show ?thesis by simp
qed

lemma routed:
  assumes "subject_matching matches" and "well_addressed m"
  shows "captured_by matches (pm_Subject m) = [home (pm_Payload m)]" "read_by matches cfg (pm_Subject m) = readers (pm_Payload m)"
proof -
  have s: "pm_Subject m \<in> set (subjects_of (pm_Payload m))" using assms(2) by (simp add: well_addressed_def)
  have "plain_subject (pm_Subject m)" "strip_prefix ''events.raw.'' (pm_Subject m) = None"
    using s by (cases "pm_Payload m"; auto simp: plain_subject_def)+
  note f = stream_filters [OF assms(1) this(1)] consumer_filters [OF assms(1) this]
  show "captured_by matches (pm_Subject m) = [home (pm_Payload m)]"
    unfolding f(1) using s by (cases "pm_Payload m") auto
  show "read_by matches cfg (pm_Subject m) = readers (pm_Payload m)"
    unfolding f(2) using s by (cases "pm_Payload m") (auto simp: subscriptions_def)
qed

lemma delivered_as_published:
  assumes "payload_ok p"
  shows "list_all (\<lambda>d. deliver_to cfg d (Some (Marshal p)) k v = handled cfg p k v) (readers p)"
  using assms
  by (cases p) (simp_all add: deliver_to_def unmarshal_def transactional_codec.received campaign_start_codec.received
      campaign_chunk_codec.received trigger_codec.received)

section \<open>Properties\<close>

text \<open>
  Claim C14. Every message reaches its reader: whatever the worker does, a message it publishes has a subject that
  exactly one stream captures, the consumers that read this subject are the ones meant for its payload, and each
  of them handles, whenever it is delivered, exactly the payload that was published, when its strings survive JSON.
\<close>

theorem published_jobs_routed:
  assumes "subject_matching matches" and "(system_step cfg)\<^sup>*\<^sup>* w w'"
    and "m \<in> set (drop (length (published w)) (published w'))"
  shows "captured_by matches (pm_Subject m) = [home (pm_Payload m)] \<and>
    read_by matches cfg (pm_Subject m) = readers (pm_Payload m) \<and>
    (payload_ok (pm_Payload m) \<longrightarrow>
      list_all (\<lambda>d. deliver_to cfg d (Some (Marshal (pm_Payload m))) k v = handled cfg (pm_Payload m) k v) (readers (pm_Payload m)))"
proof -
  have "well_addressed m"
    using evolves_steps [OF assms(2)] assms(3) by (auto simp: evolves_def grows_def list_all_iff)
  then show ?thesis using routed [OF assms(1)] delivered_as_published by blast
qed

definition match_subject :: "string \<Rightarrow> string \<Rightarrow> bool" where
  "match_subject f s =
     (if HasSuffix f ''.>'' then (case strip_prefix (butlast f) s of None \<Rightarrow> False | Some t \<Rightarrow> t \<noteq> '''')
      else if HasSuffix f ''.*'' then (case strip_prefix (butlast f) s of None \<Rightarrow> False | Some t \<Rightarrow> t \<noteq> '''' \<and> CHR ''.'' \<notin> set t)
      else s = f)"

lemma match_subject_laws: "subject_matching match_subject"
proof -
  have w: "\<not> HasSuffix f ''.>''" "\<not> HasSuffix f ''.*''" if "plain_subject f" for f
    using that by (auto simp: HasSuffix_iff plain_subject_def)
  have "butlast (p @ ''.>'') = p @ ''.''" "butlast (p @ ''.*'') = p @ ''.''" "HasSuffix (p @ ''.>'') ''.>''" "HasSuffix (p @ ''.*'') ''.*''"
    "\<not> HasSuffix (p @ ''.*'') ''.>''" for p
    by (auto simp: HasSuffix_iff butlast_append)
  then show ?thesis using w by (simp add: subject_matching_def match_subject_def)
qed

definition route_job :: pubmsg where
  "route_job = last (published (snd (run_state poll_campaigns final_world)))"

lemma route_job_published:
  "route_job \<in> set (drop (length (published final_world)) (published (snd (run_state poll_campaigns final_world))))"
  "\<exists>p. pm_Payload route_job = PCampaignStart p"
proof -
  have "length (published (snd (run_state poll_campaigns final_world))) = 1" "published final_world = []"
    "case pm_Payload route_job of PCampaignStart p \<Rightarrow> True | _ \<Rightarrow> False"
    by code_simp+
  then show "route_job \<in> set (drop (length (published final_world)) (published (snd (run_state poll_campaigns final_world))))"
    "\<exists>p. pm_Payload route_job = PCampaignStart p"
    by (cases "published (snd (run_state poll_campaigns final_world))"; auto simp: route_job_def split: payload.splits)+
qed

lemma published_jobs_routed_witness:
  "captured_by match_subject (pm_Subject route_job) = [''CAMPAIGN''] \<and>
   read_by match_subject default_config (pm_Subject route_job) = [''campaign-start-worker'']"
proof -
  have "(system_step default_config)\<^sup>*\<^sup>* final_world (snd (run_state poll_campaigns final_world))"
    by (rule r_into_rtranclp, rule system_step.campaign_tick, rule refl)
  from published_jobs_routed [OF match_subject_laws this route_job_published(1)] route_job_published(2)
  show ?thesis by auto
qed

end
