(* ===== verification/Races.thy ===== *)
theory Races
  imports CampaignChunk Workflows
begin

text \<open>
  Deliveries that overlap. The other theories handle one message at a time; two replicas of the process, or a
  redelivery whose first delivery is still running, interleave. Here the work of a chunk delivery on one recipient is
  cut at every external call, and any number of deliveries advance call by call in any order. The wait for the rate
  limiter is one step: it touches nothing but its Redis key and the clock, and what the others do meanwhile can
  as well be put before or after it.
\<close>

section \<open>A delivery, call by call\<close>

text \<open>
  Where a delivery stands: before the status is read, with the status read, past the limiter, with the row
  marked \<^verbatim>\<open>sending\<close>, with the answer of SES, with that answer recorded, and out.
\<close>

datatype phase =
    Arrived | Cleared | Admitted | Claimed | Accepted string | Rejected goerr | Recorded string | Closed goerr
  | Out recipientOutcome

fun recipient_call ::
    "EmailHandler \<Rightarrow> CampaignChunkPayload \<Rightarrow> CampaignChunkRecipient \<Rightarrow> Rendered \<Rightarrow> phase \<Rightarrow> (world, phase) state" where
  "recipient_call h chunk r rd Arrived = do {
     st \<leftarrow> GetCampaignRecipientStatus (ccr_RecipientID r) (cc_WorkspaceID chunk);
     State_Monad.return (case st of
         Inl err \<Rightarrow> Out (OTransient (err_string err))
       | Inr status \<Rightarrow> if status = ''sent'' \<or> status = ''bounced'' then Out ODuplicate else Cleared)
   }"
| "recipient_call h chunk r rd Cleared = do {
     (_, rlErr) \<leftarrow> Acquire (eh_limiter h) (ratelimit_key (cc_WorkspaceID chunk)) rateLimitWaitBudget;
     case rlErr of
       Some e \<Rightarrow> do {
         inc ''email_rate_limit_waits_total'';
         State_Monad.return (Out (OTransient ''rate limit''))
       }
     | None \<Rightarrow> State_Monad.return Admitted
   }"
| "recipient_call h chunk r rd Admitted = do {
     upd \<leftarrow> MarkCampaignRecipientSending (ccr_RecipientID r) (cc_WorkspaceID chunk);
     State_Monad.return (case upd of Inl err \<Rightarrow> Out (OTransient (err_string err)) | Inr _ \<Rightarrow> Claimed)
   }"
| "recipient_call h chunk r rd Claimed = do {
     out \<leftarrow> SendEmail (chunk_input chunk r rd);
     case out of
       Inl sendErr \<Rightarrow> do {
         inc ''email_ses_failures_total'';
         State_Monad.return (if eh_classifier h sendErr then Rejected sendErr else Out (OTransient (err_string sendErr)))
       }
     | Inr messageID \<Rightarrow> State_Monad.return (Accepted messageID)
   }"
| "recipient_call h chunk r rd (Accepted messageID) = do {
     _ \<leftarrow> MarkCampaignRecipientSent (ccr_RecipientID r) (cc_WorkspaceID chunk) messageID;
     State_Monad.return (Recorded messageID)
   }"
| "recipient_call h chunk r rd (Rejected sendErr) = do {
     _ \<leftarrow> MarkCampaignRecipientFailed (ccr_RecipientID r) (cc_WorkspaceID chunk) (err_string sendErr);
     State_Monad.return (Closed sendErr)
   }"
| "recipient_call h chunk r rd (Recorded messageID) = do {
     publishDeliveryEvent_chunk chunk (ccr_Email r) messageID ''sent'' '''';
     inc ''campaign_emails_sent_total'';
     State_Monad.return (Out OSent)
   }"
| "recipient_call h chunk r rd (Closed sendErr) = do {
     publishDeliveryEvent_chunk chunk (ccr_Email r) '''' ''failed'' (err_string sendErr);
     inc ''campaign_emails_failed_total'';
     State_Monad.return (Out OPermanent)
   }"
| "recipient_call h chunk r rd (Out x) = State_Monad.return (Out x)"

fun recipient_calls ::
    "EmailHandler \<Rightarrow> CampaignChunkPayload \<Rightarrow> CampaignChunkRecipient \<Rightarrow> Rendered \<Rightarrow> nat \<Rightarrow> phase \<Rightarrow> (world, phase) state" where
  "recipient_calls h chunk r rd 0 p = State_Monad.return p"
| "recipient_calls h chunk r rd (Suc n) p = do {
     q \<leftarrow> recipient_call h chunk r rd p;
     recipient_calls h chunk r rd n q
   }"

text \<open>Without another delivery in between, the six calls are the code's function.\<close>

lemma processRecipient_steps:
  "do { x \<leftarrow> processRecipient h chunk r rd; State_Monad.return (Out x) } = recipient_calls h chunk r rd 6 Arrived"
proof (rule state.expand, rule ext)
  fix w :: world
  show "run_state (do { x \<leftarrow> processRecipient h chunk r rd; State_Monad.return (Out x) }) w =
      run_state (recipient_calls h chunk r rd 6 Arrived) w"
    unfolding processRecipient_def
    by (auto simp: numeral_eq_Suc split: prod.split sum.split option.split)
qed

section \<open>Overlapping deliveries\<close>

text \<open>
  A delivery is in its window from the read of the status to the record of the answer. A state is the world and
  the deliveries, of which at most \<open>n\<close> are in their windows at a time. \<open>elsewhere\<close> is whatever else the worker does: other
  recipients, other messages, time.
\<close>

definition may_send :: "phase \<Rightarrow> bool" where
  "may_send p \<longleftrightarrow> p = Cleared \<or> p = Admitted \<or> p = Claimed"

lemma may_send_simps [simp]:
  "\<not> may_send Arrived" "may_send Cleared" "may_send Admitted" "may_send Claimed" "\<not> may_send (Accepted x)"
  "\<not> may_send (Rejected e)" "\<not> may_send (Recorded x)" "\<not> may_send (Closed e)" "\<not> may_send (Out out)"
  by (simp_all add: may_send_def)

fun unrecorded :: "phase \<Rightarrow> bool" where
  "unrecorded (Accepted _) \<longleftrightarrow> True"
| "unrecorded _ \<longleftrightarrow> False"

abbreviation number :: "(phase \<Rightarrow> bool) \<Rightarrow> phase list \<Rightarrow> nat" where
  "number P ps \<equiv> length (filter P ps)"

inductive overlap :: "nat \<Rightarrow> EmailHandler \<Rightarrow> CampaignChunkPayload \<Rightarrow> CampaignChunkRecipient \<Rightarrow> Rendered \<Rightarrow>
    world \<times> phase list \<Rightarrow> world \<times> phase list \<Rightarrow> bool" for n h chunk r rd where
  arrives: "overlap n h chunk r rd (w, ps) (w, ps @ [Arrived])"
| advances: "i < length ps \<Longrightarrow> run_state (recipient_call h chunk r rd (ps ! i)) w = (p, w') \<Longrightarrow>
    number may_send (ps[i := p]) + number unrecorded (ps[i := p]) \<le> n \<Longrightarrow> overlap n h chunk r rd (w, ps) (w', ps[i := p])"
| elsewhere: "env w' = env w \<Longrightarrow> rstat chunk r w' = rstat chunk r w \<Longrightarrow> mail w' = mail w \<Longrightarrow>
    overlap n h chunk r rd (w, ps) (w', ps)"

inductive_cases overlapE: "overlap n h chunk r rd (w, ps) (w', ps')"

definition open_row :: "CampaignChunkPayload \<Rightarrow> CampaignChunkRecipient \<Rightarrow> world \<Rightarrow> bool" where
  "open_row chunk r w \<longleftrightarrow> \<not> status_in (rstat chunk r w) ['''', ''sent'', ''bounced'']"

lemma number_update:
  "i < length ps \<Longrightarrow> number P (ps[i := p]) + of_bool (P (ps ! i)) = number P ps + of_bool (P p)"
proof (induction ps arbitrary: i)
  case (Cons q ps)
  then show ?case by (cases i) auto
qed simp

lemma Acquire_run:
  "wp (Acquire l key b) (\<lambda>_ w'. env w' = env w \<and> db w' = db w \<and> mail w' = mail w) w"
proof -
  obtain x w' where "run_state (Acquire l key b) w = (x, w')" by fastforce
  then show ?thesis using Acquire_keeps [of l key b w x w'] by (simp add: wp_def)
qed

text \<open>
  One step of a delivery: once the row is \<^verbatim>\<open>sent\<close> a mail costs a permission to send; before, every mail is one that is
  not recorded yet, and recording it closes the row.
\<close>

lemma step_run:
  assumes "reliable (env w)"
  shows "wp (recipient_call h chunk r rd p) (\<lambda>q w'. env w' = env w \<and>
    (rstat chunk r w = ''sent'' \<longrightarrow> rstat chunk r w' = ''sent'' \<and>
       length (mail w') + of_bool (may_send q) \<le> length (mail w) + of_bool (may_send p)) \<and>
    (open_row chunk r w \<longrightarrow>
       open_row chunk r w' \<and> length (mail w') + of_bool (unrecorded p) = length (mail w) + of_bool (unrecorded q) \<or>
       rstat chunk r w' = ''sent'' \<and> unrecorded p \<and> mail w' = mail w \<and> \<not> may_send q \<and> \<not> unrecorded q)) w"
proof (cases p)
  case Arrived
  then show ?thesis using assms
    by (auto simp: wp_rules GetCampaignRecipientStatus_def open_row_def rstat_def)
next
  case Cleared
  show ?thesis
    unfolding Cleared recipient_call.simps wp_bind
    by (rule wp_mono [OF Acquire_run]) (auto simp: wp_rules open_row_def rstat_def split: prod.split option.split)
next
  case Admitted
  then show ?thesis using assms
    by (auto simp: wp_rules MarkCampaignRecipientSending_def rstat_def recipient_status_sending open_row_def split: if_splits)
next
  case Claimed
  then show ?thesis using assms
    by (auto simp: wp_rules SendEmail_def rstat_def open_row_def split: sum.split)
next
  case (Accepted x)
  then show ?thesis using assms
    by (auto simp: wp_rules MarkCampaignRecipientSent_def rstat_def recipient_status_marks open_row_def split: if_splits)
next
  case (Rejected x)
  then show ?thesis using assms
    by (auto simp: wp_rules MarkCampaignRecipientFailed_def rstat_def recipient_status_marks open_row_def split: if_splits)
next
  case (Recorded x)
  then show ?thesis using assms
    by (auto simp: wp_rules publishDeliveryEvent_chunk_def Publish_def rstat_def open_row_def)
next
  case (Closed x)
  then show ?thesis using assms
    by (auto simp: wp_rules publishDeliveryEvent_chunk_def Publish_def rstat_def open_row_def)
next
  case (Out x)
  then show ?thesis by (auto simp: wp_rules)
qed

text \<open>
  Until the row says \<^verbatim>\<open>sent\<close> the mails are those not recorded yet; from then on only the deliveries already in their
  windows send.
\<close>

definition few_mails :: "nat \<Rightarrow> CampaignChunkPayload \<Rightarrow> CampaignChunkRecipient \<Rightarrow> nat \<Rightarrow> world \<times> phase list \<Rightarrow> bool" where
  "few_mails n chunk r m s = (case s of (w, ps) \<Rightarrow> reliable (env w) \<and>
     (if rstat chunk r w = ''sent'' then length (mail w) + number may_send ps \<le> m + n
      else open_row chunk r w \<and> length (mail w) = m + number unrecorded ps \<and>
        number may_send ps + number unrecorded ps \<le> n))"

lemma few_mails_step: "overlap n h chunk r rd s s' \<Longrightarrow> few_mails n chunk r m s \<Longrightarrow> few_mails n chunk r m s'"
proof (induction rule: overlap.induct)
  case (arrives w ps)
  then show ?case by (simp add: few_mails_def)
next
  case (advances i ps w p w')
  have "reliable (env w)" using advances by (simp add: few_mails_def)
  note run = wpD [OF step_run [OF this] advances(2)]
  note c = number_update [OF advances(1), of may_send p] number_update [OF advances(1), of unrecorded p]
  show ?case
  proof (cases "rstat chunk r w = ''sent''")
    case True
    then show ?thesis using run c(1) advances(4) by (simp add: few_mails_def)
  next
    case False
    then have "open_row chunk r w" "length (mail w) = m + number unrecorded ps" "reliable (env w)"
      "number may_send ps + number unrecorded ps \<le> n"
      using advances(4) by (simp_all add: few_mails_def)
    with run c advances(3) show ?thesis
      by (auto simp: few_mails_def open_row_def)
  qed
next
  case (elsewhere w' w ps)
  then show ?case by (simp add: few_mails_def open_row_def split: if_splits)
qed

lemma few_mails_run: "(overlap n h chunk r rd)\<^sup>*\<^sup>* s s' \<Longrightarrow> few_mails n chunk r m s \<Longrightarrow> few_mails n chunk r m s'"
  by (induction rule: rtranclp_induct) (auto intro: few_mails_step)

text \<open>A delivery that is never held up by the window, and the two marks of one that goes through.\<close>

lemma windows_le: "number may_send ps + number unrecorded ps \<le> length ps"
proof (induction ps)
  case (Cons p ps)
  then show ?case by (cases p) auto
qed simp

lemma overlap_steps:
  assumes "i < length ps" and "length ps \<le> n" and "run_state (recipient_calls h chunk r rd k (ps ! i)) w = (p, w')"
  shows "(overlap n h chunk r rd)\<^sup>*\<^sup>* (w, ps) (w', ps[i := p])"
  using assms
proof (induction k arbitrary: ps w)
  case 0
  then show ?case using list_update_id [of ps i] by auto
next
  case (Suc k)
  obtain q w1 where q: "run_state (recipient_call h chunk r rd (ps ! i)) w = (q, w1)" by fastforce
  have "overlap n h chunk r rd (w, ps) (w1, ps[i := q])"
    using Suc.prems(1,2) q windows_le [of "ps[i := q]"] by (intro overlap.advances) auto
  moreover have "(overlap n h chunk r rd)\<^sup>*\<^sup>* (w1, ps[i := q]) (w', (ps[i := q])[i := p])"
    using Suc.prems q by (intro Suc.IH) simp_all
  ultimately show ?case by simp
qed

abbreviation claims :: "EmailHandler \<Rightarrow> CampaignChunkPayload \<Rightarrow> CampaignChunkRecipient \<Rightarrow> Rendered \<Rightarrow> (world, phase) state" where
  "claims h chunk r rd \<equiv> recipient_calls h chunk r rd 3 Arrived"

abbreviation sends :: "EmailHandler \<Rightarrow> CampaignChunkPayload \<Rightarrow> CampaignChunkRecipient \<Rightarrow> Rendered \<Rightarrow> (world, phase) state" where
  "sends h chunk r rd \<equiv> recipient_calls h chunk r rd 3 Claimed"

lemma claim_run:
  assumes "reliable (env w)" and "open_row chunk r w"
  shows "wp (claims h chunk r rd) (\<lambda>p w'. env w' = env w \<and> mail w' = mail w \<and> open_row chunk r w' \<and>
    (p = Claimed \<or> p = Out (OTransient ''rate limit''))) w"
proof -
  define w0 where "w0 = step_clock w"
  obtain waited rl w1 where a: "run_state (Acquire (eh_limiter h) (ratelimit_key (cc_WorkspaceID chunk))
      rateLimitWaitBudget) w0 = ((waited, rl), w1)"
    by (metis surj_pair)
  have w1: "env w1 = env w" "db w1 = db w" "mail w1 = mail w"
    using Acquire_keeps [OF a] by (simp_all add: w0_def)
  have acq: "wp (Acquire (eh_limiter h) (ratelimit_key (cc_WorkspaceID chunk)) rateLimitWaitBudget) Q w0 =
      Q (waited, rl) w1" for Q
    by (simp add: wp_def a)
  show ?thesis
    using assms
    by (cases rl) (auto simp: numeral_eq_Suc wp_rules GetCampaignRecipientStatus_def acq open_row_def
         w0_def [symmetric] w1 MarkCampaignRecipientSending_def rstat_def recipient_status_sending split: if_splits)
qed

lemma send_run:
  assumes "reliable (env w)" and "validateCampaignChunk chunk = None"
    and "\<forall>k. \<not> isl (ses_api (env w) k (ses_request (chunk_input chunk r rd)))"
  shows "wp (sends h chunk r rd) (\<lambda>p w'. p = Out OSent \<and> env w' = env w \<and>
    mail w' = mail w @ [ses_request (chunk_input chunk r rd)]) w"
proof -
  obtain x where "ses_api (env w) (Suc (tick w)) (ses_request (chunk_input chunk r rd)) = Inr x"
    using assms(3) by (metis sum.collapse(2))
  moreover have "addr_Email (cc_Sender chunk) \<noteq> []" using assms(2) by (auto simp: validateCampaignChunk_def split: if_splits)
  ultimately show ?thesis
    using assms(1) by (simp add: numeral_eq_Suc chunk_input_def wp_rules MarkCampaignRecipientSent_def
        publishDeliveryEvent_chunk_def Publish_def SendEmail_def)
qed

lemma both_send:
  assumes "reliable (env w)" and "validateCampaignChunk chunk = None"
    and "\<forall>k. \<not> isl (ses_api (env w) k (ses_request (chunk_input chunk r rd)))"
  shows "wp (do { a \<leftarrow> sends h chunk r rd; b \<leftarrow> sends h chunk r rd; State_Monad.return (a, b) })
    (\<lambda>out w'. out = (Out OSent, Out OSent) \<and>
      mail w' = mail w @ [ses_request (chunk_input chunk r rd), ses_request (chunk_input chunk r rd)]) w"
  unfolding wp_bind wp_return
  by (rule wp_mono [OF send_run [OF assms]]) (rule wp_mono [OF send_run], use assms in auto)

section \<open>Properties\<close>

text \<open>
  Claim C6. Without faults a recipient gets at most as many mails as deliveries of its chunk overlap: in every interleaving
  of their calls in which at most \<open>n\<close> deliveries at a time stand between reading the status of the recipient and recording
  that SES has accepted the mail, at most \<open>n\<close> mails are accepted, so one at a time means one mail.
\<close>

theorem mails_bounded_by_overlap:
  assumes "(overlap n h chunk r rd)\<^sup>*\<^sup>* (w, []) (w', ps)" and "reliable (env w)" and "open_row chunk r w"
  shows "length (mail w') \<le> length (mail w) + n"
proof -
  have "few_mails n chunk r (length (mail w)) (w', ps)"
    by (rule few_mails_run [OF assms(1)]) (use assms in \<open>simp add: few_mails_def open_row_def\<close>)
  then show ?thesis by (auto simp: few_mails_def split: if_splits)
qed

definition race_world :: world where
  "race_world = two_world (\<lambda>_ _. Inr None) (\<lambda>_. NoFault)"

definition race_recipient :: CampaignChunkRecipient where
  "race_recipient = \<lparr>ccr_RecipientID = ''a'', ccr_Email = ''a'', ccr_Name = ''''\<rparr>"

definition race_mail :: Rendered where
  "race_mail = \<lparr>rd_Subject = ''x'', rd_HTML = '''', rd_Text = ''t''\<rparr>"

lemma race_simps [simp]: "reliable (env race_world)" "open_row two_chunk race_recipient race_world"
  "validateCampaignChunk two_chunk = None" "ses_api (env race_world) k m = Inr None" "mail race_world = []"
  by (simp_all add: race_world_def two_world_def quiet_world_def reliable_def open_row_def rstat_def recipient_status_def
      two_chunk_def race_recipient_def this_recipient_def validateCampaignChunk_def)

abbreviation race_claim :: "world \<Rightarrow> phase \<times> world" where
  "race_claim \<equiv> run_state (claims two_handler two_chunk race_recipient race_mail)"

abbreviation race_send :: "world \<Rightarrow> phase \<times> world" where
  "race_send \<equiv> run_state (sends two_handler two_chunk race_recipient race_mail)"

lemma race_claims: "fst (race_claim race_world) = Claimed" "fst (race_claim (snd (race_claim race_world))) = Claimed"
  by code_simp+

text \<open>The bound is reached: two deliveries that both claim before either sends.\<close>

lemma mails_bounded_by_overlap_witness:
  "let w4 = snd (race_send (snd (race_send (snd (race_claim (snd (race_claim race_world))))))) in
    length (mail w4) \<le> length (mail race_world) + 2 \<and> length (mail w4) = 2"
proof -
  let ?R = "(overlap 2 two_handler two_chunk race_recipient race_mail)\<^sup>*\<^sup>*"
  define w1 w2 where "w1 = snd (race_claim race_world)" and "w2 = snd (race_claim w1)"
  define w3 w4 where "w3 = snd (race_send w2)" and "w4 = snd (race_send w3)"
  have c: "race_claim race_world = (Claimed, w1)" "race_claim w1 = (Claimed, w2)"
    using race_claims by (simp_all add: w1_def w2_def prod_eq_iff)
  have 1: "env w1 = env race_world" "mail w1 = []" "open_row two_chunk race_recipient w1"
    using wpD [OF claim_run c(1)] by simp_all
  then have 2: "env w2 = env race_world" "mail w2 = []"
    using wpD [OF claim_run c(2)] by simp_all
  define p q where "p = fst (race_send w2)" and "q = fst (race_send w3)"
  have s: "race_send w2 = (p, w3)" "race_send w3 = (q, w4)" by (simp_all add: w3_def w4_def p_def q_def prod_eq_iff)
  have 3: "env w3 = env race_world" "length (mail w3) = 1"
    using wpD [OF send_run s(1)] 2 by simp_all
  then have "length (mail w4) = 2"
    using wpD [OF send_run s(2)] by simp
  moreover have "?R (race_world, []) (race_world, [Arrived, Arrived])"
    using overlap.arrives [of 2 two_handler two_chunk race_recipient race_mail race_world "[]"]
      overlap.arrives [of 2 two_handler two_chunk race_recipient race_mail race_world "[Arrived]"] by simp
  moreover have "?R (race_world, [Arrived, Arrived]) (w1, [Claimed, Arrived])" "?R (w1, [Claimed, Arrived]) (w2, [Claimed, Claimed])"
    "?R (w2, [Claimed, Claimed]) (w3, [p, Claimed])" "?R (w3, [p, Claimed]) (w4, [p, q])"
    using overlap_steps [of 0 "[Arrived, Arrived]" 2 _ _ _ _ 3] overlap_steps [of 1 "[Claimed, Arrived]" 2 _ _ _ _ 3]
      overlap_steps [of 0 "[Claimed, Claimed]" 2 _ _ _ _ 3] overlap_steps [of 1 "[p, Claimed]" 2 _ _ _ _ 3] c s by simp_all
  ultimately have "?R (race_world, []) (w4, [p, q])" and "length (mail w4) = 2"
    by (meson rtranclp_trans)+
  with mails_bounded_by_overlap [of 2 two_handler two_chunk race_recipient race_mail race_world w4 "[p, q]"]
  show ?thesis by (simp add: Let_def w1_def w2_def w3_def w4_def)
qed

text \<open>
  Claim C34. Nothing but the rate limiter keeps two overlapping deliveries of a chunk from mailing a recipient twice: when a
  second delivery reaches the recipient after the first has marked it \<^verbatim>\<open>sending\<close>, it is turned away by the limiter or goes on
  as well, and then both send the same mail and both count it as sent.
\<close>

theorem overlap_mails_twice:
  assumes "reliable (env w)" and "validateCampaignChunk chunk = None" and "open_row chunk r w"
    and "\<forall>k. \<not> isl (ses_api (env w) k (ses_request (chunk_input chunk r rd)))"
    and "run_state (claims h chunk r rd) w = (Claimed, w1)" and "run_state (claims h chunk r rd) w1 = (p, w2)"
  shows "p = Out (OTransient ''rate limit'') \<or>
    p = Claimed \<and> wp (do { a \<leftarrow> sends h chunk r rd; b \<leftarrow> sends h chunk r rd; State_Monad.return (a, b) })
      (\<lambda>out w'. out = (Out OSent, Out OSent) \<and>
        mail w' = mail w @ [ses_request (chunk_input chunk r rd), ses_request (chunk_input chunk r rd)]) w2"
proof -
  have 1: "env w1 = env w" "mail w1 = mail w" "open_row chunk r w1"
    using wpD [OF claim_run [OF assms(1,3)] assms(5)] by simp_all
  have 2: "env w2 = env w" "mail w2 = mail w" "p = Claimed \<or> p = Out (OTransient ''rate limit'')"
    using wpD [OF claim_run assms(6)] 1 assms(1) by simp_all
  with both_send [of w2 chunk r rd h] assms(1,2,4) show ?thesis by auto
qed

lemma overlap_mails_twice_witness:
  "let w2 = snd (race_claim (snd (race_claim race_world))) in
    wp (do { a \<leftarrow> sends two_handler two_chunk race_recipient race_mail;
        b \<leftarrow> sends two_handler two_chunk race_recipient race_mail; State_Monad.return (a, b) })
      (\<lambda>out w'. out = (Out OSent, Out OSent) \<and> mail w' = mail race_world @ [ses_request (chunk_input two_chunk race_recipient race_mail),
        ses_request (chunk_input two_chunk race_recipient race_mail)]) w2"
proof -
  let ?c = "race_claim race_world" and ?d = "race_claim (snd (race_claim race_world))"
  have c: "?c = (Claimed, snd ?c)" "?d = (Claimed, snd ?d)" using race_claims by (simp_all add: prod_eq_iff)
  show ?thesis
    using overlap_mails_twice [OF race_simps(1) race_simps(3) race_simps(2) _ c] by (simp add: Let_def)
qed



end
