(* ===== verification/WorkflowMail.thy ===== *)
theory WorkflowMail
  imports TransactionalEmail Workflows
begin

text \<open>
  From an email node of a workflow (\<^verbatim>\<open>executeEmail\<close> in \<^verbatim>\<open>internal/worker/workflows/executor.go\<close>) to the mail: the job
  that the walk publishes, handled by the transactional worker. The job carries a send id of its own, for which no
  row of \<^verbatim>\<open>email_sends\<close> exists, and the worker's protection against duplicates lives in that row.
\<close>

section \<open>Deliveries without a row\<close>

definition no_send_row :: "TransactionalEmailPayload \<Rightarrow> pg \<Rightarrow> bool" where
  "no_send_row p d \<longleftrightarrow> (\<forall>r \<in> set (email_sends d). \<not> this_send (tx_SendID p) (tx_WorkspaceID p) r)"

lemma no_row_status: "no_send_row p d \<Longrightarrow> send_status d (tx_SendID p) (tx_WorkspaceID p) = ''''"
  by (auto simp: send_status_def no_send_row_def split: option.split dest: find_SomeD)

lemma no_row_updates:
  assumes "no_send_row p d"
  shows "mark_send_sending (tx_SendID p) (tx_WorkspaceID p) t d = d" "mark_send_sent (tx_SendID p) (tx_WorkspaceID p) mid t d = d"
  using assms by (simp_all add: mark_send_sending_def mark_send_sent_def update_where_none no_send_row_def)

lemma rowless_send:
  assumes "reliable (env w)" and "validatePayload p = None" and "no_send_row p (db w)"
    and "\<forall>k. \<not> isl (ses_api (env w) k (ses_request (send_input p r)))"
  shows "wp (send_and_settle h p n r) (\<lambda>_ w'. env w' = env w \<and> db w' = db w \<and> settled w' = settled w @ [Ack] \<and>
    mail w' = mail w @ [ses_request (send_input p r)]) w"
proof -
  obtain x where "ses_api (env w) (Suc (tick w)) (ses_request (send_input p r)) = Inr x"
    using assms(4) by (metis sum.collapse(2))
  moreover have "in_To (send_input p r) \<noteq> []" "in_From (send_input p r) \<noteq> ''''"
    using assms(2) by (auto simp: validatePayload_def send_input_def extractEmails_def split: if_splits option.splits)
  ultimately show ?thesis
    using assms(1,3) by (simp add: send_and_settle_def SendEmail_def wp_rules UpdateEmailSendSent_def no_row_updates
        publishDeliveryEvent_def Publish_def Let_def)
qed

lemma rowless_delivery:
  assumes "reliable (env w)" and "Data m = Some p" and "validatePayload p = None" and "no_send_row p (db w)"
    and "Render p = Inr r" and "\<forall>k. \<not> isl (ses_api (env w) k (ses_request (send_input p r)))"
  shows "wp (Handle_transactional h m) (\<lambda>_ w'. env w' = env w \<and> db w' = db w \<and>
    (\<exists>d \<in> {Ack, Nak}. settled w' = settled w @ [d] \<and> mail w' = mail w @ (if d = Ack then [ses_request (send_input p r)] else []))) w"
proof -
  define w0 where "w0 = step_clock (w\<lparr>metrics := (metrics w)(''email_processed_total'' := Suc (metrics w ''email_processed_total''))\<rparr>)"
  obtain waited rl w1 where a: "run_state (Acquire (eh_limiter h) (ratelimit_key (tx_WorkspaceID p))
      rateLimitWaitBudget) w0 = ((waited, rl), w1)"
    by (metis surj_pair)
  have w1: "env w1 = env w" "db w1 = db w" "mail w1 = mail w" "settled w1 = settled w"
    using Acquire_keeps [OF a] by (simp_all add: w0_def)
  have acq: "wp (Acquire (eh_limiter h) (ratelimit_key (tx_WorkspaceID p)) rateLimitWaitBudget) Q w0 =
      Q (waited, rl) w1" for Q
    by (simp add: wp_def a)
  have go: "wp (send_and_settle h p n r) (\<lambda>_ w'. env w' = env w \<and> db w' = db w \<and>
    (\<exists>d \<in> {Ack, Nak}. settled w' = settled w @ [d] \<and> mail w' = mail w @ (if d = Ack then [ses_request (send_input p r)] else []))) w2"
    if "env w2 = env w" "mail w2 = mail w" "settled w2 = settled w" "db w2 = db w" for w2 n
    using that assms by (intro wp_mono [OF rowless_send]) auto
  show ?thesis
    using assms(1-3) no_row_status [OF assms(4)] go
    by (cases rl) (simp_all add: Handle_transactional_def wp_rules GetEmailSendStatus_def acq w0_def [symmetric] w1
        UpdateEmailSendSending_def no_row_updates [OF assms(4)] Let_def assms(5))
qed

lemma rowless_deliveries:
  assumes "validatePayload p = None" and "Render p = Inr r"
  shows "reliable (env w) \<Longrightarrow> no_send_row p (db w) \<Longrightarrow> \<forall>k. \<not> isl (ses_api (env w) k (ses_request (send_input p r))) \<Longrightarrow>
    \<forall>m \<in> set ms. Data m = Some p \<Longrightarrow>
    \<exists>ds. set ds \<subseteq> {Ack, Nak} \<and> length ds = length ms \<and> settled (fold (deliver h) ms w) = settled w @ ds \<and>
      mail (fold (deliver h) ms w) = mail w @ replicate (count_list ds Ack) (ses_request (send_input p r))"
proof (induction ms arbitrary: w)
  case Nil
  show ?case by (intro exI [of _ "[]"]) simp
next
  case (Cons m ms)
  let ?w = "deliver h m w"
  have "Data m = Some p" using Cons.prems by simp
  from rowless_delivery [OF Cons.prems(1) this assms(1) Cons.prems(2) assms(2) Cons.prems(3), of h]
  obtain d where d: "env ?w = env w" "db ?w = db w" "d \<in> {Ack, Nak}" "settled ?w = settled w @ [d]"
    "mail ?w = mail w @ (if d = Ack then [ses_request (send_input p r)] else [])"
    by (auto simp: wp_def deliver_Handle)
  obtain ds where "set ds \<subseteq> {Ack, Nak}" "length ds = length ms" "settled (fold (deliver h) ms ?w) = settled ?w @ ds"
    "mail (fold (deliver h) ms ?w) = mail ?w @ replicate (count_list ds Ack) (ses_request (send_input p r))"
    using Cons.IH [of ?w] Cons.prems d(1,2) by auto
  then show ?case using d by (intro exI [of _ "d # ds"]) auto
qed

text \<open>The job of an email node: a fresh send id, and nothing but the job.\<close>

lemma executeEmail_job:
  assumes "reliable (env w)" and "run_state (executeEmail x n) w = (Inr (), w1)" and "published w1 = published w @ [job]"
    and "pm_Payload job = PTransactional p"
  shows "env w1 = env w \<and> db w1 = db w \<and> settled w1 = settled w \<and> mail w1 = mail w \<and> tx_SendID p = uuids (env w) (uuid_next w)"
  using assms
  by (cases "find (has_user (xr_WorkspaceID x) (xr_ContactID x)) (contacts (db w))")
    (auto simp: executeEmail_def GetContactForWorkflow_def FindContactByUserID_def query_def call_def Let_def
      Publish_def new_uuid_def contact_row_of_def workflow_job_def split: prod.splits if_splits)

section \<open>Properties\<close>

text \<open>
  Claim C35. The mails of a workflow are not protected against duplicates: the walk publishes a job under a new send id and
  creates no row for it, so every delivery of that job that the rate limiter lets pass sends the mail again and is
  acknowledged, and none of them leaves a record; one lost acknowledgement is a second mail.
\<close>

theorem workflow_mail_unprotected:
  assumes "reliable (env w)" and "run_state (executeEmail x n) w = (Inr (), w1)" and "published w1 = published w @ [job]"
    and "pm_Payload job = PTransactional p" and "validatePayload p = None" and "Render p = Inr r"
    and "\<forall>row \<in> set (email_sends (db w)). es_send_id row \<noteq> uuids (env w) (uuid_next w)"
    and "\<forall>k. \<not> isl (ses_api (env w) k (ses_request (send_input p r)))" and "\<forall>m \<in> set ms. Data m = Some p"
  shows "email_sends (db w1) = email_sends (db w) \<and>
    (\<exists>ds. set ds \<subseteq> {Ack, Nak} \<and> length ds = length ms \<and> settled (fold (deliver h) ms w1) = settled w @ ds \<and>
      mail (fold (deliver h) ms w1) = mail w @ replicate (count_list ds Ack) (ses_request (send_input p r)))"
proof -
  note e = executeEmail_job [OF assms(1-4)]
  have "no_send_row p (db w1)" using assms(7) e by (auto simp: no_send_row_def this_send_def)
  with rowless_deliveries [OF assms(5,6), of w1 ms h] assms(1,8,9) e show ?thesis by simp
qed

definition offer :: WorkflowNode where
  "offer = node ''a'' ''email'' [(''subject'', JStr ''Hi''), (''text'', JStr ''Hello''), (''fromEmail'', JStr ''shop@x'')] ''''"

definition offer_run :: ExecutionRow where
  "offer_run = \<lparr>xr_ID = ''x'', xr_WorkspaceID = ''w'', xr_WorkflowID = ''f'', xr_ContactID = ''u1'', xr_Status = ''running'',
     xr_CurrentNodeID = '''', xr_NextRunAt = None, xr_RetryCount = 0, xr_FailureReason = ''''\<rparr>"

definition offered :: world where
  "offered = snd (run_state (executeEmail offer_run offer) (flow_world (JArr [])))"

definition offer_job :: TransactionalEmailPayload where
  "offer_job = workflow_job offer_run offer (uuids quiet_env 0) ''a@b.c'' ''''"

definition offer_mail :: Rendered where
  "offer_mail = \<lparr>rd_Subject = ''Hi'', rd_HTML = '''', rd_Text = ''Hello''\<rparr>"

lemma offer_published: "fst (run_state (executeEmail offer_run offer) (flow_world (JArr []))) = Inr ()"
  "map pm_Payload (published offered) = [PTransactional offer_job]" "published (flow_world (JArr [])) = []"
  "validatePayload offer_job = None" "Render offer_job = Inr offer_mail"
  by code_simp+

lemma offer_acknowledged:
  "settled (fold (deliver (NewHandler (NewTokenBucket 14)))
     [\<lparr>Data = Some offer_job, NumDelivered = Some 1\<rparr>, \<lparr>Data = Some offer_job, NumDelivered = Some 2\<rparr>] offered) = [Ack, Ack]"
  by code_simp

lemma workflow_mail_unprotected_witness:
  "mail (fold (deliver (NewHandler (NewTokenBucket 14)))
     [\<lparr>Data = Some offer_job, NumDelivered = Some 1\<rparr>, \<lparr>Data = Some offer_job, NumDelivered = Some 2\<rparr>] offered) =
   [ses_request (send_input offer_job offer_mail), ses_request (send_input offer_job offer_mail)]"
proof -
  have w: "env (flow_world (JArr [])) = quiet_env" "email_sends (db (flow_world (JArr []))) = []" "mail (flow_world (JArr [])) = []"
    "settled (flow_world (JArr [])) = []"
    by (simp_all add: flow_world_def quiet_world_def flow_db_def empty_pg_def)
  obtain job where j: "published offered = [job]" "pm_Payload job = PTransactional offer_job"
    using offer_published(2) by auto
  have "run_state (executeEmail offer_run offer) (flow_world (JArr [])) = (Inr (), offered)"
    using offer_published(1) by (simp add: offered_def prod_eq_iff)
  from workflow_mail_unprotected [OF _ this, of job offer_job offer_mail
      "[\<lparr>Data = Some offer_job, NumDelivered = Some 1\<rparr>, \<lparr>Data = Some offer_job, NumDelivered = Some 2\<rparr>]" "NewHandler (NewTokenBucket 14)"]
  show ?thesis
    using w j offer_published(3-5) offer_acknowledged by auto
qed

end
