(* ===== verification/Miscounts.thy ===== *)
theory Miscounts
  imports CampaignChunk
begin

text \<open>
  Where the counts of a campaign go wrong without any fault: a recipient that failed for good is counted again at every
  redelivery of its chunk, and a chunk handled before the total of its campaign is stored never completes it. Both
  follow from one description of a delivery whose recipients SES answers in a fixed way.
\<close>

section \<open>One recipient, answered in a fixed way\<close>

text \<open>The rate limiter may turn a recipient away; it is then counted here, so an unchanged count means it never did.\<close>

definition refusals :: "world \<Rightarrow> nat" where
  "refusals w = metrics w ''email_rate_limit_waits_total''"

definition awaits_mail :: "CampaignChunkPayload \<Rightarrow> CampaignChunkRecipient \<Rightarrow> world \<Rightarrow> bool" where
  "awaits_mail chunk r w \<longleftrightarrow> \<not> status_in (rstat chunk r w) ['''', ''sent'', ''bounced'']"

definition answered :: "env \<Rightarrow> CampaignChunkPayload \<Rightarrow> Rendered \<Rightarrow> (CampaignChunkRecipient \<Rightarrow> goerr + string option) \<Rightarrow> bool" where
  "answered e chunk rd answer \<longleftrightarrow> reliable e \<and> (\<forall>k. \<not> cancelled e k) \<and> validateCampaignChunk chunk = None \<and>
     Render (chunk_template chunk) = Inr rd \<and> distinct (map ccr_RecipientID (cc_Recipients chunk)) \<and>
     (\<forall>r \<in> set (cc_Recipients chunk). \<forall>k. ses_api e k (ses_request (chunk_input chunk r rd)) = answer r)"

definition outcome_for :: "EmailHandler \<Rightarrow> goerr + string option \<Rightarrow> recipientOutcome" where
  "outcome_for h a = (case a of Inr _ \<Rightarrow> OSent | Inl e \<Rightarrow> if eh_classifier h e then OPermanent else OTransient (err_string e))"

definition turned_to :: "goerr + string option \<Rightarrow> CampaignChunkPayload \<Rightarrow> CampaignChunkRecipient \<Rightarrow> world \<Rightarrow> bool" where
  "turned_to a chunk r w \<longleftrightarrow> (if isl a then awaits_mail chunk r w else rstat chunk r w = ''sent'')"

lemma Acquire_metrics: "run_state (Acquire l key b) w = (r, w') \<Longrightarrow> metrics w' = metrics w"
proof -
  have B: "metrics (snd (run_bucket l key t w)) = metrics w" for l key t w by (rule preserves_run_bucket) simp
  have T: "metrics (snd (run_state (TryAcquire l key) w)) = metrics w" for l key w
    using B [of l key _ "step_clock w"] by (simp add: TryAcquire_def time_now_def call_def Let_def split: prod.split fault.split) (metis snd_conv)
  have "metrics (snd (Acquire_loop l key d tw w)) = metrics w" for d tw
  proof (induction l key d tw w rule: Acquire_loop.induct)
    case (1 l key d tw w)
    obtain x w1 where x: "run_state (TryAcquire l key) w = (x, w1)" by fastforce
    then have "metrics w1 = metrics w" using T [of l key w] by simp
    then show ?case
      using 1 [OF x [symmetric]] x by (subst Acquire_loop.simps) (auto simp: Let_def split: prod.split sum.split)
  qed
  then show "run_state (Acquire l key b) w = (r, w') \<Longrightarrow> metrics w' = metrics w"
    by (simp add: Acquire_def) (metis snd_conv)
qed

lemma processRecipient_answered:
  assumes "answered (env w) chunk rd answer" and "r \<in> set (cc_Recipients chunk)" and "awaits_mail chunk r w"
  shows "wp (processRecipient h chunk r rd) (\<lambda>out w'. env w' = env w \<and> settled w' = settled w \<and>
    campaigns (db w') = campaigns (db w) \<and> others_same chunk r w w' \<and> refusals w \<le> refusals w' \<and>
    (refusals w' = refusals w \<longrightarrow> out = outcome_for h (answer r) \<and> turned_to (answer r) chunk r w')) w"
proof -
  have a: "reliable (env w)" "\<forall>k. ses_api (env w) k (ses_request (chunk_input chunk r rd)) = answer r"
    "addr_Email (cc_Sender chunk) \<noteq> []"
    using assms(1,2) by (auto simp: answered_def validateCampaignChunk_def split: if_splits)
  define w0 where "w0 = step_clock w"
  obtain waited rl w1 where acq: "run_state (Acquire (eh_limiter h) (ratelimit_key (cc_WorkspaceID chunk))
      rateLimitWaitBudget) w0 = ((waited, rl), w1)"
    by (metis surj_pair)
  have w1: "env w1 = env w" "db w1 = db w" "settled w1 = settled w" "metrics w1 = metrics w"
    using Acquire_keeps [OF acq] Acquire_metrics [OF acq] by (simp_all add: w0_def)
  have w0: "db w0 = db w" "env w0 = env w" "settled w0 = settled w" "metrics w0 = metrics w" by (simp_all add: w0_def)
  have acq: "wp (Acquire (eh_limiter h) (ratelimit_key (cc_WorkspaceID chunk)) rateLimitWaitBudget) Q w0 =
      Q (waited, rl) w1" for Q
    by (simp add: wp_def acq)
  show ?thesis
    using assms(3) a
    by (cases rl; cases "answer r") (auto simp: processRecipient_def wp_rules GetCampaignRecipientStatus_def acq
         w0_def [symmetric] w0 w1 MarkCampaignRecipientSending_def MarkCampaignRecipientSent_def
         MarkCampaignRecipientFailed_def publishDeliveryEvent_chunk_def Publish_def SendEmail_def
         chunk_input_def others_same_def rstat_def recipient_status_marks recipient_status_other
         awaits_mail_def refusals_def outcome_for_def turned_to_def
       split: if_splits)
qed

section \<open>One delivery\<close>

abbreviation permanents :: "EmailHandler \<Rightarrow> (CampaignChunkRecipient \<Rightarrow> goerr + string option) \<Rightarrow> CampaignChunkRecipient list \<Rightarrow> CampaignChunkRecipient list" where
  "permanents h answer \<equiv> filter (\<lambda>r. outcome_for h (answer r) = OPermanent)"

abbreviation accepted :: "(CampaignChunkRecipient \<Rightarrow> goerr + string option) \<Rightarrow> CampaignChunkRecipient list \<Rightarrow> CampaignChunkRecipient list" where
  "accepted answer \<equiv> filter (\<lambda>r. \<not> isl (answer r))"

abbreviation transients :: "EmailHandler \<Rightarrow> (CampaignChunkRecipient \<Rightarrow> goerr + string option) \<Rightarrow> CampaignChunkRecipient list \<Rightarrow> CampaignChunkRecipient list" where
  "transients h answer \<equiv> filter (\<lambda>r. isl (answer r) \<and> outcome_for h (answer r) \<noteq> OPermanent)"

lemma chunk_loop_answered:
  assumes "answered (env w) chunk rd answer" and "set rs \<subseteq> set (cc_Recipients chunk)" and "distinct (map ccr_RecipientID rs)"
    and "\<forall>r \<in> set rs. awaits_mail chunk r w"
  shows "wp (chunk_loop h chunk rd rs res tr) (\<lambda>(res', tr') w'. env w' = env w \<and> settled w' = settled w \<and>
    campaigns (db w') = campaigns (db w) \<and> refusals w \<le> refusals w' \<and>
    (refusals w' = refusals w \<longrightarrow> cr_sent res' = cr_sent res + length (accepted answer rs) \<and>
       cr_permanentFailed res' = cr_permanentFailed res + length (permanents h answer rs) \<and>
       tr' = tr @ transients h answer rs \<and> (\<forall>r \<in> set rs. turned_to (answer r) chunk r w') \<and>
       (\<forall>r. ccr_RecipientID r \<notin> ccr_RecipientID ` set rs \<longrightarrow> rstat chunk r w' = rstat chunk r w))) w"
  using assms
proof (induction rs arbitrary: w res tr)
  case Nil
  show ?case by (simp add: wp_return)
next
  case (Cons r rs)
  define w0 where "w0 = w\<lparr>tick := Suc (tick w)\<rparr>"
  have w0: "env w0 = env w" "settled w0 = settled w" "db w0 = db w" "refusals w0 = refusals w"
    "awaits_mail chunk r w0 = awaits_mail chunk r w" "rstat chunk q w0 = rstat chunk q w" for q
    by (simp_all add: w0_def refusals_def awaits_mail_def rstat_def)
  have nc: "\<not> cancelled (env w) (tick w)" using Cons.prems(1) by (simp add: answered_def)
  have r: "r \<in> set (cc_Recipients chunk)" "awaits_mail chunk r w0" "answered (env w0) chunk rd answer"
    using Cons.prems w0 by simp_all
  let ?k = "\<lambda>out. case out of
         OSent \<Rightarrow> chunk_loop h chunk rd rs (res\<lparr>cr_sent := cr_sent res + 1\<rparr>) tr
       | ODuplicate \<Rightarrow> chunk_loop h chunk rd rs res tr
       | OPermanent \<Rightarrow> chunk_loop h chunk rd rs (res\<lparr>cr_permanentFailed := cr_permanentFailed res + 1\<rparr>) tr
       | OTransient reason \<Rightarrow> chunk_loop h chunk rd rs
             (res\<lparr>cr_transientFailed := cr_transientFailed res + 1, cr_transientReason := reason\<rparr>) (tr @ [r])"
  let ?Q = "\<lambda>(res', tr') w'. env w' = env w \<and> settled w' = settled w \<and>
    campaigns (db w') = campaigns (db w) \<and> refusals w \<le> refusals w' \<and>
    (refusals w' = refusals w \<longrightarrow> cr_sent res' = cr_sent res + length (accepted answer (r # rs)) \<and>
       cr_permanentFailed res' = cr_permanentFailed res + length (permanents h answer (r # rs)) \<and>
       tr' = tr @ transients h answer (r # rs) \<and> (\<forall>q \<in> set (r # rs). turned_to (answer q) chunk q w') \<and>
       (\<forall>q. ccr_RecipientID q \<notin> ccr_RecipientID ` set (r # rs) \<longrightarrow> rstat chunk q w' = rstat chunk q w))"
  have rest: "wp (?k out) ?Q w1"
    if p: "env w1 = env w0 \<and> settled w1 = settled w0 \<and> campaigns (db w1) = campaigns (db w0) \<and> others_same chunk r w0 w1 \<and>
        refusals w0 \<le> refusals w1 \<and>
        (refusals w1 = refusals w0 \<longrightarrow> out = outcome_for h (answer r) \<and> turned_to (answer r) chunk r w1)" for out w1
  proof -
    have ids: "\<forall>q \<in> set rs. ccr_RecipientID q \<noteq> ccr_RecipientID r"
      using Cons.prems(3) by (metis distinct.simps(2) image_eqI list.simps(9) list.set_map)
    then have "\<forall>q \<in> set rs. rstat chunk q w1 = rstat chunk q w"
      using p w0 by (simp add: others_same_def)
    then have "\<forall>q \<in> set rs. awaits_mail chunk q w1"
      using Cons.prems(4) by (simp add: awaits_mail_def)
    then have IH: "wp (chunk_loop h chunk rd rs res1 tr1) (\<lambda>(res', tr') w'. env w' = env w1 \<and> settled w' = settled w1 \<and>
        campaigns (db w') = campaigns (db w1) \<and> refusals w1 \<le> refusals w' \<and>
        (refusals w' = refusals w1 \<longrightarrow> cr_sent res' = cr_sent res1 + length (accepted answer rs) \<and>
           cr_permanentFailed res' = cr_permanentFailed res1 + length (permanents h answer rs) \<and>
           tr' = tr1 @ transients h answer rs \<and> (\<forall>r \<in> set rs. turned_to (answer r) chunk r w') \<and>
           (\<forall>r. ccr_RecipientID r \<notin> ccr_RecipientID ` set rs \<longrightarrow> rstat chunk r w' = rstat chunk r w1))) w1" for res1 tr1
      using p r(3) Cons.prems by (intro Cons.IH) auto
    have stays: "turned_to (answer r) chunk r w'" if "turned_to (answer r) chunk r w1" "rstat chunk r w' = rstat chunk r w1" for w'
      using that by (simp add: turned_to_def awaits_mail_def split: if_splits)
    have notin: "ccr_RecipientID r \<notin> ccr_RecipientID ` set rs" using Cons.prems(3) by auto
    note now = p [unfolded w0 others_same_def]
    show ?thesis
      by (cases out; simp only: recipientOutcome.case; rule wp_mono [OF IH]; cases "answer r")
        (use now notin stays in \<open>auto simp: outcome_for_def split: if_splits\<close>)
  qed
  show ?case
    using nc rest
    by (simp only: chunk_loop.simps wp_bind wp_ctx_err w0_def [symmetric] if_False)
      (rule wp_mono [OF processRecipient_answered [OF r(3,1,2), of h]], simp)
qed

definition booked :: "nat \<Rightarrow> nat \<Rightarrow> campaign_row \<Rightarrow> campaign_row \<Rightarrow> bool" where
  "booked s p c c' \<longleftrightarrow> cp_sent_count c' = cp_sent_count c + int s \<and> cp_failed_count c' = cp_failed_count c + int p \<and>
     cp_total_recipients c' = cp_total_recipients c \<and>
     (if 0 < s + p \<and> cp_completed_at c = None \<and> 0 < cp_total_recipients c \<and>
         cp_total_recipients c \<le> cp_sent_count c' + cp_failed_count c'
      then cp_status c' = ''completed'' \<and> cp_completed_at c' \<noteq> None
      else cp_status c' = cp_status c \<and> cp_completed_at c' = cp_completed_at c)"

abbreviation the_campaign :: "CampaignChunkPayload \<Rightarrow> world \<Rightarrow> campaign_row option" where
  "the_campaign chunk w \<equiv> find_campaign (db w) (cc_CampaignID chunk) (cc_WorkspaceID chunk)"

lemma Increment_run:
  assumes "reliable (env w)" and "the_campaign chunk w = Some c"
  shows "wp (IncrementCampaignCounts (cc_CampaignID chunk) (cc_WorkspaceID chunk) s p) (\<lambda>out w'.
    out = Inr \<lparr>pr_SentCount = cp_sent_count c + int s, pr_FailedCount = cp_failed_count c + int p,
      pr_TotalRecipients = cp_total_recipients c\<rparr> \<and> env w' = env w \<and> settled w' = settled w \<and> metrics w' = metrics w \<and>
    mail w' = mail w \<and> campaign_recipients (db w') = campaign_recipients (db w) \<and>
    (\<exists>t. the_campaign chunk w' = Some (c\<lparr>cp_sent_count := cp_sent_count c + int s,
       cp_failed_count := cp_failed_count c + int p, cp_updated_at := t\<rparr>))) w"
  using assms
  by (auto simp: IncrementCampaignCounts_def wp_rules increment_counts_def Let_def find_campaign_def find_campaign_counts)

lemma Complete_run:
  assumes "reliable (env w)" and "the_campaign chunk w = Some c"
  shows "wp (MarkCampaignComplete (cc_CampaignID chunk) (cc_WorkspaceID chunk)) (\<lambda>out w'.
    env w' = env w \<and> settled w' = settled w \<and> metrics w' = metrics w \<and> mail w' = mail w \<and>
    campaign_recipients (db w') = campaign_recipients (db w) \<and>
    (\<exists>t. the_campaign chunk w' = Some (if completable (cc_CampaignID chunk) (cc_WorkspaceID chunk) c
       then c\<lparr>cp_status := ''completed'', cp_completed_at := Some t, cp_updated_at := t\<rparr> else c))) w"
proof -
  have "find (this_campaign i ws) (update_where (completable i ws)
      (\<lambda>r. r\<lparr>cp_status := ''completed'', cp_completed_at := Some t, cp_updated_at := t\<rparr>) cs) =
    map_option (\<lambda>r. if completable i ws r then r\<lparr>cp_status := ''completed'', cp_completed_at := Some t, cp_updated_at := t\<rparr> else r)
      (find (this_campaign i ws) cs)" for i ws t cs
    by (subst find_update_where) (auto simp: completable_def)
  with assms show ?thesis
    by (auto simp: MarkCampaignComplete_def wp_rules complete_campaign_def Let_def find_campaign_def)
qed

lemma this_campaign_found: "the_campaign chunk w = Some c \<Longrightarrow> this_campaign (cc_CampaignID chunk) (cc_WorkspaceID chunk) c"
  by (auto simp: find_campaign_def find_Some_iff)

definition tail_frame :: "CampaignChunkPayload \<Rightarrow> world \<Rightarrow> world \<Rightarrow> bool" where
  "tail_frame chunk w w' \<longleftrightarrow> env w' = env w \<and> settled w' = settled w \<and> refusals w' = refusals w \<and> mail w' = mail w \<and>
     campaign_recipients (db w') = campaign_recipients (db w)"

lemma apply_progress_run:
  assumes "reliable (env w)" and "the_campaign chunk w = Some c"
  shows "wp (apply_progress chunk res) (\<lambda>out w'. out = Some () \<and> tail_frame chunk w w' \<and>
    (\<exists>c'. the_campaign chunk w' = Some c' \<and> booked (cr_sent res) (cr_permanentFailed res) c c')) w"
proof (cases "cr_sent res > 0 \<or> cr_permanentFailed res > 0")
  case False
  then show ?thesis using assms(2) by (simp add: apply_progress_def wp_return tail_frame_def booked_def)
next
  case True
  let ?c = "\<lambda>t. c\<lparr>cp_sent_count := cp_sent_count c + int (cr_sent res),
       cp_failed_count := cp_failed_count c + int (cr_permanentFailed res), cp_updated_at := t\<rparr>"
  have row: "this_campaign (cc_CampaignID chunk) (cc_WorkspaceID chunk) (?c t)" for t
    using this_campaign_found [OF assms(2)] by simp
  have fin: "wp (MarkCampaignComplete (cc_CampaignID chunk) (cc_WorkspaceID chunk))
      (\<lambda>x. wp (State_Monad.bind (case x of Inl e \<Rightarrow> State_Monad.return ()
                | Inr b \<Rightarrow> if b then inc ''campaign_completed_total'' else State_Monad.return ())
          (\<lambda>_. State_Monad.return (Some ()))) (\<lambda>out w'. out = Some () \<and> tail_frame chunk w w' \<and>
            (\<exists>c'. the_campaign chunk w' = Some c' \<and> booked (cr_sent res) (cr_permanentFailed res) c c'))) w1"
    if "env w1 = env w" "settled w1 = settled w" "metrics w1 = metrics w" "mail w1 = mail w"
      "campaign_recipients (db w1) = campaign_recipients (db w)" "the_campaign chunk w1 = Some (?c t)"
      "cp_total_recipients c \<le> cp_sent_count c + int (cr_sent res) + (cp_failed_count c + int (cr_permanentFailed res)) \<and>
       0 < cp_total_recipients c" for w1 t
  proof (rule wp_mono [OF Complete_run [where c = "?c t"]], goal_cases)
    case (3 x w2)
    have compl: "completable (cc_CampaignID chunk) (cc_WorkspaceID chunk) (?c t) \<longleftrightarrow> cp_completed_at c = None"
      using row [of t] that(7) by (simp add: completable_def)
    obtain u where u: "the_campaign chunk w2 = Some (if cp_completed_at c = None
        then (?c t)\<lparr>cp_status := ''completed'', cp_completed_at := Some u, cp_updated_at := u\<rparr> else ?c t)"
      using 3 unfolding compl by blast
    have b: "booked (cr_sent res) (cr_permanentFailed res) c (if cp_completed_at c = None
        then (?c t)\<lparr>cp_status := ''completed'', cp_completed_at := Some u, cp_updated_at := u\<rparr> else ?c t)"
      using True that(7) unfolding booked_def by simp
    have "tail_frame chunk w w2" and m: "tail_frame chunk w (w2\<lparr>metrics := (metrics w2)(''campaign_completed_total'' := n)\<rparr>)" for n
      using 3 that(1-5) by (simp_all add: tail_frame_def refusals_def)
    with u b show ?case
      by (cases x) (simp_all add: wp_rules)
  qed (use that(1,6) assms(1) in simp_all)
  show ?thesis
    unfolding apply_progress_def if_P [OF True] wp_bind [of "IncrementCampaignCounts a b c d" for a b c d]
  proof (rule wp_mono [OF Increment_run [OF assms]], elim conjE exE, goal_cases)
    case (1 out w1 t)
    let ?full = "cp_total_recipients c \<le> cp_sent_count c + int (cr_sent res) + (cp_failed_count c + int (cr_permanentFailed res)) \<and>
       0 < cp_total_recipients c"
    show ?case
    proof (cases ?full)
      case True
      show ?thesis
        unfolding 1(1) sum.case CampaignProgress.simps if_P [OF True] wp_bind [of "MarkCampaignComplete a b" for a b]
        by (rule fin [OF 1(2-7) True])
    next
      case False
      then have b: "booked (cr_sent res) (cr_permanentFailed res) c (?c t)" by (auto simp: booked_def)
      show ?thesis
        unfolding 1(1) sum.case CampaignProgress.simps if_not_P [OF False] wp_return
        using 1(2-7) b by (simp add: tail_frame_def refusals_def)
    qed
  qed
qed

lemma disposition_run:
  assumes "attempt_of m < MaxAttempts"
  shows "wp (chunk_disposition chunk (attempt_of m) res tr) (\<lambda>_ w'. env w' = env w \<and> db w' = db w \<and> refusals w' = refusals w \<and>
    settled w' = settled w @ [if tr = [] then Ack else Nak]) w"
  using assms by (auto simp: chunk_disposition_def wp_rules refusals_def)

lemma deliver_answered:
  assumes "answered (env w) chunk rd answer" and "\<forall>r \<in> set (cc_Recipients chunk). awaits_mail chunk r w"
    and "the_campaign chunk w = Some c" and "Data m = Some chunk" and "attempt_of m < MaxAttempts"
    and "w' = deliver_chunk h m w"
  shows "env w' = env w" and "refusals w \<le> refusals w'"
    and "refusals w' = refusals w \<Longrightarrow> settled w' = settled w @ [if transients h answer (cc_Recipients chunk) = [] then Ack else Nak] \<and>
      (\<forall>r \<in> set (cc_Recipients chunk). turned_to (answer r) chunk r w') \<and>
      (\<exists>c'. the_campaign chunk w' = Some c' \<and>
         booked (length (accepted answer (cc_Recipients chunk))) (length (permanents h answer (cc_Recipients chunk))) c c')"
proof -
  let ?rs = "cc_Recipients chunk"
  have a: "reliable (env w)" "validateCampaignChunk chunk = None" "Render (chunk_template chunk) = Inr rd"
    "distinct (map ccr_RecipientID ?rs)"
    using assms(1) by (simp_all add: answered_def)
  define Q where "Q = (\<lambda>w'. env w' = env w \<and> refusals w \<le> refusals w' \<and> (refusals w' = refusals w \<longrightarrow>
      settled w' = settled w @ [if transients h answer ?rs = [] then Ack else Nak] \<and>
      (\<forall>r \<in> set ?rs. turned_to (answer r) chunk r w') \<and>
      (\<exists>c'. the_campaign chunk w' = Some c' \<and> booked (length (accepted answer ?rs)) (length (permanents h answer ?rs)) c c')))"
  have tail: "wp (apply_progress chunk res) (\<lambda>progress. wp (case progress of None \<Rightarrow> finish Nak
      | Some _ \<Rightarrow> chunk_disposition chunk (attempt_of m) res tr) (\<lambda>_. Q)) w1"
    if p: "env w1 = env w" "settled w1 = settled w" "campaigns (db w1) = campaigns (db w)" "refusals w \<le> refusals w1"
      "refusals w1 = refusals w \<longrightarrow> cr_sent res = length (accepted answer ?rs) \<and>
         cr_permanentFailed res = length (permanents h answer ?rs) \<and> tr = transients h answer ?rs \<and>
         (\<forall>r \<in> set ?rs. turned_to (answer r) chunk r w1)" for res tr w1
  proof (rule wp_mono [OF apply_progress_run [of w1 chunk c]], goal_cases)
    case (3 out w2)
    then obtain c' where c': "the_campaign chunk w2 = Some c'" "booked (cr_sent res) (cr_permanentFailed res) c c'"
      and o: "out = Some ()" and fr: "tail_frame chunk w1 w2" by blast
    have t: "turned_to a chunk r w2 = turned_to a chunk r w1" for a r
      using fr by (simp add: tail_frame_def turned_to_def awaits_mail_def rstat_recipients [where w = w1 and w' = w2])
    have d: "turned_to a chunk r w3 = turned_to a chunk r w2" "the_campaign chunk w3 = the_campaign chunk w2"
      if "db w3 = db w2" for a r w3
      using that by (simp_all add: turned_to_def awaits_mail_def rstat_def)
    show ?case
      unfolding o option.case Q_def
    proof (rule wp_mono [OF disposition_run [OF assms(5)]], elim conjE, goal_cases)
      case (1 y w3)
      have r: "refusals w3 = refusals w1" and e: "env w3 = env w" and le: "refusals w \<le> refusals w3"
        using 1 fr p(1,4) by (simp_all add: tail_frame_def)
      show ?case
      proof (intro conjI impI e le)
        assume "refusals w3 = refusals w"
        with r p(5) have n: "cr_sent res = length (accepted answer ?rs)"
          "cr_permanentFailed res = length (permanents h answer ?rs)" "tr = transients h answer ?rs"
          "\<forall>r \<in> set ?rs. turned_to (answer r) chunk r w1" by simp_all
        show "settled w3 = settled w @ [if transients h answer ?rs = [] then Ack else Nak]"
          using 1(4) fr p(2) n(3) by (simp add: tail_frame_def)
        show "\<forall>r \<in> set ?rs. turned_to (answer r) chunk r w3" using n(4) t by (simp add: d(1) [OF 1(2)])
        show "\<exists>c'. the_campaign chunk w3 = Some c' \<and> booked (length (accepted answer ?rs)) (length (permanents h answer ?rs)) c c'"
          using c' n(1,2) by (simp add: d(2) [OF 1(2)])
      qed
    qed
  qed (use p(1,3) assms(3) a(1) in \<open>simp_all add: find_campaign_def\<close>)
  have "wp (Handle_chunk h m) (\<lambda>_. Q) w"
    unfolding Handle_chunk_def assms(4) option.case
    unfolding a(2,3) sum.case wp_bind [of "chunk_loop a b c d e f" for a b c d e f]
    by (simp add: wp_bind [of "chunk_loop a b c d e f" for a b c d e f]) (rule wp_mono [OF chunk_loop_answered [OF assms(1) subset_refl a(4) assms(2)]],
      use tail in \<open>auto simp: wp_bind chunkResult0_def split: prod.splits\<close>)
  then have "Q w'" unfolding assms(6) by (simp add: deliver_chunk_def chunk.dispatch_is_handler wp_def)
  then show "env w' = env w" and "refusals w \<le> refusals w'"
    and "refusals w' = refusals w \<Longrightarrow> settled w' = settled w @ [if transients h answer (cc_Recipients chunk) = [] then Ack else Nak] \<and>
      (\<forall>r \<in> set (cc_Recipients chunk). turned_to (answer r) chunk r w') \<and>
      (\<exists>c'. the_campaign chunk w' = Some c' \<and>
         booked (length (accepted answer (cc_Recipients chunk))) (length (permanents h answer (cc_Recipients chunk))) c c')"
    unfolding Q_def by blast+
qed

lemma deliver_all_sent:
  assumes "answered (env w) chunk rd answer" and "\<forall>r \<in> set (cc_Recipients chunk). rstat chunk r w = ''sent''"
    and "Data m = Some chunk"
  shows "env (deliver_chunk h m w) = env w" and "db (deliver_chunk h m w) = db w" and "mail (deliver_chunk h m w) = mail w"
    and "settled (deliver_chunk h m w) = settled w @ [Ack]"
proof -
  let ?same = "\<lambda>w'. env w' = env w \<and> db w' = db w \<and> mail w' = mail w"
  have loop: "wp (chunk_loop h chunk rd rs res []) (\<lambda>x w'. x = (res, []) \<and> ?same w' \<and> settled w' = settled w) w1"
    if "set rs \<subseteq> set (cc_Recipients chunk)" "?same w1" "settled w1 = settled w" for rs res w1
    using that
  proof (induction rs arbitrary: w1)
    case Nil
    then show ?case by (simp add: wp_return)
  next
    case (Cons r rs)
    then have "rstat chunk r w1 = ''sent''" using assms(2) by (simp add: rstat_def)
    moreover have "wp (chunk_loop h chunk rd rs res []) (\<lambda>x w'. x = (res, []) \<and> ?same w' \<and> settled w' = settled w)
        (step_clock (w1\<lparr>tick := Suc (tick w1)\<rparr>))"
      using Cons.prems by (intro Cons.IH) simp_all
    ultimately show ?case
      using Cons.prems assms(1)
      by (simp add: answered_def wp_rules processRecipient_def GetCampaignRecipientStatus_def rstat_def)
  qed
  have "wp (Handle_chunk h m) (\<lambda>_ w'. ?same w' \<and> settled w' = settled w @ [Ack]) w"
    using assms(1,3) wp_mono [OF loop [OF subset_refl]]
    by (auto simp: answered_def Handle_chunk_def wp_bind [of "chunk_loop a b c d e f" for a b c d e f] apply_progress_def
        chunk_disposition_def chunkResult0_def wp_rules intro!: wp_mono [OF loop [OF subset_refl]])
  then show "env (deliver_chunk h m w) = env w" and "db (deliver_chunk h m w) = db w" and "mail (deliver_chunk h m w) = mail w"
    and "settled (deliver_chunk h m w) = settled w @ [Ack]"
    by (simp_all add: deliver_chunk_def chunk.dispatch_is_handler wp_def)
qed

section \<open>Deliveries in a row\<close>

text \<open>The limiter turned nobody away.\<close>

fun never_refused :: "EmailHandler \<Rightarrow> CampaignChunkPayload message list \<Rightarrow> world \<Rightarrow> bool" where
  "never_refused h [] w \<longleftrightarrow> True"
| "never_refused h (m # ms) w \<longleftrightarrow>
     refusals (deliver_chunk h m w) = refusals w \<and> never_refused h ms (deliver_chunk h m w)"

lemma booked_again:
  assumes "booked 0 p c c1" and "booked 0 q c1 c2" and "cp_completed_at c = None \<or> cp_status c = ''completed''"
  shows "booked 0 (p + q) c c2 \<or> cp_status c2 = ''completed''" and "cp_completed_at c1 = None \<or> cp_status c1 = ''completed''"
  using assms by (auto simp: booked_def split: if_splits)

lemma deliveries_rejected:
  assumes "answered (env w) chunk rd answer" and "\<forall>r \<in> set (cc_Recipients chunk). awaits_mail chunk r w \<and> isl (answer r)"
    and "the_campaign chunk w = Some c" and "cp_completed_at c = None \<or> cp_status c = ''completed''"
    and "\<forall>m \<in> set ms. Data m = Some chunk \<and> attempt_of m < MaxAttempts"
    and "transients h answer (cc_Recipients chunk) \<noteq> []" and "never_refused h ms w"
  shows "settled (fold (deliver_chunk h) ms w) = settled w @ replicate (length ms) Nak \<and>
    (\<forall>r \<in> set (cc_Recipients chunk). awaits_mail chunk r (fold (deliver_chunk h) ms w)) \<and>
    (\<exists>c'. the_campaign chunk (fold (deliver_chunk h) ms w) = Some c' \<and> cp_sent_count c' = cp_sent_count c \<and>
       cp_total_recipients c' = cp_total_recipients c \<and>
       cp_failed_count c' = cp_failed_count c + int (length ms * length (permanents h answer (cc_Recipients chunk))) \<and>
       (0 < length ms * length (permanents h answer (cc_Recipients chunk)) \<and> 0 < cp_total_recipients c \<and>
        cp_total_recipients c \<le> cp_sent_count c' + cp_failed_count c' \<or> cp_status c = ''completed'' \<longrightarrow> cp_status c' = ''completed''))"
  using assms
proof (induction ms arbitrary: w c)
  case Nil
  then show ?case by simp
next
  case (Cons m ms)
  let ?p = "length (permanents h answer (cc_Recipients chunk))" and ?w = "deliver_chunk h m w"
  have none: "accepted answer (cc_Recipients chunk) = []" using Cons.prems(2) by (simp add: filter_empty_conv)
  have same: "refusals ?w = refusals w" and later: "never_refused h ms ?w" using Cons.prems(7) by simp_all
  have m: "Data m = Some chunk" "attempt_of m < MaxAttempts" using Cons.prems(5) by simp_all
  have row: "\<forall>r \<in> set (cc_Recipients chunk). awaits_mail chunk r w" using Cons.prems(2) by blast
  note d = deliver_answered [OF Cons.prems(1) row Cons.prems(3) m refl, of h]
  obtain c1 where c1: "the_campaign chunk ?w = Some c1" "booked 0 ?p c c1"
    using d(3) [OF same] none by auto
  have s: "settled ?w = settled w @ [Nak]" "\<forall>r \<in> set (cc_Recipients chunk). awaits_mail chunk r ?w \<and> isl (answer r)"
    using d(3) [OF same] Cons.prems(2,6) by (auto simp: turned_to_def)
  have a: "answered (env ?w) chunk rd answer" using d(1) Cons.prems(1) by simp
  have f: "cp_completed_at c1 = None \<or> cp_status c1 = ''completed''"
    using booked_again(2) [OF c1(2) _ Cons.prems(4), of 0 c1] by (simp add: booked_def)
  have "\<forall>m \<in> set ms. Data m = Some chunk \<and> attempt_of m < MaxAttempts" using Cons.prems(5) by simp
  from Cons.IH [OF a s(2) c1(1) f this Cons.prems(6) later]
  obtain c' where IH: "settled (fold (deliver_chunk h) ms ?w) = settled ?w @ replicate (length ms) Nak"
    "\<forall>r \<in> set (cc_Recipients chunk). awaits_mail chunk r (fold (deliver_chunk h) ms ?w)"
    "the_campaign chunk (fold (deliver_chunk h) ms ?w) = Some c'" "cp_sent_count c' = cp_sent_count c1"
    "cp_total_recipients c' = cp_total_recipients c1" "cp_failed_count c' = cp_failed_count c1 + int (length ms * ?p)"
    "0 < length ms * ?p \<and> 0 < cp_total_recipients c1 \<and> cp_total_recipients c1 \<le> cp_sent_count c' + cp_failed_count c' \<or>
      cp_status c1 = ''completed'' \<longrightarrow> cp_status c' = ''completed''"
    by blast
  have "cp_status c' = ''completed''"
    if "0 < length (m # ms) * ?p \<and> 0 < cp_total_recipients c \<and> cp_total_recipients c \<le> cp_sent_count c' + cp_failed_count c' \<or>
      cp_status c = ''completed''"
    using that IH(4-7) c1(2) Cons.prems(4) by (cases ms) (auto simp: booked_def split: if_splits)
  then show ?case
    using IH(1-6) s(1) c1(2) by (auto simp: booked_def algebra_simps)
qed

section \<open>Properties\<close>

text \<open>
  Claim C39. A permanent failure is counted again at each redelivery. Take a chunk, without faults and with nobody turned away by
  the rate limiter, of which SES rejects some recipients for good and the others only for the moment. Each delivery below
  the last attempt is negatively acknowledged, nobody is sent, and the campaign's \<^verbatim>\<open>failed_count\<close> grows by all the permanent failures
  of the chunk; as soon as that covers the total, the campaign is \<^verbatim>\<open>completed\<close>, while recipients are still to be sent.
\<close>

theorem failures_counted_again:
  assumes "answered (env w) chunk rd answer" and "\<forall>r \<in> set (cc_Recipients chunk). awaits_mail chunk r w \<and> isl (answer r)"
    and "the_campaign chunk w = Some c" and "cp_completed_at c = None"
    and "\<forall>m \<in> set ms. Data m = Some chunk \<and> attempt_of m < MaxAttempts"
    and "transients h answer (cc_Recipients chunk) \<noteq> []" and "never_refused h ms w"
    and "w' = fold (deliver_chunk h) ms w" and "p = length (permanents h answer (cc_Recipients chunk))"
  shows "settled w' = settled w @ replicate (length ms) Nak \<and> (\<forall>r \<in> set (cc_Recipients chunk). rstat chunk r w' \<noteq> ''sent'') \<and>
    (\<exists>c'. the_campaign chunk w' = Some c' \<and> cp_sent_count c' = cp_sent_count c \<and>
       cp_failed_count c' = cp_failed_count c + int (length ms * p) \<and>
       (0 < length ms * p \<and> 0 < cp_total_recipients c \<and>
        cp_total_recipients c \<le> cp_sent_count c + cp_failed_count c + int (length ms * p) \<longrightarrow> cp_status c' = ''completed''))"
  using deliveries_rejected [OF assms(1-3) _ assms(5-7)] assms(4)
  unfolding assms(8,9) by (auto simp: awaits_mail_def)

definition reject_a :: "nat \<Rightarrow> ses_message \<Rightarrow> goerr + string option" where
  "reject_a k m = (if msg_To m = [''a''] then Inl (APIError ''MessageRejected'' []) else Inl (Err ''timeout''))"

definition answer_a :: "CampaignChunkRecipient \<Rightarrow> goerr + string option" where
  "answer_a r = (if ccr_Email r = ''a'' then Inl (APIError ''MessageRejected'' []) else Inl (Err ''timeout''))"

abbreviation two_deliveries :: "CampaignChunkPayload message list" where
  "two_deliveries \<equiv> [\<lparr>Data = Some two_chunk, NumDelivered = Some 1\<rparr>, \<lparr>Data = Some two_chunk, NumDelivered = Some 2\<rparr>]"

lemma two_world_simps:
  "answered (env (two_world f (\<lambda>_. NoFault))) two_chunk rd answer \<longleftrightarrow> Render (chunk_template two_chunk) = Inr rd \<and>
     (\<forall>r \<in> set (cc_Recipients two_chunk). \<forall>k. f k (ses_request (chunk_input two_chunk r rd)) = answer r)"
  "\<forall>r \<in> set (cc_Recipients two_chunk). awaits_mail two_chunk r (two_world f (\<lambda>_. NoFault))"
  "the_campaign two_chunk (two_world f g) = Some (hd (campaigns (db (two_world f g))))"
  "settled (two_world f g) = []"
  by (auto simp: answered_def two_world_def two_chunk_def reliable_def quiet_env_def quiet_world_def validateCampaignChunk_def
      awaits_mail_def rstat_def recipient_status_def this_recipient_def find_campaign_def this_campaign_def)

lemma two_refusals:
  "refusals (two_world f g) = 0"
  "refusals (deliver_chunk two_handler \<lparr>Data = Some two_chunk, NumDelivered = Some 1\<rparr> (two_world reject_a (\<lambda>_. NoFault))) = 0"
  "refusals (fold (deliver_chunk two_handler) two_deliveries (two_world reject_a (\<lambda>_. NoFault))) = 0"
  by (simp add: refusals_def two_world_def quiet_world_def) code_simp+

lemma two_never_refused: "never_refused two_handler two_deliveries (two_world reject_a (\<lambda>_. NoFault))"
  using two_refusals by simp

lemma two_rendered: "Render (chunk_template two_chunk) = Inr \<lparr>rd_Subject = ''x'', rd_HTML = [], rd_Text = ''t''\<rparr>"
  by code_simp

lemma two_split:
  "length (permanents two_handler answer_a (cc_Recipients two_chunk)) = 1"
  "transients two_handler answer_a (cc_Recipients two_chunk) \<noteq> []"
  by code_simp+

lemma failures_counted_again_witness:
  "let w' = fold (deliver_chunk two_handler) two_deliveries (two_world reject_a (\<lambda>_. NoFault)) in
     settled w' = [Nak, Nak] \<and> (\<exists>c'. the_campaign two_chunk w' = Some c' \<and> cp_failed_count c' = 2 \<and> cp_status c' = ''completed'')"
proof -
  let ?w = "two_world reject_a (\<lambda>_. NoFault)"
  have a: "answered (env ?w) two_chunk \<lparr>rd_Subject = ''x'', rd_HTML = [], rd_Text = ''t''\<rparr> answer_a"
    unfolding two_world_simps(1) by (simp add: two_rendered) (auto simp: reject_a_def answer_a_def ses_request_def chunk_input_def)
  have s: "\<forall>r \<in> set (cc_Recipients two_chunk). awaits_mail two_chunk r ?w \<and> isl (answer_a r)"
    using two_world_simps(2) by (auto simp: answer_a_def)
  have c: "cp_completed_at (hd (campaigns (db ?w))) = None" "cp_failed_count (hd (campaigns (db ?w))) = 0"
    "cp_sent_count (hd (campaigns (db ?w))) = 0" "cp_total_recipients (hd (campaigns (db ?w))) = 2"
    by (simp_all add: two_world_def)
  have m: "\<forall>m \<in> set two_deliveries. Data m = Some two_chunk \<and> attempt_of m < MaxAttempts"
    by (simp add: attempt_of_def MaxAttempts_def)
  show ?thesis
    using failures_counted_again [OF a s two_world_simps(3) c(1) m two_split(2) two_never_refused refl refl] c two_split(1)
    by (auto simp: Let_def two_world_simps(4) simp del: fold.simps)
qed

text \<open>
  Claim C40. A chunk that overtakes the total never completes its campaign: when the chunk is handled, without faults and with
  every mail accepted, before the start handler has stored the total, all its recipients are sent and counted; but once the
  total is stored nothing looks at the counts any more. However often the chunk is delivered again, it is acknowledged
  and the campaign stays \<^verbatim>\<open>sending\<close>, also when its counts cover its total.
\<close>

theorem chunk_overtakes_total:
  assumes "answered (env w) chunk rd answer" and "\<forall>r \<in> set (cc_Recipients chunk). awaits_mail chunk r w \<and> \<not> isl (answer r)"
    and "the_campaign chunk w = Some c" and "cp_total_recipients c = 0" and "status_in (cp_status c) [''queued'', ''sending'']"
    and "Data m = Some chunk" and "attempt_of m < MaxAttempts" and "w1 = deliver_chunk h m w" and "refusals w1 = refusals w"
    and "w2 = snd (run_state (UpdateCampaignStarted (cc_CampaignID chunk) (cc_WorkspaceID chunk) n) w1)"
    and "\<forall>m \<in> set ms. Data m = Some chunk" and "w3 = fold (deliver_chunk h) ms w2"
  shows "settled w3 = settled w @ replicate (Suc (length ms)) Ack \<and> (\<forall>r \<in> set (cc_Recipients chunk). rstat chunk r w3 = ''sent'') \<and>
    (\<exists>c'. the_campaign chunk w3 = Some c' \<and> cp_status c' = ''sending'' \<and> cp_total_recipients c' = int n \<and>
       cp_sent_count c' = cp_sent_count c + int (length (cc_Recipients chunk)))"
proof -
  let ?rs = "cc_Recipients chunk"
  have rel: "reliable (env w)" using assms(1) by (simp add: answered_def)
  have row: "\<forall>r \<in> set ?rs. awaits_mail chunk r w" using assms(2) by blast
  note d = deliver_answered [OF assms(1) row assms(3,6,7,8)]
  have acc: "accepted answer ?rs = ?rs" "permanents h answer ?rs = []" "transients h answer ?rs = []"
    using assms(2) by (auto simp: filter_id_conv filter_empty_conv outcome_for_def split: sum.splits)
  from d(3) [OF assms(9)] obtain c1 where 1: "settled w1 = settled w @ [Ack]" "\<forall>r \<in> set ?rs. rstat chunk r w1 = ''sent''"
    "the_campaign chunk w1 = Some c1" "booked (length ?rs) 0 c c1"
    using acc assms(2) by (auto simp: turned_to_def)
  have c1: "cp_status c1 = cp_status c" "cp_sent_count c1 = cp_sent_count c + int (length ?rs)"
    using 1(4) assms(4) by (auto simp: booked_def)
  have 2: "env w2 = env w" "settled w2 = settled w1" "\<forall>r \<in> set ?rs. rstat chunk r w2 = ''sent''"
    "\<exists>c2. the_campaign chunk w2 = Some c2 \<and> cp_status c2 = ''sending'' \<and> cp_total_recipients c2 = int n \<and> cp_sent_count c2 = cp_sent_count c1"
  proof -
    have "wp (UpdateCampaignStarted (cc_CampaignID chunk) (cc_WorkspaceID chunk) n) (\<lambda>_ w2. env w2 = env w1 \<and> settled w2 = settled w1 \<and>
        campaign_recipients (db w2) = campaign_recipients (db w1) \<and>
        (\<exists>c2. the_campaign chunk w2 = Some c2 \<and> cp_status c2 = ''sending'' \<and> cp_total_recipients c2 = int n \<and>
           cp_sent_count c2 = cp_sent_count c1)) w1"
      using rel d(1) 1(3) c1(1) assms(5)
      by (auto simp: UpdateCampaignStarted_def wp_rules Let_def start_campaign_def find_campaign_def find_update_sub)
    then have u: "env w2 = env w1" "settled w2 = settled w1" "campaign_recipients (db w2) = campaign_recipients (db w1)"
      "\<exists>c2. the_campaign chunk w2 = Some c2 \<and> cp_status c2 = ''sending'' \<and> cp_total_recipients c2 = int n \<and> cp_sent_count c2 = cp_sent_count c1"
      by (simp_all add: wp_def assms(10) case_prod_beta)
    then show "env w2 = env w" "settled w2 = settled w1" "\<forall>r \<in> set ?rs. rstat chunk r w2 = ''sent''"
      "\<exists>c2. the_campaign chunk w2 = Some c2 \<and> cp_status c2 = ''sending'' \<and> cp_total_recipients c2 = int n \<and> cp_sent_count c2 = cp_sent_count c1"
      using d(1) 1(2) rstat_recipients [OF u(3)] by simp_all
  qed
  have "db (fold (deliver_chunk h) ms v) = db v \<and> settled (fold (deliver_chunk h) ms v) = settled v @ replicate (length ms) Ack"
    if "env v = env w" "\<forall>r \<in> set ?rs. rstat chunk r v = ''sent''" for v
    using that assms(11)
  proof (induction ms arbitrary: v)
    case (Cons m ms)
    have a: "answered (env v) chunk rd answer" using assms(1) Cons.prems(1) by simp
    note same = deliver_all_sent [OF a Cons.prems(2), of m h]
    have "Data m = Some chunk" using Cons.prems(3) by simp
    with same Cons.IH [of "deliver_chunk h m v"] Cons.prems show ?case by (simp add: rstat_def)
  qed simp
  from this [OF 2(1,3)] 2 1(1) c1(2) show ?thesis unfolding assms(12) by (auto simp: rstat_def)
qed

lemma chunk_overtakes_total_witness:
  "let w = (two_world (\<lambda>_ _. Inr None) (\<lambda>_. NoFault));
       w0 = w\<lparr>db := (db w)\<lparr>campaigns := map (\<lambda>r. r\<lparr>cp_total_recipients := 0\<rparr>) (campaigns (db w))\<rparr>\<rparr>;
       w1 = deliver_chunk two_handler \<lparr>Data = Some two_chunk, NumDelivered = Some 1\<rparr> w0;
       w3 = deliver_chunk two_handler \<lparr>Data = Some two_chunk, NumDelivered = Some 2\<rparr> (snd (run_state (UpdateCampaignStarted ''c'' ''w'' 2) w1)) in
     (\<exists>c'. the_campaign two_chunk w3 = Some c' \<and> cp_status c' = ''sending'' \<and> cp_total_recipients c' = 2 \<and> cp_sent_count c' = 2)"
proof -
  let ?w = "two_world (\<lambda>_ _. Inr None) (\<lambda>_. NoFault)"
  define w0 where "w0 = ?w\<lparr>db := (db ?w)\<lparr>campaigns := map (\<lambda>r. r\<lparr>cp_total_recipients := 0\<rparr>) (campaigns (db ?w))\<rparr>\<rparr>"
  have ids: "cc_CampaignID two_chunk = ''c''" "cc_WorkspaceID two_chunk = ''w''" "length (cc_Recipients two_chunk) = 2"
    by (simp_all add: two_chunk_def)
  have a: "answered (env w0) two_chunk \<lparr>rd_Subject = ''x'', rd_HTML = [], rd_Text = ''t''\<rparr> (\<lambda>_. Inr None)"
    by (simp add: w0_def two_world_simps two_rendered)
  have s: "\<forall>r \<in> set (cc_Recipients two_chunk). awaits_mail two_chunk r w0 \<and> \<not> isl (Inr None :: goerr + string option)"
    using two_world_simps(2) by (simp add: w0_def awaits_mail_def rstat_def recipient_status_def)
  have c: "the_campaign two_chunk w0 = Some (hd (campaigns (db w0)))" "cp_total_recipients (hd (campaigns (db w0))) = 0"
    "cp_sent_count (hd (campaigns (db w0))) = 0" "status_in (cp_status (hd (campaigns (db w0)))) [''queued'', ''sending'']"
    by (simp_all add: w0_def two_world_def find_campaign_def this_campaign_def ids)
  have r: "refusals (deliver_chunk two_handler \<lparr>Data = Some two_chunk, NumDelivered = Some 1\<rparr> w0) = refusals w0"
    unfolding w0_def by code_simp
  show ?thesis
    using chunk_overtakes_total [OF a s c(1,2,4) _ _ refl r refl, where n = 2 and ms = "[\<lparr>Data = Some two_chunk, NumDelivered = Some 2\<rparr>]"] c(3)
    by (auto simp: Let_def w0_def [symmetric] ids attempt_of_def MaxAttempts_def)
qed

end
