(* ===== verification/Spec2Isabelle.thy ===== *)
theory Spec2Isabelle
  imports Pipeline Routing Races WorkflowMail Miscounts
begin

text \<open>
  The workers of an email and customer engagement platform: one Go binary that consumes JetStream
  messages and runs four background schedulers against Postgres, Redis and AWS SES. This development
  models its Go code and proves what makes it correct, and where it is not.

  \<^bold>\<open>How the program works.\<close> \<^verbatim>\<open>cmd/workers/main.go\<close> creates the streams and registers one durable consumer per
  handler; the registry hands each message to its handler under a timeout and recovers panics. An event
  (\<^verbatim>\<open>events.raw.*\<close>) resolves or creates its contact, is stored enriched, and publishes workflow triggers. A
  trigger creates an execution and walks the graph of its workflow, publishing transactional emails and
  pausing at delays, from which the delay scheduler resumes. The campaign scheduler publishes start jobs;
  a start job streams a segment and publishes chunk jobs; a chunk sends its recipients. A segment refresh
  recomputes memberships from a filter tree. The domain poller follows the verification of sending
  domains, and two sweeps expire stale domains and delete old rows. The workers interact through the
  database, the queue and the Redis locks only, and so do their models.

  \<^bold>\<open>The world.\<close> Handlers are programs in the state monad over the record \<open>world\<close>: the tables, the Redis keys,
  the publication log, the mails SES accepted, the dispositions of the current message, the metrics and
  the clock. Every external call goes through \<open>call\<close>, and the environment decides for each one how long it
  takes and whether it succeeds, fails, or takes effect and then reports an error. A theorem over all
  environments thus covers every placement of faults, including lost acknowledgements; \<open>reliable\<close> means
  that no call fails, \<open>errors_mean_nothing_done\<close> that a failed call had no effect. One handler runs at a time: interleavings
  are sequences of deliveries (\<open>redeliver\<close>, \<open>fold deliver\<close>), runs of \<open>system_step\<close> or, where operations overlap,
  a step relation: over the calls of the lock's clients (\<open>lock_step\<close>), and over the external calls of
  deliveries of one chunk (\<open>overlap\<close>).

  \<^bold>\<open>Theories.\<close>
  \<^item> \<open>Prelude\<close>, \<open>GoStrings\<close>, \<open>GoTime\<close>, \<open>GoValues\<close>, \<open>GoDuration\<close>: SQL verbs on lists of rows, the weakest-precondition and frame
    calculus, two-state guarantees (locale \<open>guarantee\<close>), and the Go functions the code uses on strings,
    decoded JSON values and durations, whose arithmetic wraps at 64 bits.
  \<^item> \<open>Payloads\<close>, \<open>Codec\<close> (\<^verbatim>\<open>pkg/types/nats_payloads.go\<close>): the message types, and how \<^verbatim>\<open>encoding/json\<close> writes and reads them by
    their struct tags (locale \<open>codec\<close>); \<open>Calendar\<close> and \<open>WireTime\<close> are the round trip of RFC 3339 times. \<open>Tables\<close> (the columns the queries name), \<open>World\<close>.
  \<^item> \<open>PgDelivery\<close>, \<open>PgAutomation\<close>: the queries of \<^verbatim>\<open>internal/infra/postgres/client.go\<close>, one definition per method.
  \<^item> \<open>RateLimit\<close> (\<^verbatim>\<open>internal/ratelimit\<close>): the token bucket, with throughput, wait and level bounds.
  \<^item> \<open>RedisLock\<close> (\<^verbatim>\<open>internal/infra/redis\<close>): the lock, its contract (locale \<open>leased_lock\<close>), mutual exclusion among
    clients of \<open>AcquireLock\<close> and \<open>ReleaseLock\<close> that use values of their own, and why a constant value breaks it.
  \<^item> \<open>Messaging\<close>: publisher, registry dispatch and the handler contract (locales \<open>message_handler\<close>, \<open>total_handler\<close>,
    \<open>single_send_handler\<close>), and the SES client.
  \<^item> \<open>Renderer\<close>, \<open>TransactionalEmail\<close>, \<open>CampaignChunk\<close>, \<open>CampaignStart\<close> (\<^verbatim>\<open>internal/worker/email\<close>): at most one mail, the decision
    table, the balance of mails, rows and counters, coverage of the segment by the chunks; \<open>Keyset\<close> is the
    contract of keyset pagination (locale \<open>keyset_source\<close>) that the start job and the refresh share.
  \<^item> \<open>Miscounts\<close>: where the counts of a campaign go wrong without a fault, for any chunk whose recipients SES answers in
    a fixed way.
  \<^item> \<open>Domains\<close> (\<^verbatim>\<open>internal/worker/ses\<close>), \<open>Cleanup\<close> (\<^verbatim>\<open>internal/worker/cleanup\<close>).
  \<^item> \<open>SegmentFilter\<close>, \<open>Segments\<close> (\<^verbatim>\<open>internal/worker/segments\<close>): the filter language against its boolean reading, and the
    refresh against the selection it should install.
  \<^item> \<open>Executor\<close>, \<open>Workflows\<close> (\<^verbatim>\<open>internal/worker/workflows\<close>): the walk against the plan of its graph, when it returns
    and when not, triggers, resumption and the delay scheduler.
  \<^item> \<open>EventWorker\<close> (\<^verbatim>\<open>internal/worker/events\<close>): identity resolution, enrichment and the triggers it publishes.
  \<^item> \<open>Wiring\<close> (\<^verbatim>\<open>cmd/workers\<close>, \<^verbatim>\<open>internal/config\<close>, \<^verbatim>\<open>internal/infra/nats\<close>): settings, streams, consumers, scheduler
    loops, and the settlement of messages across all handlers.
  \<^item> \<open>Startup\<close> (\<^verbatim>\<open>cmd/workers/main.go\<close>, the constructors under \<^verbatim>\<open>internal/infra\<close>): when the settings load, and the life of the
    process as a sequence of calls that may be refused, against the plan it should carry out.
  \<^item> \<open>System\<close> (\<^verbatim>\<open>cmd/workers/main.go\<close>): which handler \<^verbatim>\<open>main\<close> attaches to which consumer, the settlement of arbitrary
    bodies, and the steps of the process in any order. \<open>Evolution\<close>: what no run may do, the relation \<open>evolves\<close> that every
    handler and scheduler guarantees. \<open>Routing\<close>: the streams and consumers of every published message.
  \<^item> \<open>Races\<close>: deliveries that overlap: of a campaign chunk, one external call at a time, and of a workflow trigger.
  \<^item> \<open>Pipeline\<close>: the campaign start handler, JSON and the chunk handler composed, from the start job to the last mail.
  \<^item> \<open>WorkflowMail\<close>: from an email node of a workflow to the mail, and why nothing protects it against duplicates.

  \<^bold>\<open>Loops.\<close> Pagination and the deletion sweeps end because each page shrinks what is left; they are total functions
  whose termination proofs say so. The rate limiter's wait ends because every round spends at least a
  millisecond of its budget. The walk through a workflow may run for ever and is a partial function to an option; \<open>executor_returns\<close> and
  \<open>cyclic_workflow_diverges\<close> say when. There is no fuel.

  \<^bold>\<open>Abstractions.\<close> Log lines and the texts of library errors are left out, so a stored failure reason has the program's
  own prefix only. A handler is given the result of \<^verbatim>\<open>json.Unmarshal\<close>, which \<open>Codec\<close> computes from a JSON value; the text of
  that value is not modelled. JSON numbers are decimals instead of \<^verbatim>\<open>float64\<close>, and the
  Lua doubles of the bucket are rationals. The entries of an object are in no particular order. A
  transaction is one call. How JetStream matches subjects against filters is a parameter of \<open>Routing\<close>. The unique indexes are those that the \<^verbatim>\<open>ON CONFLICT\<close> clauses of the queries require.

  \<^bold>\<open>Not modelled.\<close> The HTTP endpoint and the connections of the NATS, Postgres, Redis and AWS clients are I/O of
  libraries: \<open>Startup\<close> has the calls and whether they are refused. The consume loop of JetStream is represented by deliveries. \<^verbatim>\<open>Ack\<close>, \<^verbatim>\<open>Nak\<close> and
  \<^verbatim>\<open>Term\<close>, whose errors the code ignores, always succeed; a lost acknowledgement appears as one more delivery. SES is a
  parameter of the environment. Many files of the tree are one-line placeholders without code (bounces,
  webhooks, health, observability, clickhouse, s3 and others), and the test doubles are empty.
\<close>

end
